(* ===== verification/OstPrelude.thy ===== *)
theory OstPrelude
  imports Main "HOL-Library.Word" "HOL-Library.Monad_Syntax" "HOL-Library.Multiset"
begin

text \<open>
  The prelude of the development: the machine types the C sources use, the fact
  collections the component theories fill, linked lists in a typed heap (\<open>lseg\<close>), the
  allocator every component draws its addresses from, and the generic list lemmas that
  several components share.

  Conventions.  A C pointer is a \<open>ptr\<close> (a natural number, \<open>NULL\<close> is 0) into a typed heap
  (one partial map per object type).  Undefined behaviour (reading or freeing an address
  that holds no live object) and a loop that does not return are both the value \<open>None\<close> of
  an \<open>option\<close>; a theorem that an operation is \<open>Some r\<close> therefore says that it returns, and
  that it touches live objects only.
\<close>

unbundle bit_operations_syntax

section \<open>Machine types\<close>

type_synonym u8 = "8 word"
type_synonym u32 = "32 word"
type_synonym u64 = "64 word"
type_synonym ptr = nat

abbreviation NULL :: ptr where "NULL \<equiv> 0"

text \<open>The C functions return \<open>-1\<close> converted to the return type.\<close>

abbreviation minus_one32 :: u32 where "minus_one32 \<equiv> - 1"

named_theorems word_facts \<open>values of widened, narrowed and bounded machine words\<close>

lemma unat_widen [word_facts]: "unat (ucast (w :: u32) :: u64) = unat w"
  using unsigned_less [where 'a = nat, of w] by (simp add: unsigned_ucast_eq take_bit_eq_mod)

lemma unat_narrow [word_facts]: "unat (ucast (w :: u64) :: u32) = unat w mod 2 ^ 32"
  by (simp add: unsigned_ucast_eq take_bit_eq_mod)

lemma narrow_widen [word_facts]: "ucast (ucast (w :: u32) :: u64) = w"
  using unsigned_less [where 'a = nat, of w] by (simp add: word_unat_eq_iff unat_widen unat_narrow)

lemma unat_of_nat64 [word_facts]: "n < 2 ^ 64 \<Longrightarrow> unat (of_nat n :: u64) = n"
  by (simp add: unat_of_nat)

lemma unat_less_u32 [word_facts]: "unat (w :: u32) < 4294967296"
  using unsigned_less [where 'a = nat, of w] by simp

section \<open>The allocator\<close>

text \<open>
  \<open>malloc\<close> and \<open>calloc\<close> hand out addresses that were never used before, or fail.  Which calls
  fail is the choice of the environment: \<open>malloc_ok n\<close> says whether the n-th call succeeds,
  and every theorem holds for every such choice.  One address stands for one object; an
  array of n objects occupies n consecutive addresses.
\<close>

record allocator =
  brk :: nat
  calls :: nat
  malloc_ok :: "nat \<Rightarrow> bool"

definition malloc_n :: "nat \<Rightarrow> 'z allocator_scheme \<Rightarrow> ptr \<times> 'z allocator_scheme" where
  "malloc_n n a =
     (if malloc_ok a (calls a)
      then (brk a, a\<lparr>brk := brk a + max 1 n, calls := Suc (calls a)\<rparr>)
      else (NULL, a\<lparr>calls := Suc (calls a)\<rparr>))"

abbreviation malloc1 :: "'z allocator_scheme \<Rightarrow> ptr \<times> 'z allocator_scheme" where
  "malloc1 \<equiv> malloc_n 1"

section \<open>Linked lists in a heap\<close>

text \<open>
  \<open>lseg nxt p xs q\<close>: following the link function \<open>nxt\<close> from \<open>p\<close> visits exactly the
  addresses \<open>xs\<close> and arrives at \<open>q\<close>.  A NULL-terminated list is the case \<open>q = NULL\<close>.
\<close>

fun lseg :: "(ptr \<Rightarrow> ptr option) \<Rightarrow> ptr \<Rightarrow> ptr list \<Rightarrow> ptr \<Rightarrow> bool" where
  "lseg nxt p [] q \<longleftrightarrow> p = q"
| "lseg nxt p (a # as) q \<longleftrightarrow>
     p = a \<and> a \<noteq> NULL \<and> (case nxt a of None \<Rightarrow> False | Some b \<Rightarrow> lseg nxt b as q)"

lemma lseg_append:
  "lseg nxt p (xs @ ys) q \<longleftrightarrow> (\<exists>r. lseg nxt p xs r \<and> lseg nxt r ys q)"
  by (induction xs arbitrary: p) (auto split: option.splits)

lemma lseg_cong:
  assumes "\<And>a. a \<in> set xs \<Longrightarrow> nxt' a = nxt a"
  shows "lseg nxt' p xs q = lseg nxt p xs q"
  using assms by (induction xs arbitrary: p) (auto split: option.splits)

lemma lseg_NULL [simp]: "lseg nxt NULL xs q \<longleftrightarrow> xs = [] \<and> q = NULL"
  by (cases xs) auto

lemma lseg_unique: "lseg nxt p xs NULL \<Longrightarrow> lseg nxt p ys NULL \<Longrightarrow> xs = ys"
proof (induction xs arbitrary: p ys)
  case Nil
  then show ?case by simp
next
  case (Cons a as)
  then obtain b bs where "ys = b # bs" by (cases ys) auto
  with Cons show ?case by (auto split: option.splits)
qed

lemma lseg_hd_notin:
  assumes "lseg nxt p (a # as) NULL"
  shows "a \<notin> set as"
proof
  assume "a \<in> set as"
  then obtain us vs where as: "as = us @ a # vs" by (meson split_list)
  from assms have 1: "lseg nxt a (a # us @ a # vs) NULL" by (simp add: as)
  then have "lseg nxt a ((a # us) @ (a # vs)) NULL" by simp
  then obtain r where "lseg nxt r (a # vs) NULL" unfolding lseg_append by blast
  then have "lseg nxt a (a # vs) NULL" by simp
  from lseg_unique [OF 1 this] show False by simp
qed

lemma lseg_distinct: "lseg nxt p xs NULL \<Longrightarrow> distinct xs"
proof (induction xs arbitrary: p)
  case (Cons a as)
  from lseg_hd_notin [OF Cons.prems] Cons show ?case by (auto split: option.splits)
qed simp

lemma lseg_dom: "lseg nxt p xs q \<Longrightarrow> a \<in> set xs \<Longrightarrow> a \<noteq> NULL \<and> nxt a \<noteq> None"
  by (induction xs arbitrary: p) (auto split: option.splits)

lemma lseg_head: "lseg nxt p xs q \<Longrightarrow> p = (case xs of [] \<Rightarrow> q | a # _ \<Rightarrow> a)"
  by (cases xs) auto

lemma lseg_snoc:
  "lseg nxt p (xs @ [a]) q \<longleftrightarrow> lseg nxt p xs a \<and> a \<noteq> NULL \<and> nxt a = Some q"
  by (auto simp: lseg_append split: option.splits)

text \<open>Redirecting the link of the last address of a segment redirects the segment.\<close>

lemma lseg_relink_last:
  assumes "lseg nxt p (xs @ [a]) q" and "a \<notin> set xs"
    and "nxt' a = Some r" and "\<And>b. b \<in> set xs \<Longrightarrow> nxt' b = nxt b"
  shows "lseg nxt' p (xs @ [a]) r"
  using assms by (simp add: lseg_snoc lseg_cong [of xs nxt' nxt])

section \<open>Lists\<close>

text \<open>
  The first element with a property, with what stands before and after it: the library's
  \<open>List.extract\<close>.  The next lemmas are the two shapes in which the queue proofs use it.
\<close>

lemma extract_SomeD:
  "List.extract P xs = Some (ys, y, zs) \<Longrightarrow>
     xs = ys @ y # zs \<and> P y \<and> (\<forall>x \<in> set ys. \<not> P x)"
  by (auto simp: extract_Some_iff)

lemma extract_split:
  "P y \<Longrightarrow> (\<And>x. x \<in> set ys \<Longrightarrow> \<not> P x) \<Longrightarrow> List.extract P (ys @ y # zs) = Some (ys, y, zs)"
  by (auto simp: extract_Some_iff)

lemma extract_NoneD: "List.extract P xs = None \<Longrightarrow> x \<in> set xs \<Longrightarrow> \<not> P x"
  by (auto simp: extract_None_iff)

lemma extract_NoneI: "(\<And>x. x \<in> set xs \<Longrightarrow> \<not> P x) \<Longrightarrow> List.extract P xs = None"
  by (auto simp: extract_None_iff)

lemma extract_map:
  "List.extract P (map f xs) =
     map_option (\<lambda>(ys, y, zs). (map f ys, f y, map f zs)) (List.extract (P \<circ> f) xs)"
proof (cases "List.extract (P \<circ> f) xs")
  case None
  then have "\<And>x. x \<in> set xs \<Longrightarrow> \<not> P (f x)" by (auto dest: extract_NoneD)
  then have "List.extract P (map f xs) = None" by (intro extract_NoneI) auto
  with None show ?thesis by simp
next
  case (Some r)
  obtain ys y zs where r: "r = (ys, y, zs)" by (cases r)
  with Some have "xs = ys @ y # zs" "P (f y)" "\<And>x. x \<in> set ys \<Longrightarrow> \<not> P (f x)"
    by (auto dest: extract_SomeD)
  then have "List.extract P (map f xs) = Some (map f ys, f y, map f zs)"
    by (auto intro!: extract_split)
  with Some r show ?thesis by simp
qed

lemma extract_cong:
  "(\<And>x. x \<in> set xs \<Longrightarrow> P x = Q x) \<Longrightarrow> List.extract P xs = List.extract Q xs"
proof -
  assume eq: "\<And>x. x \<in> set xs \<Longrightarrow> P x = Q x"
  show ?thesis
  proof (cases "List.extract Q xs")
    case None
    with eq have "\<And>x. x \<in> set xs \<Longrightarrow> \<not> P x" by (auto dest: extract_NoneD)
    then show ?thesis using None by (simp add: extract_NoneI)
  next
    case (Some r)
    obtain ys y zs where r: "r = (ys, y, zs)" by (cases r)
    with Some have "xs = ys @ y # zs" "Q y" "\<And>x. x \<in> set ys \<Longrightarrow> \<not> Q x"
      by (auto dest: extract_SomeD)
    with eq show ?thesis using Some r by (auto intro!: extract_split)
  qed
qed

text \<open>What taking the first match out of a list does to the matches and to the rest.\<close>

lemma extract_filter:
  assumes "List.extract P xs = Some (ys, y, zs)"
  shows "filter P xs = y # filter P (ys @ zs)"
    and "filter (\<lambda>x. \<not> P x) (ys @ zs) = filter (\<lambda>x. \<not> P x) xs"
    and "length xs = Suc (length (ys @ zs))"
proof -
  from assms have *: "xs = ys @ y # zs" "P y" "\<forall>x \<in> set ys. \<not> P x"
    by (auto dest: extract_SomeD)
  then have "filter P ys = []" by simp
  with * show "filter P xs = y # filter P (ys @ zs)" by simp
  from * show "filter (\<lambda>x. \<not> P x) (ys @ zs) = filter (\<lambda>x. \<not> P x) xs" by simp
  from * show "length xs = Suc (length (ys @ zs))" by simp
qed

lemma extract_None_filter: "List.extract P xs = None \<Longrightarrow> filter P xs = []"
  by (auto simp: extract_None_iff filter_empty_conv)

lemma restrict_map_all [simp]: "f |` UNIV = f"
  by (simp add: restrict_map_def)

text \<open>Replacing one list of a list of lists, up to the order of the elements.\<close>

lemma mset_concat_update:
  "i < length xss \<Longrightarrow>
     mset (concat (xss[i := ys])) + mset (xss ! i) = mset (concat xss) + mset ys"
proof (induction xss arbitrary: i)
  case (Cons xs xss)
  then show ?case by (cases i) (auto simp: ac_simps)
qed simp

lemma set_concat_nth: "i < length xss \<Longrightarrow> set (xss ! i) \<subseteq> set (concat xss)"
  by (auto simp: set_concat intro: nth_mem)

lemma concat_map_map: "concat (map (map f) xss) = map f (concat xss)"
  by (simp add: map_concat)

lemma distinct_concat_nth_disjoint:
  "distinct (concat xss) \<Longrightarrow> i < length xss \<Longrightarrow> j < length xss \<Longrightarrow> i \<noteq> j \<Longrightarrow>
     set (xss ! i) \<inter> set (xss ! j) = {}"
proof (induction xss arbitrary: i j)
  case (Cons xs xss)
  have sub: "k < length xss \<Longrightarrow> set (xss ! k) \<inter> set xs = {}" for k
    using Cons.prems(1) set_concat_nth [of k xss] by auto
  from Cons sub show ?case
    by (cases i; cases j) (auto simp: Int_commute)
qed simp

lemma distinct_concat_nth: "distinct (concat xss) \<Longrightarrow> i < length xss \<Longrightarrow> distinct (xss ! i)"
  by (induction xss arbitrary: i) (auto simp: nth_Cons split: nat.splits)

text \<open>A permuted list of triples keeps the sets and the distinctness of its projections.\<close>

lemma mset_eq_distinct_map:
  "mset xs = mset ys \<Longrightarrow> distinct (map f xs) = distinct (map f ys)"
  by (metis mset_eq_imp_distinct_iff mset_map)

lemma mset_eq_image: "mset xs = mset ys \<Longrightarrow> f ` set xs = f ` set ys"
  by (metis set_mset_mset)

lemma inj_on_images_disjoint:
  assumes "inj_on f A" "B \<subseteq> A" "C \<subseteq> A" "B \<inter> C = {}"
  shows "f ` B \<inter> f ` C = {}"
  using inj_on_image_Int [OF assms(1-3)] assms(4) by simp

text \<open>Replacing one list of a list of lists, split around it.\<close>

lemma concat_split:
  assumes "i < length xss"
  shows "concat xss = concat (take i xss) @ xss ! i @ concat (drop (Suc i) xss)"
    and "concat (xss[i := ys]) = concat (take i xss) @ ys @ concat (drop (Suc i) xss)"
proof -
  have "xss = take i xss @ xss ! i # drop (Suc i) xss" using id_take_nth_drop [OF assms] .
  then show "concat xss = concat (take i xss) @ xss ! i @ concat (drop (Suc i) xss)"
    by (metis concat.simps(2) concat_append)
  show "concat (xss[i := ys]) = concat (take i xss) @ ys @ concat (drop (Suc i) xss)"
    by (simp add: upd_conv_take_nth_drop [OF assms])
qed

lemma nth_subset_others:
  assumes "i < length xss" "j < length xss" "j \<noteq> i"
  shows "set (xss ! j) \<subseteq> set (concat (take i xss)) \<union> set (concat (drop (Suc i) xss))"
proof (cases "j < i")
  case True
  then have "xss ! j \<in> set (take i xss)" using assms by (auto simp: in_set_conv_nth)
  then show ?thesis by auto
next
  case False
  then obtain k where k: "j = Suc i + k" using assms(3) by (metis add.commute less_iff_Suc_add
        linorder_neqE_nat add_Suc_right)
  then have "xss ! j = drop (Suc i) xss ! k" "k < length (drop (Suc i) xss)" using assms by auto
  then have "xss ! j \<in> set (drop (Suc i) xss)" by (metis nth_mem)
  then show ?thesis by auto
qed

lemma disjoint_replace:
  "A \<inter> B = {} \<Longrightarrow> (A \<union> B) \<inter> (I \<union> X) = {} \<Longrightarrow> Y \<subseteq> I \<union> X \<Longrightarrow>
     A \<inter> (Y \<union> B) = {} \<and> Y \<inter> B = {}"
  by blast

text \<open>
  One projection f of the elements (the addresses of one kind of object), pairwise distinct,
  with further addresses X outside the lists.  List i is replaced by ys; the addresses D go
  away, X becomes X'.
\<close>

lemma projection_update:
  assumes d: "distinct (map f (concat xss))" and i: "i < length xss"
    and X: "X \<inter> f ` set (concat xss) = {}" and D: "D \<subseteq> f ` set (xss ! i) \<union> X"
    and ys: "f ` set ys \<union> X' = (f ` set (xss ! i) \<union> X) - D" "f ` set ys \<inter> X' = {}"
      "distinct (map f ys)"
  shows "distinct (map f (concat (xss[i := ys])))"
    and "X' \<inter> f ` set (concat (xss[i := ys])) = {}"
    and "f ` set (concat (xss[i := ys])) \<union> X' = (f ` set (concat xss) \<union> X) - D"
    and "j < length xss \<Longrightarrow> j \<noteq> i \<Longrightarrow> f ` set (xss ! j) \<inter> (f ` set (xss ! i) \<union> X) = {}"
proof -
  define as bs where "as = concat (take i xss)" and "bs = concat (drop (Suc i) xss)"
  have c: "concat xss = as @ xss ! i @ bs" "concat (xss[i := ys]) = as @ ys @ bs"
    using concat_split [OF i] by (simp_all add: as_def bs_def)
  have o: "f ` (set as \<union> set bs) \<inter> (f ` set (xss ! i) \<union> X) = {}"
    using d X unfolding c by auto
  have sub: "f ` set ys \<subseteq> f ` set (xss ! i) \<union> X" "X' \<subseteq> f ` set (xss ! i) \<union> X"
    using ys(1) by blast+
  have ab: "distinct (map f as)" "distinct (map f bs)" "f ` set as \<inter> f ` set bs = {}"
    using d unfolding c by auto
  have "f ` set as \<inter> (f ` set ys \<union> f ` set bs) = {} \<and> f ` set ys \<inter> f ` set bs = {}"
    using o by (intro disjoint_replace [OF ab(3) _ sub(1)]) (simp add: image_Un)
  then show "distinct (map f (concat (xss[i := ys])))"
    unfolding c using ab(1,2) ys(3) by (simp add: image_Un)
  show "X' \<inter> f ` set (concat (xss[i := ys])) = {}"
    unfolding c using o sub(2) ys(2) by auto
  have "(f ` (set as \<union> set bs)) - D = f ` (set as \<union> set bs)" using o D by blast
  then show "f ` set (concat (xss[i := ys])) \<union> X' = (f ` set (concat xss) \<union> X) - D"
    unfolding c using ys(1) by auto
  show "f ` set (xss ! j) \<inter> (f ` set (xss ! i) \<union> X) = {}" if "j < length xss" "j \<noteq> i"
    using nth_subset_others [OF i that] o unfolding as_def bs_def by blast
qed

end
