(* ===== verification/OstMem.thy ===== *)
theory OstMem
  imports OstPrelude
begin

text \<open>
  The data of the thread pool (\<open>include/os_transport_thread_pool.h\<close>,
  \<open>include/os_transport_thread_pool_internal.h\<close>, and the \<open>InternalTask\<close> of
  \<open>src/os_transport_thread_pool.c\<close>), and the heap its objects live in: one partial map per
  object type on top of the allocator.  The lemmas say what allocations, writes and frees do
  to the set of live objects (\<open>owns\<close>) and to the content of a queued cell.
\<close>

section \<open>Functions called through pointers\<close>

text \<open>
  The functions that ever stand behind a \<open>task_func\<close> pointer: the pool's own wrapper, the
  two worker functions of \<open>os_transport.c\<close>, and functions of the application, known by a
  number.  Completion callbacks are opaque pointers; NULL means none.
\<close>

datatype task_fn =
    internal_task_wrapper_fn
  | send_task_worker_func_fn
  | recv_task_worker_func_fn
  | user_fn nat

section \<open>Structures\<close>

record ThreadPoolTask =
  task_id :: u64
  request_id :: u32
  task_func :: task_fn
  task_arg :: ptr
  is_completed :: bool
  free_task_self :: bool

record InternalTask =
  it_user_func :: task_fn
  it_user_arg :: ptr
  it_complete_cb :: ptr
  it_user_data :: ptr
  it_task_id :: u64
  it_request_id :: u32
  it_success :: bool

record TaskNode =
  tn_task :: ptr
  tn_next :: ptr

datatype WorkerState =
    WORKER_STATE_INIT
  | WORKER_STATE_IDLE
  | WORKER_STATE_BUSY
  | WORKER_STATE_EXIT

text \<open>
  \<open>mutex\<close>, \<open>cond_task\<close> and the back pointer \<open>pool\<close> of the C structure are left out: the model
  runs each critical section as one step.
\<close>

record WorkerThread =
  tid :: u64
  state :: WorkerState
  worker_idx :: nat
  queue_head :: ptr
  queue_tail :: ptr
  queue_size :: u32
  pending_req :: u32

text \<open>
  \<open>pending_count\<close> is a C \<open>int\<close>; it is kept at its width as the 32-bit pattern, of which the
  code reads only whether it is 0.
\<close>

record RequestContext =
  rc_request_id :: u32
  rc_worker_idx :: nat
  rc_pending_count :: u32
  rc_batch_cb :: ptr
  rc_batch_user_data :: ptr
  rc_next :: ptr

record mem = allocator +
  nodes :: "ptr \<Rightarrow> TaskNode option"
  tasks :: "ptr \<Rightarrow> ThreadPoolTask option"
  itasks :: "ptr \<Rightarrow> InternalTask option"
  ctxs :: "ptr \<Rightarrow> RequestContext option"
  id_arrays :: "ptr \<Rightarrow> u64 list option"

section \<open>free\<close>

text \<open>\<open>free(NULL)\<close> does nothing; freeing an address that is not live is undefined.\<close>

definition free_node :: "ptr \<Rightarrow> mem \<Rightarrow> mem option" where
  "free_node p m =
     (if p = NULL then Some m
      else do { _ \<leftarrow> nodes m p; Some (m\<lparr>nodes := (nodes m)(p := None)\<rparr>) })"

definition free_task :: "ptr \<Rightarrow> mem \<Rightarrow> mem option" where
  "free_task p m =
     (if p = NULL then Some m
      else do { _ \<leftarrow> tasks m p; Some (m\<lparr>tasks := (tasks m)(p := None)\<rparr>) })"

definition free_itask :: "ptr \<Rightarrow> mem \<Rightarrow> mem option" where
  "free_itask p m =
     (if p = NULL then Some m
      else do { _ \<leftarrow> itasks m p; Some (m\<lparr>itasks := (itasks m)(p := None)\<rparr>) })"

definition free_ctx :: "ptr \<Rightarrow> mem \<Rightarrow> mem option" where
  "free_ctx p m =
     (if p = NULL then Some m
      else do { _ \<leftarrow> ctxs m p; Some (m\<lparr>ctxs := (ctxs m)(p := None)\<rparr>) })"

definition free_id_array :: "ptr \<Rightarrow> mem \<Rightarrow> mem option" where
  "free_id_array p m =
     (if p = NULL then Some m
      else do { _ \<leftarrow> id_arrays m p; Some (m\<lparr>id_arrays := (id_arrays m)(p := None)\<rparr>) })"

lemmas free_defs = free_node_def free_task_def free_itask_def free_ctx_def free_id_array_def

text \<open>Writing the link of a node that must be live.\<close>

definition set_tn_next :: "ptr \<Rightarrow> ptr \<Rightarrow> mem \<Rightarrow> mem option" where
  "set_tn_next p q m =
     do { nd \<leftarrow> nodes m p; Some (m\<lparr>nodes := (nodes m)(p \<mapsto> nd\<lparr>tn_next := q\<rparr>)\<rparr>) }"

section \<open>Views of the heap\<close>

definition tn_nxt :: "mem \<Rightarrow> ptr \<Rightarrow> ptr option" where
  "tn_nxt m p = map_option tn_next (nodes m p)"

lemma tn_nxt_Some: "nodes m p = Some nd \<Longrightarrow> tn_nxt m p = Some (tn_next nd)"
  by (simp add: tn_nxt_def)

definition rc_nxt :: "mem \<Rightarrow> ptr \<Rightarrow> ptr option" where
  "rc_nxt m p = map_option rc_next (ctxs m p)"

lemma rc_nxt_Some: "ctxs m p = Some cx \<Longrightarrow> rc_nxt m p = Some (rc_next cx)"
  by (simp add: rc_nxt_def)

text \<open>
  A queued cell: a node, the pool's task it points to, and the \<open>InternalTask\<close> that task owns.
  \<open>cell_ok\<close> says the three are live and linked, and agree on the task and request id.
\<close>

type_synonym cell = "ptr \<times> ptr \<times> ptr"

abbreviation cell_node :: "cell \<Rightarrow> ptr" where "cell_node \<equiv> fst"
abbreviation cell_task :: "cell \<Rightarrow> ptr" where "cell_task z \<equiv> fst (snd z)"
abbreviation cell_itask :: "cell \<Rightarrow> ptr" where "cell_itask z \<equiv> snd (snd z)"

definition task_ok :: "mem \<Rightarrow> ptr \<Rightarrow> ptr \<Rightarrow> bool" where
  "task_ok m t k \<longleftrightarrow>
     (case tasks m t of
        None \<Rightarrow> False
      | Some tk \<Rightarrow>
          (case itasks m k of
             None \<Rightarrow> False
           | Some it \<Rightarrow>
               task_func tk = internal_task_wrapper_fn \<and> task_arg tk = k \<and>
               it_task_id it = task_id tk \<and> it_request_id it = request_id tk \<and>
               it_success it))"

definition cell_ok :: "mem \<Rightarrow> cell \<Rightarrow> bool" where
  "cell_ok m z \<longleftrightarrow>
     (case nodes m (cell_node z) of
        None \<Rightarrow> False
      | Some nd \<Rightarrow> tn_task nd = cell_task z) \<and> task_ok m (cell_task z) (cell_itask z)"

text \<open>
  What a queued cell means to the client, whatever its addresses: the identity of the task
  and the function it will run.
\<close>

record atask =
  at_id :: u64
  at_req :: u32
  at_fn :: task_fn
  at_arg :: ptr
  at_cb :: ptr
  at_data :: ptr

definition atask_of :: "InternalTask \<Rightarrow> atask" where
  "atask_of it =
     \<lparr>at_id = it_task_id it, at_req = it_request_id it, at_fn = it_user_func it,
      at_arg = it_user_arg it, at_cb = it_complete_cb it, at_data = it_user_data it\<rparr>"

definition cell_atask :: "mem \<Rightarrow> cell \<Rightarrow> atask" where
  "cell_atask m z = atask_of (the (itasks m (cell_itask z)))"

text \<open>The live objects of a heap, exactly; all of them lie below the allocator's frontier.\<close>

definition owns :: "mem \<Rightarrow> ptr set \<Rightarrow> ptr set \<Rightarrow> ptr set \<Rightarrow> ptr set \<Rightarrow> ptr set \<Rightarrow> bool" where
  "owns m N T K C A \<longleftrightarrow>
     dom (nodes m) = N \<and> dom (tasks m) = T \<and> dom (itasks m) = K \<and> dom (ctxs m) = C \<and>
     dom (id_arrays m) = A \<and> 0 < brk m \<and>
     (\<forall>p \<in> N \<union> T \<union> K \<union> C \<union> A. 0 < p \<and> p < brk m)"

lemma ownsD:
  assumes "owns m N T K C A"
  shows "dom (nodes m) = N" "dom (tasks m) = T" "dom (itasks m) = K" "dom (ctxs m) = C"
    "dom (id_arrays m) = A" "0 < brk m"
    "p \<in> N \<union> T \<union> K \<union> C \<union> A \<Longrightarrow> p \<noteq> NULL" "p \<in> N \<union> T \<union> K \<union> C \<union> A \<Longrightarrow> p < brk m"
  using assms by (auto simp: owns_def)

lemma owns_fresh:
  assumes "owns m N T K C A"
  shows "brk m \<noteq> NULL" "brk m \<notin> N" "brk m \<notin> T" "brk m \<notin> K" "brk m \<notin> C" "brk m \<notin> A"
  using assms by (auto simp: owns_def)

lemma owns_brk_None:
  assumes "owns m N T K C A"
  shows "nodes m (brk m) = None" "tasks m (brk m) = None" "itasks m (brk m) = None"
    "ctxs m (brk m) = None" "id_arrays m (brk m) = None"
  using owns_fresh [OF assms] by (simp_all add: domIff flip: ownsD(1-5) [OF assms])

lemma owns_bump:
  "owns m N T K C A \<Longrightarrow> owns (m\<lparr>brk := brk m + n, calls := c\<rparr>) N T K C A"
  "owns m N T K C A \<Longrightarrow> owns (m\<lparr>calls := c\<rparr>) N T K C A"
  by (simp add: owns_def, meson trans_less_add1) (simp add: owns_def)

lemma owns_write:
  assumes "owns m N T K C A" "0 < p" "p < brk m"
  shows "owns (m\<lparr>nodes := (nodes m)(p \<mapsto> nd)\<rparr>) (insert p N) T K C A"
    and "owns (m\<lparr>tasks := (tasks m)(p \<mapsto> tk)\<rparr>) N (insert p T) K C A"
    and "owns (m\<lparr>itasks := (itasks m)(p \<mapsto> it)\<rparr>) N T (insert p K) C A"
    and "owns (m\<lparr>ctxs := (ctxs m)(p \<mapsto> cx)\<rparr>) N T K (insert p C) A"
    and "owns (m\<lparr>id_arrays := (id_arrays m)(p \<mapsto> ids)\<rparr>) N T K C (insert p A)"
  using assms by (auto simp: owns_def)

lemma owns_free:
  assumes "owns m N T K C A"
  shows "owns (m\<lparr>nodes := (nodes m)(p := None)\<rparr>) (N - {p}) T K C A"
    and "owns (m\<lparr>tasks := (tasks m)(p := None)\<rparr>) N (T - {p}) K C A"
    and "owns (m\<lparr>itasks := (itasks m)(p := None)\<rparr>) N T (K - {p}) C A"
    and "owns (m\<lparr>ctxs := (ctxs m)(p := None)\<rparr>) N T K (C - {p}) A"
    and "owns (m\<lparr>id_arrays := (id_arrays m)(p := None)\<rparr>) N T K C (A - {p})"
  using assms by (auto simp: owns_def)

lemma malloc_cases:
  obtains (fail) "malloc_n n m = (NULL, m\<lparr>calls := Suc (calls m)\<rparr>)" "\<not> malloc_ok m (calls m)"
  | (ok) "malloc_n n m = (brk m, m\<lparr>brk := brk m + max 1 n, calls := Suc (calls m)\<rparr>)"
      "malloc_ok m (calls m)"
  by (cases "malloc_ok m (calls m)") (auto simp: malloc_n_def)

text \<open>A task or a cell does not depend on objects outside it.\<close>

lemma task_ok_cong:
  "tasks m' t = tasks m t \<Longrightarrow> itasks m' k = itasks m k \<Longrightarrow> task_ok m' t k = task_ok m t k"
  by (auto simp: task_ok_def split: option.splits)

lemma cell_ok_cong:
  assumes "map_option tn_task (nodes m' (cell_node z)) = map_option tn_task (nodes m (cell_node z))"
    and "tasks m' (cell_task z) = tasks m (cell_task z)"
    and "itasks m' (cell_itask z) = itasks m (cell_itask z)"
  shows "cell_ok m' z = cell_ok m z"
  using assms by (auto simp: cell_ok_def task_ok_def split: option.splits)

lemma cell_okD:
  assumes "cell_ok m (n, t, k)"
  obtains nd tk it where "nodes m n = Some nd" "tn_task nd = t" "tasks m t = Some tk"
    "task_func tk = internal_task_wrapper_fn" "task_arg tk = k" "itasks m k = Some it"
    "it_task_id it = task_id tk" "it_request_id it = request_id tk" "it_success it"
  using assms by (auto simp: cell_ok_def task_ok_def split: option.splits)

lemma cell_atask_req:
  assumes "cell_ok m (n, t, k)" "tasks m t = Some tk"
  shows "at_req (cell_atask m (n, t, k)) = request_id tk"
    and "at_id (cell_atask m (n, t, k)) = task_id tk"
  using assms by (auto elim!: cell_okD simp: cell_atask_def atask_of_def)

end
