(* ===== verification/TaskQueue.thy ===== *)
theory TaskQueue
  imports OstMem
begin

text \<open>
  The task queue of one worker, a singly linked list of \<open>TaskNode\<close>s with head, tail and size
  (\<open>worker_queue_push\<close>, \<open>worker_queue_pop_by_req\<close>, \<open>attach_nodes_to_worker\<close>,
  \<open>cancel_in_worker_queue\<close> and \<open>destroy_worker\<close> of \<open>src/os_transport_thread_pool.c\<close>), at the level
  of pointers.  The refinement lemmas say that on a well-formed queue (\<open>wq\<close>) each operation
  returns, keeps the queue well formed, does on the list of queued tasks what the list
  operation does, and changes nothing else in the heap (\<open>qstep\<close>).
\<close>

section \<open>The operations\<close>

definition worker_queue_push ::
    "mem \<Rightarrow> WorkerThread \<Rightarrow> ptr \<Rightarrow> (bool \<times> mem \<times> WorkerThread) option" where
  "worker_queue_push m w task =
     (let (node, m1) = malloc1 m in
      if node = NULL then Some (False, m1, w)
      else do {
        let m2 = m1\<lparr>nodes := (nodes m1)(node \<mapsto> \<lparr>tn_task = task, tn_next = NULL\<rparr>)\<rparr>;
        (m3, w1) \<leftarrow>
          (if queue_tail w \<noteq> NULL
           then do { m' \<leftarrow> set_tn_next (queue_tail w) node m2; Some (m', w) }
           else Some (m2, w\<lparr>queue_head := node\<rparr>));
        Some (True, m3, w1\<lparr>queue_tail := node, queue_size := queue_size w1 + 1\<rparr>)
      })"

text \<open>
  Taking \<open>cur\<close> out of the chain after \<open>prev\<close>: the same statements in
  \<open>worker_queue_pop_by_req\<close> and in \<open>cancel_in_worker_queue\<close>.
\<close>

definition unlink_node ::
    "ptr \<Rightarrow> ptr \<Rightarrow> ptr \<Rightarrow> mem \<Rightarrow> WorkerThread \<Rightarrow> (mem \<times> WorkerThread) option" where
  "unlink_node prev cur nxt m w =
     do {
       (m1, w1) \<leftarrow>
         (if prev \<noteq> NULL
          then do { m' \<leftarrow> set_tn_next prev nxt m; Some (m', w) }
          else Some (m, w\<lparr>queue_head := nxt\<rparr>));
       Some (m1, if cur = queue_tail w1 then w1\<lparr>queue_tail := prev\<rparr> else w1)
     }"

partial_function (option) pop_by_req_loop ::
    "mem \<Rightarrow> WorkerThread \<Rightarrow> u32 \<Rightarrow> ptr \<Rightarrow> ptr \<Rightarrow> (ptr \<times> mem \<times> WorkerThread) option" where
  "pop_by_req_loop m w req_id prev cur =
     (if cur = NULL then Some (NULL, m, w)
      else do {
        nd \<leftarrow> nodes m cur;
        tk \<leftarrow> tasks m (tn_task nd);
        if request_id tk = req_id
        then do {
          (m1, w1) \<leftarrow> unlink_node prev cur (tn_next nd) m w;
          m2 \<leftarrow> free_node cur m1;
          Some (tn_task nd, m2, w1\<lparr>queue_size := queue_size w1 - 1\<rparr>)
        }
        else pop_by_req_loop m w req_id cur (tn_next nd)
      })"

definition worker_queue_pop_by_req ::
    "mem \<Rightarrow> WorkerThread \<Rightarrow> u32 \<Rightarrow> (ptr \<times> mem \<times> WorkerThread) option" where
  "worker_queue_pop_by_req m w req_id = pop_by_req_loop m w req_id NULL (queue_head w)"

definition attach_nodes_to_worker ::
    "mem \<Rightarrow> WorkerThread \<Rightarrow> ptr \<Rightarrow> ptr \<Rightarrow> u32 \<Rightarrow> (mem \<times> WorkerThread) option" where
  "attach_nodes_to_worker m w head tail created =
     do {
       (m1, w1) \<leftarrow>
         (if queue_tail w \<noteq> NULL
          then do { m' \<leftarrow> set_tn_next (queue_tail w) head m; Some (m', w) }
          else Some (m, w\<lparr>queue_head := head\<rparr>));
       Some (m1, w1\<lparr>queue_tail := tail, queue_size := queue_size w1 + created\<rparr>)
     }"

partial_function (option) cancel_loop ::
    "mem \<Rightarrow> WorkerThread \<Rightarrow> u32 \<Rightarrow> ptr \<Rightarrow> ptr \<Rightarrow> u32 \<Rightarrow> (mem \<times> WorkerThread \<times> u32) option" where
  "cancel_loop m w req_id prev cur removed =
     (if cur = NULL then Some (m, w, removed)
      else do {
        nd \<leftarrow> nodes m cur;
        tk \<leftarrow> tasks m (tn_task nd);
        if request_id tk = req_id
        then do {
          (m1, w1) \<leftarrow> unlink_node prev cur (tn_next nd) m w;
          m2 \<leftarrow> free_itask (task_arg tk) m1;
          m3 \<leftarrow> free_task (tn_task nd) m2;
          m4 \<leftarrow> free_node cur m3;
          cancel_loop m4 w1 req_id prev (tn_next nd) (removed + 1)
        }
        else cancel_loop m w req_id cur (tn_next nd) removed
      })"

definition cancel_in_worker_queue ::
    "mem \<Rightarrow> WorkerThread \<Rightarrow> u32 \<Rightarrow> (u32 \<times> mem \<times> WorkerThread) option" where
  "cancel_in_worker_queue m w req_id =
     do {
       (m1, w1, removed) \<leftarrow> cancel_loop m w req_id NULL (queue_head w) 0;
       Some (removed, m1, w1\<lparr>queue_size := queue_size w1 - removed\<rparr>)
     }"

partial_function (option) destroy_worker_loop :: "mem \<Rightarrow> ptr \<Rightarrow> mem option" where
  "destroy_worker_loop m cur =
     (if cur = NULL then Some m
      else do {
        nd \<leftarrow> nodes m cur;
        tk \<leftarrow> tasks m (tn_task nd);
        m1 \<leftarrow> free_itask (task_arg tk) m;
        m2 \<leftarrow> free_task (tn_task nd) m1;
        m3 \<leftarrow> free_node cur m2;
        destroy_worker_loop m3 (tn_next nd)
      })"

definition destroy_worker :: "mem \<Rightarrow> WorkerThread \<Rightarrow> mem option" where
  "destroy_worker m w = destroy_worker_loop m (queue_head w)"

section \<open>Well-formed queues\<close>

definition wq_shape :: "mem \<Rightarrow> WorkerThread \<Rightarrow> ptr list \<Rightarrow> bool" where
  "wq_shape m w ns \<longleftrightarrow>
     lseg (tn_nxt m) (queue_head w) ns NULL \<and>
     queue_tail w = (if ns = [] then NULL else last ns)"

definition wq :: "mem \<Rightarrow> WorkerThread \<Rightarrow> cell list \<Rightarrow> bool" where
  "wq m w zs \<longleftrightarrow>
     wq_shape m w (map cell_node zs) \<and> queue_size w = of_nat (length zs) \<and>
     (\<forall>z \<in> set zs. cell_ok m z) \<and>
     distinct (map cell_task zs) \<and> distinct (map cell_itask zs)"

lemma wq_distinct_nodes: "wq m w zs \<Longrightarrow> distinct (map cell_node zs)"
  by (auto simp: wq_def wq_shape_def dest: lseg_distinct)

lemma wq_non_null: "wq m w zs \<Longrightarrow> z \<in> set zs \<Longrightarrow> cell_node z \<noteq> NULL"
  by (auto simp: wq_def wq_shape_def dest!: lseg_dom)

section \<open>What a queue operation may change\<close>

text \<open>
  \<open>qstep m m' N T K S\<close>: from m to m' the nodes N, the tasks T and the internal tasks K were
  freed, the links of nodes in S may have been redirected, and nothing else changed.
\<close>

definition qstep :: "mem \<Rightarrow> mem \<Rightarrow> ptr set \<Rightarrow> ptr set \<Rightarrow> ptr set \<Rightarrow> ptr set \<Rightarrow> bool" where
  "qstep m m' N T K S \<longleftrightarrow>
     m' = m\<lparr>nodes := nodes m', tasks := tasks m |` (- T), itasks := itasks m |` (- K)\<rparr> \<and>
     (\<forall>p \<in> N. nodes m' p = None) \<and>
     (\<forall>p. p \<notin> N \<longrightarrow> map_option tn_task (nodes m' p) = map_option tn_task (nodes m p)) \<and>
     (\<forall>p. p \<notin> S \<union> N \<longrightarrow> nodes m' p = nodes m p)"

lemma qstep_fields:
  assumes "qstep m m' N T K S"
  shows "tasks m' = tasks m |` (- T)" "itasks m' = itasks m |` (- K)" "ctxs m' = ctxs m"
    "id_arrays m' = id_arrays m" "brk m' = brk m" "calls m' = calls m" "malloc_ok m' = malloc_ok m"
proof -
  from assms have eq: "m' = m\<lparr>nodes := nodes m', tasks := tasks m |` (- T), itasks := itasks m |` (- K)\<rparr>"
    by (simp add: qstep_def)
  show "tasks m' = tasks m |` (- T)" "itasks m' = itasks m |` (- K)" "ctxs m' = ctxs m"
    "id_arrays m' = id_arrays m" "brk m' = brk m" "calls m' = calls m" "malloc_ok m' = malloc_ok m"
    by (subst eq, simp)+
qed

lemma qstep_refl: "qstep m m {} {} {} S"
  by (simp add: qstep_def)

lemma qstep_trans:
  assumes 1: "qstep m m1 N T K S" and 2: "qstep m1 m2 N' T' K' S'"
  shows "qstep m m2 (N \<union> N') (T \<union> T') (K \<union> K') (S \<union> S')"
proof -
  have r: "f |` (- A) |` (- B) = f |` (- (A \<union> B))" for f :: "ptr \<Rightarrow> 'b option" and A B
    by (auto simp: restrict_map_def fun_eq_iff)
  have eq1: "m1 = m\<lparr>nodes := nodes m1, tasks := tasks m |` (- T), itasks := itasks m |` (- K)\<rparr>"
    using 1 by (simp add: qstep_def)
  have "m2 = m1\<lparr>nodes := nodes m2, tasks := tasks m1 |` (- T'), itasks := itasks m1 |` (- K')\<rparr>"
    using 2 by (simp add: qstep_def)
  also have "\<dots> = m\<lparr>nodes := nodes m2, tasks := tasks m |` (- (T \<union> T')),
      itasks := itasks m |` (- (K \<union> K'))\<rparr>"
    by (subst eq1) (simp add: qstep_fields [OF 1] r)
  finally have eq: "m2 = m\<lparr>nodes := nodes m2, tasks := tasks m |` (- (T \<union> T')),
      itasks := itasks m |` (- (K \<union> K'))\<rparr>" .
  have n: "nodes m2 p = None" if "p \<in> N \<union> N'" for p
  proof (cases "p \<in> N'")
    case True
    with 2 show ?thesis by (simp add: qstep_def)
  next
    case False
    with that have "nodes m1 p = None" using 1 by (simp add: qstep_def)
    moreover from False have "map_option tn_task (nodes m2 p) = map_option tn_task (nodes m1 p)"
      using 2 by (simp add: qstep_def)
    ultimately show ?thesis by simp
  qed
  show ?thesis
    unfolding qstep_def
  proof (intro conjI allI ballI impI)
    show "m2 = m\<lparr>nodes := nodes m2, tasks := tasks m |` (- (T \<union> T')),
        itasks := itasks m |` (- (K \<union> K'))\<rparr>" by (rule eq)
    show "nodes m2 p = None" if "p \<in> N \<union> N'" for p using that by (rule n)
    show "map_option tn_task (nodes m2 p) = map_option tn_task (nodes m p)"
      if "p \<notin> N \<union> N'" for p
      using 1 2 that by (simp add: qstep_def)
    show "nodes m2 p = nodes m p" if "p \<notin> S \<union> S' \<union> (N \<union> N')" for p
      using 1 2 that by (simp add: qstep_def)
  qed
qed

lemma qstep_mono: "qstep m m' N T K S \<Longrightarrow> S \<subseteq> S' \<Longrightarrow> qstep m m' N T K S'"
  by (auto simp: qstep_def)

lemma qstep_cell_ok:
  assumes "qstep m m' N T K S"
    and "cell_node z \<notin> N" "cell_task z \<notin> T" "cell_itask z \<notin> K"
  shows "cell_ok m' z = cell_ok m z" and "cell_atask m' z = cell_atask m z"
proof -
  have "map_option tn_task (nodes m' (cell_node z)) = map_option tn_task (nodes m (cell_node z))"
    using assms(1,2) by (simp add: qstep_def)
  moreover have "tasks m' (cell_task z) = tasks m (cell_task z)"
    "itasks m' (cell_itask z) = itasks m (cell_itask z)"
    using assms(3,4) by (simp_all add: qstep_fields [OF assms(1)])
  ultimately show "cell_ok m' z = cell_ok m z" and "cell_atask m' z = cell_atask m z"
    by (rule cell_ok_cong, simp add: cell_atask_def)
qed

lemma qstep_lseg:
  assumes "qstep m m' N T K S" and "set ns \<inter> (S \<union> N) = {}"
  shows "lseg (tn_nxt m') p ns q = lseg (tn_nxt m) p ns q"
proof (rule lseg_cong)
  fix a assume "a \<in> set ns"
  with assms have "nodes m' a = nodes m a" unfolding qstep_def by blast
  then show "tn_nxt m' a = tn_nxt m a" by (simp add: tn_nxt_def)
qed

text \<open>A queue that shares no cell with the one that changed is left alone.\<close>

lemma qstep_wq_frame:
  assumes q: "qstep m m' N T K S"
    and "cell_node ` set zs \<inter> (S \<union> N) = {}" "cell_task ` set zs \<inter> T = {}"
      "cell_itask ` set zs \<inter> K = {}"
  shows "wq m' w zs = wq m w zs" and "map (cell_atask m') zs = map (cell_atask m) zs"
proof -
  have "cell_ok m' z = cell_ok m z \<and> cell_atask m' z = cell_atask m z" if "z \<in> set zs" for z
    using qstep_cell_ok [OF q, of z] that assms(2-4) by blast
  moreover have "set (map cell_node zs) \<inter> (S \<union> N) = {}" using assms(2) by simp
  ultimately show "wq m' w zs = wq m w zs" and "map (cell_atask m') zs = map (cell_atask m) zs"
    by (auto simp: wq_def wq_shape_def qstep_lseg [OF q])
qed

lemma qstep_owns:
  assumes q: "qstep m m' N T K S" and o: "owns m N0 T0 K0 C A"
  shows "owns m' (N0 - N) (T0 - T) (K0 - K) C A"
proof -
  have "dom (nodes m') = N0 - N"
  proof (rule set_eqI)
    fix p
    have "map_option tn_task (nodes m' p) = map_option tn_task (nodes m p)" if "p \<notin> N"
      using q that by (simp add: qstep_def)
    then have "p \<notin> N \<Longrightarrow> (nodes m' p = None) = (nodes m p = None)"
      by (metis option.map_disc_iff)
    then show "p \<in> dom (nodes m') \<longleftrightarrow> p \<in> N0 - N"
      using q ownsD(1) [OF o] by (cases "p \<in> N") (auto simp: qstep_def)
  qed
  moreover have "dom (tasks m') = T0 - T" "dom (itasks m') = K0 - K"
    using ownsD(2,3) [OF o] by (auto simp: qstep_fields [OF q] restrict_map_def split: if_splits)
  ultimately show ?thesis
    using o by (auto simp: owns_def qstep_fields [OF q])
qed

lemma qstep_free:
  shows "nodes m p = Some nd \<Longrightarrow> p \<noteq> NULL \<Longrightarrow>
      \<exists>m'. free_node p m = Some m' \<and> qstep m m' {p} {} {} S"
    and "tasks m p = Some tk \<Longrightarrow> p \<noteq> NULL \<Longrightarrow>
      \<exists>m'. free_task p m = Some m' \<and> qstep m m' {} {p} {} S"
    and "itasks m p = Some it \<Longrightarrow> p \<noteq> NULL \<Longrightarrow>
      \<exists>m'. free_itask p m = Some m' \<and> qstep m m' {} {} {p} S"
  by (auto simp: free_defs qstep_def restrict_map_def fun_eq_iff)

section \<open>Refinement\<close>

subsection \<open>Unlinking a node\<close>

lemma wq_shape_distinct: "wq_shape m w ns \<Longrightarrow> distinct ns"
  by (auto simp: wq_shape_def dest: lseg_distinct)

lemma wq_shape_node:
  "wq_shape m w ns \<Longrightarrow> n \<in> set ns \<Longrightarrow> n \<noteq> NULL \<and> (\<exists>nd. nodes m n = Some nd)"
  by (auto simp: wq_shape_def tn_nxt_def dest!: lseg_dom)

lemma wq_shape_next:
  assumes "wq_shape m w (ks @ n # us)" "nodes m n = Some nd"
  shows "lseg (tn_nxt m) (queue_head w) ks n" "lseg (tn_nxt m) (tn_next nd) us NULL"
    "tn_next nd = (if us = [] then NULL else hd us)"
proof -
  from assms show "lseg (tn_nxt m) (queue_head w) ks n" and 2: "lseg (tn_nxt m) (tn_next nd) us NULL"
    by (auto simp: wq_shape_def lseg_append tn_nxt_def split: option.splits)
  from lseg_head [OF 2] show "tn_next nd = (if us = [] then NULL else hd us)"
    by (cases us) auto
qed

definition last_or_null :: "ptr list \<Rightarrow> ptr" where
  "last_or_null ns = (if ns = [] then NULL else last ns)"

definition hd_or_null :: "ptr list \<Rightarrow> ptr" where
  "hd_or_null ns = (if ns = [] then NULL else hd ns)"

lemma or_null_simps [simp]:
  "last_or_null [] = NULL" "last_or_null (ns @ [n]) = n"
  "hd_or_null [] = NULL" "hd_or_null (n # ns) = n"
  by (simp_all add: last_or_null_def hd_or_null_def)

lemma unlink_node_spec:
  assumes shape: "wq_shape m w (ks @ n # us)" and nd: "nodes m n = Some nd"
  obtains m1 w1 where "unlink_node (last_or_null ks) n (tn_next nd) m w = Some (m1, w1)"
    "wq_shape m1 w1 (ks @ us)" "qstep m m1 {} {} {} (set ks)" "nodes m1 n = Some nd"
    "w1 = w\<lparr>queue_head := queue_head w1, queue_tail := queue_tail w1\<rparr>"
proof (cases ks rule: rev_cases)
  case Nil
  have d: "n \<notin> set us" using wq_shape_distinct [OF shape] Nil by simp
  define w1 where "w1 = (if n = queue_tail w then w\<lparr>queue_head := tn_next nd, queue_tail := NULL\<rparr>
    else w\<lparr>queue_head := tn_next nd\<rparr>)"
  have "wq_shape m w1 us"
    using shape d wq_shape_next(2) [OF shape nd] last_in_set [of us]
    by (cases "us = []") (auto simp: w1_def wq_shape_def Nil)
  then show thesis
    by (intro that [of m w1])
      (use nd qstep_refl in \<open>auto simp: unlink_node_def w1_def Nil\<close>)
next
  case (snoc ls l)
  have d: "distinct (ls @ l # n # us)" using wq_shape_distinct [OF shape] snoc by simp
  obtain lnd where l: "l \<noteq> NULL" "nodes m l = Some lnd"
    using wq_shape_node [OF shape, of l] snoc by auto
  define m1 where "m1 = m\<lparr>nodes := (nodes m)(l \<mapsto> lnd\<lparr>tn_next := tn_next nd\<rparr>)\<rparr>"
  define w1 where "w1 = (if n = queue_tail w then w\<lparr>queue_tail := l\<rparr> else w)"
  have q: "qstep m m1 {} {} {} (set ks)"
    using l snoc by (auto simp: qstep_def m1_def)
  have "lseg (tn_nxt m1) (queue_head w) (ls @ [l]) (tn_next nd)"
    by (rule lseg_relink_last [OF wq_shape_next(1) [OF shape nd, unfolded snoc]])
      (use d in \<open>auto simp: m1_def tn_nxt_def\<close>)
  moreover have "lseg (tn_nxt m1) (tn_next nd) us NULL"
    using qstep_lseg [OF q, of us "tn_next nd" NULL] wq_shape_next(2) [OF shape nd] d snoc by auto
  moreover have "queue_tail w1 = (if us = [] then l else last us)"
    using shape d last_in_set [of us]
    by (cases "us = []") (auto simp: w1_def wq_shape_def snoc)
  moreover have "queue_head w1 = queue_head w" by (simp add: w1_def)
  ultimately have "wq_shape m1 w1 (ks @ us)"
    unfolding wq_shape_def snoc by (metis append_is_Nil_conv last_append last_snoc list.distinct(1)
        lseg_append)
  then show thesis
    by (intro that [of m1 w1])
      (use l nd q d in \<open>auto simp: unlink_node_def w1_def m1_def snoc set_tn_next_def\<close>)
qed

text \<open>The unlinked node can then be freed without hurting the chain.\<close>

lemma wq_shape_free:
  assumes "wq_shape m w ns" "qstep m m' N T K S" "set ns \<inter> (S \<union> N) = {}"
  shows "wq_shape m' w ns"
  using assms by (simp add: wq_shape_def qstep_lseg [OF assms(2)])

subsection \<open>worker_queue_pop_by_req\<close>

abbreviation cell_req :: "mem \<Rightarrow> cell \<Rightarrow> u32" where
  "cell_req m z \<equiv> at_req (cell_atask m z)"

lemma pop_by_req_loop_spec:
  assumes "wq_shape m w (map cell_node (ks @ us))" and "\<forall>z \<in> set us. cell_ok m z"
  shows "case List.extract (\<lambda>z. cell_req m z = r) us of
      None \<Rightarrow> pop_by_req_loop m w r (last_or_null (map cell_node ks))
                (hd_or_null (map cell_node us)) = Some (NULL, m, w)
    | Some (ys, z, vs) \<Rightarrow>
        (\<exists>m1 w1. pop_by_req_loop m w r (last_or_null (map cell_node ks))
            (hd_or_null (map cell_node us))
            = Some (cell_task z, m1, w1\<lparr>queue_size := queue_size w1 - 1\<rparr>) \<and>
          wq_shape m1 w1 (map cell_node (ks @ ys @ vs)) \<and>
          qstep m m1 {cell_node z} {} {} (cell_node ` set (ks @ ys)) \<and>
          w1 = w\<lparr>queue_head := queue_head w1, queue_tail := queue_tail w1\<rparr>)"
  using assms
proof (induction us arbitrary: ks)
  case Nil
  show ?case by (simp add: List.extract_def pop_by_req_loop.simps)
next
  case (Cons z us)
  obtain n t k where z: "z = (n, t, k)" by (cases z)
  from Cons.prems(2) have "cell_ok m (n, t, k)" by (simp add: z)
  then obtain nd tk where nd: "nodes m n = Some nd" "tn_task nd = t" "tasks m t = Some tk"
    and req: "cell_req m z = request_id tk"
    by (metis cell_okD cell_atask_req(1) z)
  have shape: "wq_shape m w (map cell_node ks @ n # map cell_node us)"
    using Cons.prems(1) by (simp add: z)
  from wq_shape_node [OF shape, of n] have n0: "n \<noteq> NULL" by simp
  have next_us: "tn_next nd = hd_or_null (map cell_node us)"
    using wq_shape_next(3) [OF shape nd(1)] by (simp add: hd_or_null_def)
  show ?case
  proof (cases "cell_req m z = r")
    case True
    obtain m1 w1 where un: "unlink_node (last_or_null (map cell_node ks)) n (tn_next nd) m w
          = Some (m1, w1)" "wq_shape m1 w1 (map cell_node ks @ map cell_node us)"
        "qstep m m1 {} {} {} (set (map cell_node ks))" "nodes m1 n = Some nd"
        "w1 = w\<lparr>queue_head := queue_head w1, queue_tail := queue_tail w1\<rparr>"
      by (rule unlink_node_spec [OF shape nd(1)])
    obtain m2 where fr: "free_node n m1 = Some m2" "qstep m1 m2 {n} {} {} {}"
      using qstep_free(1) [OF un(4) n0] by blast
    have n: "n \<notin> set (map cell_node ks @ map cell_node us)"
      using wq_shape_distinct [OF shape] by simp
    have "wq_shape m2 w1 (map cell_node (ks @ us))"
      using wq_shape_free [OF un(2) fr(2)] n by simp
    moreover have "qstep m m2 {n} {} {} (cell_node ` set ks)"
      using qstep_trans [OF un(3) fr(2)] by simp
    moreover have "pop_by_req_loop m w r (last_or_null (map cell_node ks)) n
        = Some (t, m2, w1\<lparr>queue_size := queue_size w1 - 1\<rparr>)"
      using True un(1) fr(1) nd n0 req by (simp add: pop_by_req_loop.simps [of m w r _ n])
    moreover have "List.extract (\<lambda>z. cell_req m z = r) (z # us) = Some ([], z, us)"
      using True by (simp add: extract_Cons_code)
    ultimately show ?thesis using un(5) by (auto simp: z)
  next
    case False
    have step: "pop_by_req_loop m w r (last_or_null (map cell_node ks))
          (hd_or_null (map cell_node (z # us)))
        = pop_by_req_loop m w r (last_or_null (map cell_node (ks @ [z])))
            (hd_or_null (map cell_node us))"
      using False nd n0 req
      by (simp add: pop_by_req_loop.simps [of m w r _ n] z next_us)
    have "wq_shape m w (map cell_node ((ks @ [z]) @ us))" using Cons.prems(1) by simp
    moreover have "\<forall>y \<in> set us. cell_ok m y" using Cons.prems(2) by simp
    ultimately have IH: "?thesis"
      if "case List.extract (\<lambda>z. cell_req m z = r) us of None \<Rightarrow> True | Some _ \<Rightarrow> True"
      using Cons.IH [of "ks @ [z]"] False unfolding step
      by (auto simp: extract_Cons_code split: option.splits)
    show ?thesis by (rule IH) (simp split: option.split)
  qed
qed

text \<open>
  Pop on a well-formed queue: it finds the first task of the request, takes it out, and keeps
  the other tasks in their order; when there is none it changes nothing.
\<close>

lemma worker_queue_pop_by_req_none:
  assumes "wq m w zs" "List.extract (\<lambda>z. cell_req m z = r) zs = None"
  shows "worker_queue_pop_by_req m w r = Some (NULL, m, w)"
  using pop_by_req_loop_spec [of m w "[]" zs r] assms
  by (auto simp: worker_queue_pop_by_req_def wq_def wq_shape_def hd_or_null_def
      dest!: lseg_head split: list.splits)

text \<open>Only the three queue fields of the worker change.\<close>

definition same_worker :: "WorkerThread \<Rightarrow> WorkerThread \<Rightarrow> bool" where
  "same_worker w w1 \<longleftrightarrow>
     w1 = w\<lparr>queue_head := queue_head w1, queue_tail := queue_tail w1, queue_size := queue_size w1\<rparr>"

lemma same_workerD:
  assumes "same_worker w w1"
  shows "tid w1 = tid w" "state w1 = state w" "worker_idx w1 = worker_idx w"
    "pending_req w1 = pending_req w"
proof -
  from assms have eq: "w1 = w\<lparr>queue_head := queue_head w1, queue_tail := queue_tail w1,
      queue_size := queue_size w1\<rparr>" by (simp add: same_worker_def)
  show "tid w1 = tid w" "state w1 = state w" "worker_idx w1 = worker_idx w"
    "pending_req w1 = pending_req w" by (subst eq, simp)+
qed

lemma wq_head: "wq m w zs \<Longrightarrow> queue_head w = hd_or_null (map cell_node zs)"
  by (cases zs) (auto simp: wq_def wq_shape_def dest: lseg_head)

lemma wq_sub:
  assumes "wq m w zs" "set ys \<subseteq> set zs" "distinct (map cell_node ys)"
  shows "\<forall>z \<in> set ys. cell_ok m z" "distinct (map cell_task ys)" "distinct (map cell_itask ys)"
proof -
  show "\<forall>z \<in> set ys. cell_ok m z" using assms(1,2) by (auto simp: wq_def)
  have inj: "inj_on cell_task (set zs)" "inj_on cell_itask (set zs)"
    using assms(1) by (auto simp: wq_def distinct_map)
  have "distinct ys" using assms(3) by (simp add: distinct_map)
  then show "distinct (map cell_task ys)" "distinct (map cell_itask ys)"
    using inj inj_on_subset [OF _ assms(2)] by (auto simp: distinct_map)
qed

text \<open>
  What remains of a queue after some of its cells were unlinked and freed: the chain as
  given, the cells as they were.
\<close>

lemma wq_after_removal:
  assumes q: "wq m w zs" and st: "qstep m m1 (cell_node ` D) T K S"
    and shape: "wq_shape m1 w1 (map cell_node ys)" and sub: "set ys \<subseteq> set zs"
    and disj: "cell_node ` set ys \<inter> cell_node ` D = {}" "cell_task ` set ys \<inter> T = {}"
      "cell_itask ` set ys \<inter> K = {}"
    and size: "queue_size w1 = of_nat (length ys)"
  shows "wq m1 w1 ys" and "map (cell_atask m1) ys = map (cell_atask m) ys"
proof -
  have d: "distinct (map cell_node ys)" using wq_shape_distinct [OF shape] .
  have cell: "cell_ok m1 z \<and> cell_atask m1 z = cell_atask m z" if "z \<in> set ys" for z
  proof -
    have "cell_node z \<notin> cell_node ` D" "cell_task z \<notin> T" "cell_itask z \<notin> K"
      using disj that by blast+
    with qstep_cell_ok [OF st this] wq_sub(1) [OF q sub d] that show ?thesis by simp
  qed
  then show "map (cell_atask m1) ys = map (cell_atask m) ys" by simp
  from cell show "wq m1 w1 ys"
    using shape size wq_sub(2,3) [OF q sub d] by (simp add: wq_def)
qed

lemma worker_queue_pop_by_req_some:
  assumes q: "wq m w zs" and ex: "List.extract (\<lambda>z. cell_req m z = r) zs = Some (ys, z, vs)"
  obtains m1 w1 where "worker_queue_pop_by_req m w r = Some (cell_task z, m1, w1)"
    "wq m1 w1 (ys @ vs)" "map (cell_atask m1) (ys @ vs) = map (cell_atask m) (ys @ vs)"
    "qstep m m1 {cell_node z} {} {} (cell_node ` set zs)" "same_worker w w1"
proof -
  have zs: "zs = ys @ z # vs" using ex by (auto dest: extract_SomeD)
  obtain m1 w1 where pop: "worker_queue_pop_by_req m w r
        = Some (cell_task z, m1, w1\<lparr>queue_size := queue_size w1 - 1\<rparr>)"
      "wq_shape m1 w1 (map cell_node (ys @ vs))"
      "qstep m m1 {cell_node z} {} {} (cell_node ` set ys)"
      "w1 = w\<lparr>queue_head := queue_head w1, queue_tail := queue_tail w1\<rparr>"
    using pop_by_req_loop_spec [of m w "[]" zs r] q ex
    by (auto simp: worker_queue_pop_by_req_def wq_head [OF q] wq_def)
  define w2 where "w2 = w1\<lparr>queue_size := queue_size w1 - 1\<rparr>"
  have sw: "same_worker w w2"
    by (simp add: same_worker_def w2_def) (subst pop(4), simp)
  have "queue_size w1 = of_nat (length zs)"
    by (subst pop(4)) (use q in \<open>simp add: wq_def\<close>)
  then have size: "queue_size w2 = of_nat (length (ys @ vs))" by (simp add: w2_def zs)
  have shape: "wq_shape m1 w2 (map cell_node (ys @ vs))"
    using pop(2) by (simp add: wq_shape_def w2_def)
  have st: "qstep m m1 (cell_node ` {z}) {} {} (cell_node ` set zs)"
    using qstep_mono [OF pop(3), of "cell_node ` set zs"] zs by auto
  have d: "cell_node ` set (ys @ vs) \<inter> cell_node ` {z} = {}"
    using wq_distinct_nodes [OF q] zs by auto
  have sub: "set (ys @ vs) \<subseteq> set zs" using zs by auto
  note after = wq_after_removal [OF q st shape sub d _ _ size]
  show thesis
    by (rule that [of m1 w2]) (use pop(1) after st sw in \<open>auto simp: w2_def\<close>)
qed

subsection \<open>attach_nodes_to_worker and worker_queue_push\<close>

lemma wq_cong:
  assumes "\<And>z. z \<in> set zs \<Longrightarrow> nodes m' (cell_node z) = nodes m (cell_node z)"
    and "\<And>z. z \<in> set zs \<Longrightarrow> tasks m' (cell_task z) = tasks m (cell_task z)"
    and "\<And>z. z \<in> set zs \<Longrightarrow> itasks m' (cell_itask z) = itasks m (cell_itask z)"
  shows "wq m' w zs = wq m w zs" and "map (cell_atask m') zs = map (cell_atask m) zs"
proof -
  have "lseg (tn_nxt m') p (map cell_node zs) q = lseg (tn_nxt m) p (map cell_node zs) q" for p q
    by (rule lseg_cong) (use assms(1) in \<open>auto simp: tn_nxt_def\<close>)
  moreover have "cell_ok m' z = cell_ok m z" if "z \<in> set zs" for z
    using assms that by (intro cell_ok_cong) simp_all
  ultimately show "wq m' w zs = wq m w zs" by (auto simp: wq_def wq_shape_def)
  show "map (cell_atask m') zs = map (cell_atask m) zs"
    using assms(3) by (simp add: cell_atask_def)
qed

lemma attach_nodes_to_worker_spec:
  assumes q: "wq m w zs" and chain: "lseg (tn_nxt m) hd_ys (map cell_node ys) NULL" "ys \<noteq> []"
    and ok: "\<forall>z \<in> set ys. cell_ok m z"
    and d: "distinct (map cell_node (zs @ ys))" "distinct (map cell_task (zs @ ys))"
      "distinct (map cell_itask (zs @ ys))"
  obtains m1 w1 where
    "attach_nodes_to_worker m w hd_ys (cell_node (last ys)) (of_nat (length ys)) = Some (m1, w1)"
    "wq m1 w1 (zs @ ys)" "map (cell_atask m1) (zs @ ys) = map (cell_atask m) (zs @ ys)"
    "qstep m m1 {} {} {} (cell_node ` set zs)" "same_worker w w1"
proof -
  define w0 where "w0 = (if zs = [] then w\<lparr>queue_head := hd_ys\<rparr> else w)"
  define w1 where "w1 = w0\<lparr>queue_tail := cell_node (last ys),
    queue_size := queue_size w + of_nat (length ys)\<rparr>"
  have sw: "same_worker w w1" by (simp add: same_worker_def w1_def w0_def)
  obtain m1 where att: "attach_nodes_to_worker m w hd_ys (cell_node (last ys))
        (of_nat (length ys)) = Some (m1, w1)"
      and st: "qstep m m1 {} {} {} (cell_node ` set zs)"
      and seg: "lseg (tn_nxt m1) (queue_head w1) (map cell_node zs) hd_ys"
  proof (cases zs rule: rev_cases)
    case Nil
    with q have "queue_tail w = NULL" by (simp add: wq_def wq_shape_def)
    then show ?thesis
      by (intro that [of m]) (auto simp: attach_nodes_to_worker_def w1_def w0_def Nil qstep_refl)
  next
    case (snoc us u)
    define l where "l = cell_node u"
    have tail: "queue_tail w = l" using q snoc by (simp add: wq_def wq_shape_def l_def last_map)
    have seg0: "lseg (tn_nxt m) (queue_head w) (map cell_node us @ [l]) NULL"
      using q snoc by (simp add: wq_def wq_shape_def l_def)
    obtain lnd where l: "l \<noteq> NULL" "nodes m l = Some lnd"
      using lseg_dom [OF seg0, of l] by (auto simp: tn_nxt_def)
    define m1 where "m1 = m\<lparr>nodes := (nodes m)(l \<mapsto> lnd\<lparr>tn_next := hd_ys\<rparr>)\<rparr>"
    have "l \<notin> set (map cell_node us)" using d(1) snoc by (auto simp: l_def)
    then have "lseg (tn_nxt m1) (queue_head w) (map cell_node us @ [l]) hd_ys"
      by (intro lseg_relink_last [OF seg0]) (auto simp: m1_def tn_nxt_def)
    moreover have "qstep m m1 {} {} {} (cell_node ` set zs)"
      using l snoc by (auto simp: qstep_def m1_def l_def)
    ultimately show ?thesis
      using l tail
      by (intro that [of m1])
        (auto simp: attach_nodes_to_worker_def w1_def w0_def snoc m1_def set_tn_next_def l_def)
  qed
  have "cell_node ` set ys \<inter> cell_node ` set zs = {}" using d(1) by auto
  then have ys_seg: "lseg (tn_nxt m1) hd_ys (map cell_node ys) NULL"
    using qstep_lseg [OF st, of "map cell_node ys"] chain(1) by auto
  have cell: "cell_ok m1 z \<and> cell_atask m1 z = cell_atask m z" if "z \<in> set (zs @ ys)" for z
    using qstep_cell_ok [OF st, of z] that ok q by (auto simp: wq_def)
  have "wq_shape m1 w1 (map cell_node (zs @ ys))"
    using seg ys_seg chain(2)
    by (auto simp: wq_shape_def lseg_append w1_def last_map)
  then have "wq m1 w1 (zs @ ys)"
    using d cell q by (simp add: wq_def w1_def)
  with att cell st sw show thesis by (intro that [of m1 w1]) auto
qed

text \<open>\<open>push\<close> is an allocation followed by attaching a chain of one node.\<close>

lemma worker_queue_push_fail:
  "\<not> malloc_ok m (calls m) \<Longrightarrow>
     worker_queue_push m w t = Some (False, m\<lparr>calls := Suc (calls m)\<rparr>, w)"
  by (simp add: worker_queue_push_def malloc_n_def)

definition with_node :: "mem \<Rightarrow> ptr \<Rightarrow> mem" where
  "with_node m t = m\<lparr>brk := brk m + 1, calls := Suc (calls m),
     nodes := (nodes m)(brk m \<mapsto> \<lparr>tn_task = t, tn_next = NULL\<rparr>)\<rparr>"

lemma worker_queue_push_attach:
  assumes "malloc_ok m (calls m)" "0 < brk m"
  shows "worker_queue_push m w t =
    map_option (\<lambda>(m1, w1). (True, m1, w1)) (attach_nodes_to_worker (with_node m t) w (brk m) (brk m) 1)"
  using assms
  by (auto simp: worker_queue_push_def malloc_n_def attach_nodes_to_worker_def with_node_def
      split: Option.bind_splits)

lemma worker_queue_push_spec:
  assumes q: "wq m w zs" and ok: "malloc_ok m (calls m)" and o: "owns m N T K C A"
    and tk: "task_ok m t k"
    and d: "cell_node ` set zs \<subseteq> N" "t \<notin> cell_task ` set zs" "k \<notin> cell_itask ` set zs"
  obtains m1 w1 where "worker_queue_push m w t = Some (True, m1, w1)"
    "wq m1 w1 (zs @ [(brk m, t, k)])"
    "map (cell_atask m1) (zs @ [(brk m, t, k)]) = map (cell_atask m) (zs @ [(brk m, t, k)])"
    "qstep (with_node m t) m1 {} {} {} (cell_node ` set zs)" "same_worker w w1"
proof -
  let ?m = "with_node m t" and ?z = "(brk m, t, k)"
  have fresh: "brk m \<notin> cell_node ` set zs" "0 < brk m"
    using owns_fresh [OF o] d(1) by auto
  have agree: "nodes ?m (cell_node z) = nodes m (cell_node z)"
    "tasks ?m (cell_task z) = tasks m (cell_task z)"
    "itasks ?m (cell_itask z) = itasks m (cell_itask z)" if "z \<in> set zs" for z
  proof -
    have "cell_node z \<noteq> brk m" using fresh(1) that by force
    then show "nodes ?m (cell_node z) = nodes m (cell_node z)"
      "tasks ?m (cell_task z) = tasks m (cell_task z)"
      "itasks ?m (cell_itask z) = itasks m (cell_itask z)" by (simp_all add: with_node_def)
  qed
  have q': "wq ?m w zs" using wq_cong(1) [OF agree, of zs w] q by simp
  have at: "map (cell_atask ?m) zs = map (cell_atask m) zs" by (rule wq_cong(2) [OF agree])
  have "cell_ok ?m ?z"
    using tk task_ok_cong [of ?m t m k] by (simp add: cell_ok_def with_node_def)
  moreover have "lseg (tn_nxt ?m) (brk m) (map cell_node [?z]) NULL"
    using fresh by (simp add: tn_nxt_def with_node_def)
  moreover have "distinct (map cell_node (zs @ [?z]))" "distinct (map cell_task (zs @ [?z]))"
      "distinct (map cell_itask (zs @ [?z]))"
    using q fresh d wq_distinct_nodes [OF q] by (auto simp: wq_def)
  ultimately obtain m1 w1 where
    "attach_nodes_to_worker ?m w (brk m) (cell_node (last [?z])) (of_nat (length [?z])) = Some (m1, w1)"
    "wq m1 w1 (zs @ [?z])" "map (cell_atask m1) (zs @ [?z]) = map (cell_atask ?m) (zs @ [?z])"
    "qstep ?m m1 {} {} {} (cell_node ` set zs)" "same_worker w w1"
    by (elim attach_nodes_to_worker_spec [OF q', of "brk m" "[?z]"]) auto
  moreover have "cell_atask ?m ?z = cell_atask m ?z" by (simp add: cell_atask_def with_node_def)
  ultimately show thesis
    using at worker_queue_push_attach [OF ok fresh(2), of w t]
    by (intro that [of m1 w1]) auto
qed

subsection \<open>cancel_in_worker_queue\<close>

lemma cancel_loop_spec:
  assumes "wq_shape m w (map cell_node (ks @ us))" and "\<forall>z \<in> set us. cell_ok m z"
    and "distinct (map cell_task us)" "distinct (map cell_itask us)"
    and "NULL \<notin> cell_task ` set us" "NULL \<notin> cell_itask ` set us"
  shows "\<exists>m1 w1. cancel_loop m w r (last_or_null (map cell_node ks))
            (hd_or_null (map cell_node us)) c
          = Some (m1, w1, c + of_nat (length (filter (\<lambda>z. cell_req m z = r) us))) \<and>
        wq_shape m1 w1 (map cell_node (ks @ filter (\<lambda>z. cell_req m z \<noteq> r) us)) \<and>
        qstep m m1 (cell_node ` {z \<in> set us. cell_req m z = r})
          (cell_task ` {z \<in> set us. cell_req m z = r})
          (cell_itask ` {z \<in> set us. cell_req m z = r}) (cell_node ` set (ks @ us)) \<and>
        w1 = w\<lparr>queue_head := queue_head w1, queue_tail := queue_tail w1\<rparr>"
  using assms
proof (induction us arbitrary: ks m w c)
  case Nil
  then show ?case by (simp add: cancel_loop.simps qstep_refl)
next
  case (Cons z us)
  obtain n t k where z: "z = (n, t, k)" by (cases z)
  from Cons.prems(2) have "cell_ok m (n, t, k)" by (simp add: z)
  then obtain nd tk it where nd: "nodes m n = Some nd" "tn_task nd = t" "tasks m t = Some tk"
      "task_arg tk = k" "itasks m k = Some it"
    and req: "cell_req m z = request_id tk"
    by (metis cell_okD cell_atask_req(1) z)
  have t0: "t \<noteq> NULL" "k \<noteq> NULL" using Cons.prems(5,6) by (auto simp: z)
  have shape: "wq_shape m w (map cell_node ks @ n # map cell_node us)"
    using Cons.prems(1) by (simp add: z)
  have n: "n \<notin> set (map cell_node ks @ map cell_node us)" "n \<noteq> NULL"
    using wq_shape_distinct [OF shape] wq_shape_node [OF shape, of n] by auto
  have next_us: "tn_next nd = hd_or_null (map cell_node us)"
    using wq_shape_next(3) [OF shape nd(1)] by (simp add: hd_or_null_def)
  have notin: "t \<notin> cell_task ` set us" "k \<notin> cell_itask ` set us"
    using Cons.prems(3,4) by (auto simp: z)
  let ?eq = "\<lambda>m z. cell_req m z = r"
  show ?case
  proof (cases "cell_req m z = r")
    case True
    obtain m1 w1 where un: "unlink_node (last_or_null (map cell_node ks)) n (tn_next nd) m w
          = Some (m1, w1)" "wq_shape m1 w1 (map cell_node ks @ map cell_node us)"
        "qstep m m1 {} {} {} (set (map cell_node ks))" "nodes m1 n = Some nd"
        "w1 = w\<lparr>queue_head := queue_head w1, queue_tail := queue_tail w1\<rparr>"
      by (rule unlink_node_spec [OF shape nd(1)])
    have "itasks m1 k = Some it" using nd by (simp add: qstep_fields [OF un(3)])
    then obtain m2 where fr2: "free_itask k m1 = Some m2" "qstep m1 m2 {} {} {k} {}"
      using qstep_free(3) [OF _ t0(2)] by blast
    have "tasks m2 t = Some tk" using nd by (simp add: qstep_fields [OF un(3)] qstep_fields [OF fr2(2)])
    then obtain m3 where fr3: "free_task t m2 = Some m3" "qstep m2 m3 {} {t} {} {}"
      using qstep_free(2) [OF _ t0(1)] by blast
    have st3: "qstep m m3 {} {t} {k} (set (map cell_node ks))"
      using qstep_trans [OF un(3) qstep_trans [OF fr2(2) fr3(2)]] by simp
    have "nodes m3 n = Some nd"
      using qstep_trans [OF fr2(2) fr3(2)] un(4) by (simp add: qstep_def)
    then obtain m4 where fr4: "free_node n m3 = Some m4" "qstep m3 m4 {n} {} {} {}"
      using qstep_free(1) [OF _ n(2)] by blast
    have st4: "qstep m m4 {n} {t} {k} (set (map cell_node ks))"
      using qstep_trans [OF st3 fr4(2)] by simp
    have shape4: "wq_shape m4 w1 (map cell_node (ks @ us))"
      using wq_shape_free [OF un(2) qstep_trans [OF fr2(2) qstep_trans [OF fr3(2) fr4(2)]]] n(1)
      by simp
    have cell4: "cell_ok m4 y \<and> cell_atask m4 y = cell_atask m y" if "y \<in> set us" for y
    proof -
      have "cell_node y \<notin> {n}" "cell_task y \<notin> {t}" "cell_itask y \<notin> {k}"
        using n(1) notin that by (auto simp: image_iff)
      with qstep_cell_ok [OF st4 this] Cons.prems(2) that show ?thesis by simp
    qed
    have flt: "filter (?eq m4) us = filter (?eq m) us"
      "filter (\<lambda>z. \<not> ?eq m4 z) us = filter (\<lambda>z. \<not> ?eq m z) us"
      using cell4 by (auto intro: filter_cong)
    have sets: "{y \<in> set us. ?eq m4 y} = {y \<in> set us. ?eq m y}" using cell4 by auto
    obtain m5 w5 where IH: "cancel_loop m4 w1 r (last_or_null (map cell_node ks))
          (hd_or_null (map cell_node us)) (c + 1)
        = Some (m5, w5, c + 1 + of_nat (length (filter (?eq m) us)))"
      "wq_shape m5 w5 (map cell_node (ks @ filter (\<lambda>z. \<not> ?eq m z) us))"
      "qstep m4 m5 (cell_node ` {z \<in> set us. ?eq m z}) (cell_task ` {z \<in> set us. ?eq m z})
          (cell_itask ` {z \<in> set us. ?eq m z}) (cell_node ` set (ks @ us))"
      "w5 = w1\<lparr>queue_head := queue_head w5, queue_tail := queue_tail w5\<rparr>"
      using Cons.IH [OF shape4, of "c + 1"] cell4 Cons.prems(3-6)
      unfolding flt sets by auto
    have "cancel_loop m w r (last_or_null (map cell_node ks)) n c
        = Some (m5, w5, c + 1 + of_nat (length (filter (?eq m) us)))"
      using True un(1) fr2(1) fr3(1) fr4(1) nd n(2) req IH(1)
      by (simp add: cancel_loop.simps [of m w r _ n] next_us)
    moreover have "qstep m m5 (cell_node ` {y \<in> set (z # us). ?eq m y})
        (cell_task ` {y \<in> set (z # us). ?eq m y}) (cell_itask ` {y \<in> set (z # us). ?eq m y})
        (cell_node ` set (ks @ z # us))"
    proof -
      have "{y \<in> set (z # us). ?eq m y} = insert z {y \<in> set us. ?eq m y}" using True by auto
      then show ?thesis
        using qstep_mono [OF qstep_trans [OF st4 IH(3)], of "cell_node ` set (ks @ z # us)"]
        by (auto simp: z)
    qed
    moreover have "w5 = w\<lparr>queue_head := queue_head w5, queue_tail := queue_tail w5\<rparr>"
      by (subst IH(4), subst un(5)) simp
    ultimately show ?thesis
      using True IH(2) by (auto simp: z algebra_simps)
  next
    case False
    have step: "cancel_loop m w r (last_or_null (map cell_node ks))
          (hd_or_null (map cell_node (z # us))) c
        = cancel_loop m w r (last_or_null (map cell_node (ks @ [z])))
            (hd_or_null (map cell_node us)) c"
      using False nd n(2) req by (simp add: cancel_loop.simps [of m w r _ n] z next_us)
    have shape': "wq_shape m w (map cell_node ((ks @ [z]) @ us))" using Cons.prems(1) by simp
    have sets: "{y \<in> set (z # us). ?eq m y} = {y \<in> set us. ?eq m y}" using False by auto
    have "\<forall>y \<in> set us. cell_ok m y" "distinct (map cell_task us)" "distinct (map cell_itask us)"
      "NULL \<notin> cell_task ` set us" "NULL \<notin> cell_itask ` set us"
      using Cons.prems(2-6) by auto
    from Cons.IH [OF shape' this, of c] False show ?thesis
      unfolding step sets by simp
  qed
qed

lemma cancel_in_worker_queue_spec:
  assumes q: "wq m w zs"
    and nn: "NULL \<notin> cell_task ` set zs" "NULL \<notin> cell_itask ` set zs"
  obtains m1 w1 where "cancel_in_worker_queue m w r
      = Some (of_nat (length (filter (\<lambda>z. cell_req m z = r) zs)), m1, w1)"
    "wq m1 w1 (filter (\<lambda>z. cell_req m z \<noteq> r) zs)"
    "map (cell_atask m1) (filter (\<lambda>z. cell_req m z \<noteq> r) zs)
      = map (cell_atask m) (filter (\<lambda>z. cell_req m z \<noteq> r) zs)"
    "qstep m m1 (cell_node ` {z \<in> set zs. cell_req m z = r})
       (cell_task ` {z \<in> set zs. cell_req m z = r})
       (cell_itask ` {z \<in> set zs. cell_req m z = r}) (cell_node ` set zs)"
    "same_worker w w1"
proof -
  let ?hit = "filter (\<lambda>z. cell_req m z = r) zs" and ?rest = "filter (\<lambda>z. cell_req m z \<noteq> r) zs"
  let ?D = "{z \<in> set zs. cell_req m z = r}"
  obtain m1 w1 where c: "cancel_loop m w r NULL (queue_head w) 0
        = Some (m1, w1, of_nat (length ?hit))"
      "wq_shape m1 w1 (map cell_node ?rest)"
      "qstep m m1 (cell_node ` ?D) (cell_task ` ?D) (cell_itask ` ?D) (cell_node ` set zs)"
      "w1 = w\<lparr>queue_head := queue_head w1, queue_tail := queue_tail w1\<rparr>"
    using cancel_loop_spec [of m w "[]" zs r 0] q nn
    by (auto simp: wq_head [OF q] wq_def)
  define w2 where "w2 = w1\<lparr>queue_size := queue_size w1 - of_nat (length ?hit)\<rparr>"
  have sw: "same_worker w w2"
    by (simp add: same_worker_def w2_def) (subst c(4), simp)
  have len: "length zs = length ?hit + length ?rest"
    by (simp add: sum_length_filter_compl)
  have "queue_size w1 = of_nat (length zs)"
    by (subst c(4)) (use q in \<open>simp add: wq_def\<close>)
  then have size: "queue_size w2 = of_nat (length ?rest)" by (simp add: w2_def len)
  have shape: "wq_shape m1 w2 (map cell_node ?rest)"
    using c(2) by (simp add: wq_shape_def w2_def)
  have inj: "inj_on cell_node (set zs)" "inj_on cell_task (set zs)" "inj_on cell_itask (set zs)"
    using q wq_distinct_nodes [OF q] by (auto simp: wq_def distinct_map)
  have D: "set ?rest \<subseteq> set zs" "?D \<subseteq> set zs" "set ?rest \<inter> ?D = {}" by auto
  have disj: "cell_node ` set ?rest \<inter> cell_node ` ?D = {}"
      "cell_task ` set ?rest \<inter> cell_task ` ?D = {}" "cell_itask ` set ?rest \<inter> cell_itask ` ?D = {}"
    using inj_on_images_disjoint [OF _ D] inj by blast+
  have sub: "set ?rest \<subseteq> set zs" by auto
  have "cancel_in_worker_queue m w r = Some (of_nat (length ?hit), m1, w2)"
    by (simp add: cancel_in_worker_queue_def c(1) w2_def)
  then show thesis
    by (rule that [OF _ wq_after_removal [OF q c(3) shape sub disj size] c(3) sw])
qed

subsection \<open>destroy_worker\<close>

lemma destroy_worker_loop_spec:
  assumes "lseg (tn_nxt m) p (map cell_node zs) NULL" and "\<forall>z \<in> set zs. cell_ok m z"
    and "distinct (map cell_task zs)" "distinct (map cell_itask zs)"
    and "NULL \<notin> cell_task ` set zs" "NULL \<notin> cell_itask ` set zs"
  shows "\<exists>m1. destroy_worker_loop m p = Some m1 \<and>
      qstep m m1 (cell_node ` set zs) (cell_task ` set zs) (cell_itask ` set zs) {}"
  using assms
proof (induction zs arbitrary: m p)
  case Nil
  then show ?case by (simp add: destroy_worker_loop.simps qstep_refl)
next
  case (Cons z zs)
  obtain n t k where z: "z = (n, t, k)" by (cases z)
  from Cons.prems(2) have "cell_ok m (n, t, k)" by (simp add: z)
  then obtain nd tk it where nd: "nodes m n = Some nd" "tn_task nd = t" "tasks m t = Some tk"
      "task_arg tk = k" "itasks m k = Some it"
    by (metis cell_okD)
  have t0: "t \<noteq> NULL" "k \<noteq> NULL" using Cons.prems(5,6) by (auto simp: z)
  have seg: "p = n" "n \<noteq> NULL" "lseg (tn_nxt m) (tn_next nd) (map cell_node zs) NULL"
    using Cons.prems(1) tn_nxt_Some [OF nd(1)] by (auto simp: z)
  have n: "n \<notin> set (map cell_node zs)"
    using lseg_hd_notin [of "tn_nxt m" p n "map cell_node zs"] Cons.prems(1) by (simp add: z)
  have notin: "t \<notin> cell_task ` set zs" "k \<notin> cell_itask ` set zs"
    using Cons.prems(3,4) by (auto simp: z)
  obtain m1 where fr1: "free_itask k m = Some m1" "qstep m m1 {} {} {k} {}"
    using qstep_free(3) [OF nd(5) t0(2)] by blast
  have "tasks m1 t = Some tk" using nd by (simp add: qstep_fields [OF fr1(2)])
  then obtain m2 where fr2: "free_task t m1 = Some m2" "qstep m1 m2 {} {t} {} {}"
    using qstep_free(2) [OF _ t0(1)] by blast
  have "nodes m2 n = Some nd"
    using qstep_trans [OF fr1(2) fr2(2)] nd(1) by (simp add: qstep_def)
  then obtain m3 where fr3: "free_node n m2 = Some m3" "qstep m2 m3 {n} {} {} {}"
    using qstep_free(1) [OF _ seg(2)] by blast
  have st: "qstep m m3 {n} {t} {k} {}"
    using qstep_trans [OF qstep_trans [OF fr1(2) fr2(2)] fr3(2)] by simp
  have "cell_ok m3 y" if "y \<in> set zs" for y
  proof -
    have "cell_node y \<notin> {n}" "cell_task y \<notin> {t}" "cell_itask y \<notin> {k}"
      using n notin that by (auto simp: image_iff)
    with qstep_cell_ok(1) [OF st this] Cons.prems(2) that show ?thesis by simp
  qed
  moreover have "lseg (tn_nxt m3) (tn_next nd) (map cell_node zs) NULL"
    using seg(3) qstep_lseg [OF st, of "map cell_node zs"] n by auto
  ultimately obtain m4 where IH: "destroy_worker_loop m3 (tn_next nd) = Some m4"
      "qstep m3 m4 (cell_node ` set zs) (cell_task ` set zs) (cell_itask ` set zs) {}"
    using Cons.IH [of m3 "tn_next nd"] Cons.prems(3-6) by auto
  have "destroy_worker_loop m p = Some m4"
    using nd seg fr1(1) fr2(1) fr3(1) IH(1) by (simp add: destroy_worker_loop.simps [of m n])
  moreover have "qstep m m4 (cell_node ` set (z # zs)) (cell_task ` set (z # zs))
      (cell_itask ` set (z # zs)) {}"
    using qstep_trans [OF st IH(2)] by (simp add: z)
  ultimately show ?case by blast
qed

lemma destroy_worker_spec:
  assumes "wq m w zs" "NULL \<notin> cell_task ` set zs" "NULL \<notin> cell_itask ` set zs"
  shows "\<exists>m1. destroy_worker m w = Some m1 \<and>
      qstep m m1 (cell_node ` set zs) (cell_task ` set zs) (cell_itask ` set zs) {}"
  using destroy_worker_loop_spec [of m "queue_head w" zs] assms
  by (simp add: destroy_worker_def wq_def wq_shape_def)

end
