(* ===== verification/ReqTable.thy ===== *)
theory ReqTable
  imports OstMem
begin

text \<open>
  The table of request contexts of \<open>src/os_transport_thread_pool.c\<close>: \<open>hash_req_id\<close>, and
  \<open>find_req_context\<close>, \<open>insert_req_context\<close> and \<open>remove_req_context\<close> on 1024 buckets of chained
  contexts, at the level of pointers.  The relation \<open>ht m hash A\<close> says that the table is well
  formed and holds the finite map A from request ids to contexts; the lemmas say that the
  three operations return and are lookup, update and deletion on A.
\<close>

definition REQ_HASH_SIZE :: nat where "REQ_HASH_SIZE = 1024"

definition hash_req_id :: "u32 \<Rightarrow> u32" where
  "hash_req_id req_id = (req_id XOR drop_bit 20 req_id) mod 1024"

definition bucket :: "u32 \<Rightarrow> nat" where "bucket r = unat (hash_req_id r)"

lemma bucket_lt: "bucket r < REQ_HASH_SIZE"
  unfolding bucket_def hash_req_id_def REQ_HASH_SIZE_def
  by (simp add: unat_mod)

text \<open>
  The array \<open>req_hash\<close> is a function from the index; only indices below \<open>REQ_HASH_SIZE\<close> are ever
  read or written (\<open>bucket_lt\<close>).
\<close>

type_synonym req_table = "nat \<Rightarrow> ptr"

partial_function (option) find_ctx_loop :: "mem \<Rightarrow> u32 \<Rightarrow> ptr \<Rightarrow> ptr option" where
  "find_ctx_loop m req_id ctx =
     (if ctx = NULL then Some NULL
      else do {
        c \<leftarrow> ctxs m ctx;
        if rc_request_id c = req_id then Some ctx else find_ctx_loop m req_id (rc_next c)
      })"

definition find_req_context :: "mem \<Rightarrow> req_table \<Rightarrow> u32 \<Rightarrow> ptr option" where
  "find_req_context m hash req_id = find_ctx_loop m req_id (hash (bucket req_id))"

definition insert_req_context :: "mem \<Rightarrow> req_table \<Rightarrow> ptr \<Rightarrow> (mem \<times> req_table) option" where
  "insert_req_context m hash ctx =
     do {
       c \<leftarrow> ctxs m ctx;
       let h = bucket (rc_request_id c);
       let m1 = m\<lparr>ctxs := (ctxs m)(ctx \<mapsto> c\<lparr>rc_next := hash h\<rparr>)\<rparr>;
       Some (m1, hash(h := ctx))
     }"

text \<open>\<open>RequestContext** p\<close>: the place p points to is a bucket or the link of a context.\<close>

datatype slot = Bucket nat | NextOf ptr

fun read_slot :: "mem \<Rightarrow> req_table \<Rightarrow> slot \<Rightarrow> ptr option" where
  "read_slot m hash (Bucket h) = Some (hash h)"
| "read_slot m hash (NextOf p) = map_option rc_next (ctxs m p)"

fun write_slot :: "slot \<Rightarrow> ptr \<Rightarrow> mem \<Rightarrow> req_table \<Rightarrow> (mem \<times> req_table) option" where
  "write_slot (Bucket h) v m hash = Some (m, hash(h := v))"
| "write_slot (NextOf p) v m hash =
     do { c \<leftarrow> ctxs m p; Some (m\<lparr>ctxs := (ctxs m)(p \<mapsto> c\<lparr>rc_next := v\<rparr>)\<rparr>, hash) }"

partial_function (option) remove_ctx_loop ::
    "mem \<Rightarrow> req_table \<Rightarrow> u32 \<Rightarrow> slot \<Rightarrow> (mem \<times> req_table) option" where
  "remove_ctx_loop m hash req_id p =
     do {
       cur \<leftarrow> read_slot m hash p;
       if cur = NULL then Some (m, hash)
       else do {
         tmp \<leftarrow> ctxs m cur;
         if rc_request_id tmp = req_id
         then do {
           (m1, hash1) \<leftarrow> write_slot p (rc_next tmp) m hash;
           m2 \<leftarrow> free_ctx cur m1;
           Some (m2, hash1)
         }
         else remove_ctx_loop m hash req_id (NextOf cur)
       }
     }"

definition remove_req_context :: "mem \<Rightarrow> req_table \<Rightarrow> u32 \<Rightarrow> (mem \<times> req_table) option" where
  "remove_req_context m hash req_id = remove_ctx_loop m hash req_id (Bucket (bucket req_id))"

section \<open>The map a table holds\<close>

record actx =
  ac_worker :: nat
  ac_pending :: u32
  ac_cb :: ptr
  ac_data :: ptr

definition actx_of :: "RequestContext \<Rightarrow> actx" where
  "actx_of cx = \<lparr>ac_worker = rc_worker_idx cx, ac_pending = rc_pending_count cx,
     ac_cb = rc_batch_cb cx, ac_data = rc_batch_user_data cx\<rparr>"

lemma actx_of_next [simp]: "actx_of (cx\<lparr>rc_next := p\<rparr>) = actx_of cx"
  by (simp add: actx_of_def)

definition bucket_ok :: "mem \<Rightarrow> req_table \<Rightarrow> nat \<Rightarrow> bool" where
  "bucket_ok m hash h \<longleftrightarrow>
     (\<exists>cs. lseg (rc_nxt m) (hash h) cs NULL \<and>
           set cs = {c. \<exists>cx. ctxs m c = Some cx \<and> bucket (rc_request_id cx) = h})"

definition ht :: "mem \<Rightarrow> req_table \<Rightarrow> (u32 \<Rightarrow> actx option) \<Rightarrow> bool" where
  "ht m hash A \<longleftrightarrow>
     (\<forall>h < REQ_HASH_SIZE. bucket_ok m hash h) \<and>
     (\<forall>c c' cx cx'. ctxs m c = Some cx \<longrightarrow> ctxs m c' = Some cx' \<longrightarrow>
        rc_request_id cx = rc_request_id cx' \<longrightarrow> c = c') \<and>
     (\<forall>c cx. ctxs m c = Some cx \<longrightarrow> A (rc_request_id cx) = Some (actx_of cx)) \<and>
     (\<forall>r a. A r = Some a \<longrightarrow> (\<exists>c cx. ctxs m c = Some cx \<and> rc_request_id cx = r))"

lemma htD:
  assumes "ht m hash A"
  shows "h < REQ_HASH_SIZE \<Longrightarrow> bucket_ok m hash h"
    and "ctxs m c = Some cx \<Longrightarrow> ctxs m c' = Some cx' \<Longrightarrow> rc_request_id cx = rc_request_id cx' \<Longrightarrow>
      c = c'"
    and "ctxs m c = Some cx \<Longrightarrow> A (rc_request_id cx) = Some (actx_of cx)"
    and "A r = Some a \<Longrightarrow> \<exists>c cx. ctxs m c = Some cx \<and> rc_request_id cx = r \<and> actx_of cx = a"
proof -
  show "h < REQ_HASH_SIZE \<Longrightarrow> bucket_ok m hash h"
    and "ctxs m c = Some cx \<Longrightarrow> ctxs m c' = Some cx' \<Longrightarrow> rc_request_id cx = rc_request_id cx' \<Longrightarrow>
      c = c'"
    and *: "ctxs m c = Some cx \<Longrightarrow> A (rc_request_id cx) = Some (actx_of cx)" for c cx
    using assms unfolding ht_def by blast+
  assume A: "A r = Some a"
  then obtain c cx where c: "ctxs m c = Some cx" "rc_request_id cx = r"
    using assms unfolding ht_def by blast
  with * [OF c(1)] A show "\<exists>c cx. ctxs m c = Some cx \<and> rc_request_id cx = r \<and> actx_of cx = a"
    by auto
qed

text \<open>The table reads only the contexts.\<close>

lemma ht_cong:
  assumes "ctxs m' = ctxs m" shows "ht m' hash A = ht m hash A"
proof -
  have "rc_nxt m' = rc_nxt m" using assms by (simp add: rc_nxt_def fun_eq_iff)
  then show ?thesis using assms by (simp add: ht_def bucket_ok_def)
qed

lemma rc_lseg_frame:
  assumes "lseg (rc_nxt m) p cs q" and "\<And>d. d \<in> set cs \<Longrightarrow> ctxs m' d = ctxs m d"
  shows "lseg (rc_nxt m') p cs q"
  using assms(1) lseg_cong [of cs "rc_nxt m'" "rc_nxt m" p q] assms(2) by (simp add: rc_nxt_def)

lemma ht_chain:
  assumes "ht m hash A"
  obtains cs where "lseg (rc_nxt m) (hash (bucket r)) cs NULL"
    "set cs = {c. \<exists>cx. ctxs m c = Some cx \<and> bucket (rc_request_id cx) = bucket r}"
  using htD(1) [OF assms bucket_lt [of r]] by (auto simp: bucket_ok_def)

section \<open>find\<close>

lemma find_ctx_loop_spec:
  assumes "lseg (rc_nxt m) p cs NULL"
  shows "find_ctx_loop m r p =
    Some (case List.find (\<lambda>c. map_option rc_request_id (ctxs m c) = Some r) cs of
            None \<Rightarrow> NULL | Some c \<Rightarrow> c)"
  using assms
proof (induction cs arbitrary: p)
  case Nil
  then show ?case by (simp add: find_ctx_loop.simps)
next
  case (Cons c cs)
  then obtain cx where c: "p = c" "c \<noteq> NULL" "ctxs m c = Some cx"
    "lseg (rc_nxt m) (rc_next cx) cs NULL"
    using lseg_dom [of "rc_nxt m" p "c # cs" NULL c] rc_nxt_Some [of m c]
    by (cases "ctxs m c") (auto simp: rc_nxt_def [of m c])
  with Cons.IH [OF c(4)] show ?case
    by (simp add: find_ctx_loop.simps [of m r c])
qed

text \<open>A lookup finds the context of the request when there is one, and NULL when there is none.\<close>

lemma find_req_context_none:
  assumes "ht m hash A" "A r = None"
  shows "find_req_context m hash r = Some NULL"
proof -
  obtain cs where cs: "lseg (rc_nxt m) (hash (bucket r)) cs NULL"
    by (rule ht_chain [OF assms(1)])
  have "List.find (\<lambda>c. map_option rc_request_id (ctxs m c) = Some r) cs = None"
    using htD(3) [OF assms(1)] assms(2) by (auto simp: find_None_iff)
  with find_ctx_loop_spec [OF cs, of r] show ?thesis by (simp add: find_req_context_def)
qed

lemma find_req_context_some:
  assumes "ht m hash A" "A r = Some a"
  obtains c cx where "find_req_context m hash r = Some c" "c \<noteq> NULL" "ctxs m c = Some cx"
    "rc_request_id cx = r" "actx_of cx = a"
proof -
  obtain cs where cs: "lseg (rc_nxt m) (hash (bucket r)) cs NULL"
    "set cs = {c. \<exists>cx. ctxs m c = Some cx \<and> bucket (rc_request_id cx) = bucket r}"
    by (rule ht_chain [OF assms(1)])
  let ?P = "\<lambda>c. map_option rc_request_id (ctxs m c) = Some r"
  obtain c cx where c: "ctxs m c = Some cx" "rc_request_id cx = r" "actx_of cx = a"
    using htD(4) [OF assms] by blast
  then have in_cs: "c \<in> set cs" by (auto simp: cs(2))
  then have "List.find ?P cs \<noteq> None" using c by (auto simp: find_None_iff)
  then obtain c' where c': "List.find ?P cs = Some c'" by auto
  then have "?P c'" by (auto simp: find_Some_iff)
  then have "c' = c" using htD(2) [OF assms(1) _ c(1)] c(2) by auto
  with find_ctx_loop_spec [OF cs(1), of r] c' have "find_req_context m hash r = Some c"
    by (simp add: find_req_context_def)
  moreover have "c \<noteq> NULL" using lseg_dom [OF cs(1) in_cs] by simp
  ultimately show thesis using c by (intro that)
qed

section \<open>insert\<close>

lemma insert_req_context_spec:
  assumes t: "ht m hash A" and new: "A (rc_request_id cx) = None" "ctxs m c = None" "c \<noteq> NULL"
  defines "m0 \<equiv> m\<lparr>ctxs := (ctxs m)(c \<mapsto> cx)\<rparr>"
  obtains m1 hash1 where "insert_req_context m0 hash c = Some (m1, hash1)"
    "ht m1 hash1 (A(rc_request_id cx \<mapsto> actx_of cx))"
    "m1 = m\<lparr>ctxs := (ctxs m)(c \<mapsto> cx\<lparr>rc_next := hash (bucket (rc_request_id cx))\<rparr>)\<rparr>"
proof -
  let ?r = "rc_request_id cx" and ?h = "bucket (rc_request_id cx)"
  let ?cx = "cx\<lparr>rc_next := hash ?h\<rparr>"
  define m1 where "m1 = m\<lparr>ctxs := (ctxs m)(c \<mapsto> ?cx)\<rparr>"
  have ctxs1: "ctxs m1 = (ctxs m)(c \<mapsto> ?cx)" by (simp add: m1_def)
  have ins: "insert_req_context m0 hash c = Some (m1, hash(?h := c))"
    by (simp add: insert_req_context_def m0_def m1_def Let_def)
  have bucket1: "bucket_ok m1 (hash(?h := c)) h" if h: "h < REQ_HASH_SIZE" for h
  proof -
    obtain cs where cs: "lseg (rc_nxt m) (hash h) cs NULL"
      "set cs = {c. \<exists>cx. ctxs m c = Some cx \<and> bucket (rc_request_id cx) = h}"
      using htD(1) [OF t h] by (auto simp: bucket_ok_def)
    have "c \<notin> set cs" using new(2) by (auto simp: cs(2))
    then have seg: "lseg (rc_nxt m1) (hash h) cs NULL"
      by (intro rc_lseg_frame [OF cs(1)]) (auto simp: ctxs1)
    show ?thesis
    proof (cases "h = ?h")
      case True
      have "rc_nxt m1 c = Some (hash ?h)" by (simp add: rc_nxt_def ctxs1)
      then have "lseg (rc_nxt m1) c (c # cs) NULL" using seg new(3) True by simp
      moreover have "set (c # cs) = {c. \<exists>cx. ctxs m1 c = Some cx \<and> bucket (rc_request_id cx) = h}"
        using cs(2) new(2) True by (auto simp: ctxs1)
      ultimately show ?thesis
        unfolding bucket_ok_def using True by (intro exI [of _ "c # cs"] conjI) simp_all
    next
      case False
      have "set cs = {c. \<exists>cx. ctxs m1 c = Some cx \<and> bucket (rc_request_id cx) = h}"
        using cs(2) new(2) False by (auto simp: ctxs1)
      with seg False show ?thesis unfolding bucket_ok_def by auto
    qed
  qed
  have other: "rc_request_id dx \<noteq> ?r" if "ctxs m d = Some dx" for d dx
    using htD(3) [OF t that] new(1) by auto
  have "ht m1 (hash(?h := c)) (A(?r \<mapsto> actx_of cx))"
    unfolding ht_def
  proof (intro conjI allI impI)
    show "bucket_ok m1 (hash(?h := c)) h" if "h < REQ_HASH_SIZE" for h using that by (rule bucket1)
    show "d = d'" if "ctxs m1 d = Some dx" "ctxs m1 d' = Some dx'"
      "rc_request_id dx = rc_request_id dx'" for d d' dx dx'
      using that other htD(2) [OF t] by (auto simp: ctxs1 split: if_splits) metis+
    show "(A(?r \<mapsto> actx_of cx)) (rc_request_id dx) = Some (actx_of dx)"
      if "ctxs m1 d = Some dx" for d dx
      using that other htD(3) [OF t] by (auto simp: ctxs1 split: if_splits)
    show "\<exists>d dx. ctxs m1 d = Some dx \<and> rc_request_id dx = r"
      if "(A(?r \<mapsto> actx_of cx)) r = Some a" for r a
    proof (cases "r = ?r")
      case True
      then show ?thesis by (intro exI [of _ c] exI [of _ ?cx]) (simp add: ctxs1)
    next
      case False
      with that obtain d dx where "ctxs m d = Some dx" "rc_request_id dx = r"
        using htD(4) [OF t, of r a] by auto
      then show ?thesis using new(2) by (intro exI [of _ d] exI [of _ dx]) (auto simp: ctxs1)
    qed
  qed
  with ins show thesis by (intro that) (auto simp: m1_def)
qed

text \<open>Writing the fields of a context that is in the table, its id and its link apart.\<close>

lemma ht_write:
  assumes t: "ht m hash A" and c: "ctxs m c = Some cx"
    and keep: "rc_request_id cx' = rc_request_id cx" "rc_next cx' = rc_next cx"
  shows "ht (m\<lparr>ctxs := (ctxs m)(c \<mapsto> cx')\<rparr>) hash (A(rc_request_id cx \<mapsto> actx_of cx'))"
proof -
  let ?m = "m\<lparr>ctxs := (ctxs m)(c \<mapsto> cx')\<rparr>"
  have nxt: "rc_nxt ?m = rc_nxt m" using c keep by (auto simp: rc_nxt_def fun_eq_iff)
  have "{d. \<exists>dx. ctxs ?m d = Some dx \<and> bucket (rc_request_id dx) = h}
      = {d. \<exists>dx. ctxs m d = Some dx \<and> bucket (rc_request_id dx) = h}" for h
    using c keep by auto
  then have b: "bucket_ok ?m hash h = bucket_ok m hash h" for h
    by (simp add: bucket_ok_def nxt)
  have uniq: "d = c" if "ctxs m d = Some dx" "rc_request_id dx = rc_request_id cx" for d dx
    using htD(2) [OF t that(1) c that(2)] .
  show ?thesis
    unfolding ht_def
  proof (intro conjI allI impI)
    show "bucket_ok ?m hash h" if "h < REQ_HASH_SIZE" for h using htD(1) [OF t that] b by simp
    show "d = d'" if "ctxs ?m d = Some dx" "ctxs ?m d' = Some dx'"
      "rc_request_id dx = rc_request_id dx'" for d d' dx dx'
      using that htD(2) [OF t] c keep by (auto split: if_splits)
    show "(A(rc_request_id cx \<mapsto> actx_of cx')) (rc_request_id dx) = Some (actx_of dx)"
      if "ctxs ?m d = Some dx" for d dx
      using that htD(3) [OF t] uniq keep by (auto split: if_splits)
    show "\<exists>d dx. ctxs ?m d = Some dx \<and> rc_request_id dx = r"
      if "(A(rc_request_id cx \<mapsto> actx_of cx')) r = Some a" for r a
    proof (cases "r = rc_request_id cx")
      case True
      then show ?thesis using keep by (intro exI [of _ c] exI [of _ cx']) simp
    next
      case False
      with that obtain d dx where "ctxs m d = Some dx" "rc_request_id dx = r"
        using htD(4) [OF t, of r a] by auto
      moreover from this False c have "d \<noteq> c" by auto
      ultimately show ?thesis by (intro exI [of _ d] exI [of _ dx]) auto
    qed
  qed
qed

section \<open>remove\<close>

text \<open>A context without its link: what \<open>remove\<close> keeps of the contexts it passes.\<close>

abbreviation unlinked :: "RequestContext \<Rightarrow> RequestContext" where
  "unlinked cx \<equiv> cx\<lparr>rc_next := NULL\<rparr>"

definition slot_after :: "nat \<Rightarrow> ptr list \<Rightarrow> slot" where
  "slot_after h ks = (if ks = [] then Bucket h else NextOf (last ks))"

lemma slot_after_simps [simp]:
  "slot_after h [] = Bucket h" "slot_after h (ks @ [c]) = NextOf c"
  by (simp_all add: slot_after_def)

lemma read_slot_after:
  assumes "lseg (rc_nxt m) (hash h) (ks @ us) NULL"
  shows "read_slot m hash (slot_after h ks) = Some (if us = [] then NULL else hd us)"
proof (cases ks rule: rev_cases)
  case Nil
  with assms show ?thesis by (cases us) auto
next
  case (snoc ls l)
  with assms obtain r where r: "rc_nxt m l = Some r" "lseg (rc_nxt m) r us NULL"
    by (auto simp: lseg_append split: option.splits)
  then have "r = (if us = [] then NULL else hd us)" by (cases us) auto
  with r snoc show ?thesis by (simp add: rc_nxt_def)
qed

lemma write_slot_after:
  assumes seg: "lseg (rc_nxt m) (hash h) (ks @ c # vs) NULL" and c: "ctxs m c = Some cx"
  obtains m1 hash1 where "write_slot (slot_after h ks) (rc_next cx) m hash = Some (m1, hash1)"
    "lseg (rc_nxt m1) (hash1 h) (ks @ vs) NULL" "\<forall>h'. h' \<noteq> h \<longrightarrow> hash1 h' = hash h'"
    "m1 = m\<lparr>ctxs := ctxs m1\<rparr>" "ctxs m1 c = Some cx"
    "\<forall>d. map_option unlinked (ctxs m1 d) = map_option unlinked (ctxs m d)"
    "\<forall>d. d \<notin> set ks \<longrightarrow> ctxs m1 d = ctxs m d"
proof -
  have d: "distinct (ks @ c # vs)" using lseg_distinct [OF seg] .
  have rest: "lseg (rc_nxt m) (hash h) ks c" "lseg (rc_nxt m) (rc_next cx) vs NULL"
    using seg rc_nxt_Some [OF c] by (auto simp: lseg_append)
  show thesis
  proof (cases ks rule: rev_cases)
    case Nil
    with rest c show thesis by (intro that [of m "hash(h := rc_next cx)"]) auto
  next
    case (snoc ls l)
    have "l \<in> set (ks @ c # vs)" using snoc by simp
    then obtain lx where l: "l \<noteq> NULL" "ctxs m l = Some lx"
      using lseg_dom [OF seg, of l] by (auto simp: rc_nxt_def)
    define m1 where "m1 = m\<lparr>ctxs := (ctxs m)(l \<mapsto> lx\<lparr>rc_next := rc_next cx\<rparr>)\<rparr>"
    have w: "write_slot (slot_after h ks) (rc_next cx) m hash = Some (m1, hash)"
      using l snoc by (simp add: m1_def)
    have "lseg (rc_nxt m1) (hash h) (ls @ [l]) (rc_next cx)"
      by (rule lseg_relink_last [OF rest(1) [unfolded snoc]])
        (use d snoc in \<open>auto simp: m1_def rc_nxt_def\<close>)
    moreover have "lseg (rc_nxt m1) (rc_next cx) vs NULL"
      by (intro rc_lseg_frame [OF rest(2)]) (use d snoc in \<open>auto simp: m1_def\<close>)
    ultimately have "lseg (rc_nxt m1) (hash h) (ks @ vs) NULL"
      unfolding snoc using lseg_append by blast
    then show thesis
      by (intro that [OF w]) (use l c d snoc in \<open>auto simp: m1_def\<close>)
  qed
qed

lemma remove_ctx_loop_spec:
  assumes "lseg (rc_nxt m) (hash h) (ks @ us) NULL"
  shows "case List.extract (\<lambda>c. map_option rc_request_id (ctxs m c) = Some r) us of
      None \<Rightarrow> remove_ctx_loop m hash r (slot_after h ks) = Some (m, hash)
    | Some (ys, c, vs) \<Rightarrow>
        (\<exists>m1 hash1. remove_ctx_loop m hash r (slot_after h ks) = Some (m1, hash1) \<and>
          lseg (rc_nxt m1) (hash1 h) (ks @ ys @ vs) NULL \<and>
          (\<forall>h'. h' \<noteq> h \<longrightarrow> hash1 h' = hash h') \<and> m1 = m\<lparr>ctxs := ctxs m1\<rparr> \<and> ctxs m1 c = None \<and>
          (\<forall>d. d \<noteq> c \<longrightarrow> map_option unlinked (ctxs m1 d) = map_option unlinked (ctxs m d)) \<and>
          (\<forall>d. d \<notin> set (ks @ us) \<longrightarrow> ctxs m1 d = ctxs m d))"
  using assms
proof (induction us arbitrary: ks)
  case Nil
  then show ?case
    using read_slot_after [of m hash h ks "[]"] by (simp add: List.extract_def remove_ctx_loop.simps)
next
  case (Cons c us)
  let ?P = "\<lambda>c. map_option rc_request_id (ctxs m c) = Some r"
  have rd: "read_slot m hash (slot_after h ks) = Some c"
    using read_slot_after [of m hash h ks "c # us"] Cons.prems by simp
  obtain cx where c: "c \<noteq> NULL" "ctxs m c = Some cx"
    using lseg_dom [OF Cons.prems, of c] by (auto simp: rc_nxt_def)
  show ?case
  proof (cases "rc_request_id cx = r")
    case True
    obtain m1 hash1 where w: "write_slot (slot_after h ks) (rc_next cx) m hash = Some (m1, hash1)"
      "lseg (rc_nxt m1) (hash1 h) (ks @ us) NULL" "\<forall>h'. h' \<noteq> h \<longrightarrow> hash1 h' = hash h'"
      "m1 = m\<lparr>ctxs := ctxs m1\<rparr>" "ctxs m1 c = Some cx"
      "\<forall>d. map_option unlinked (ctxs m1 d) = map_option unlinked (ctxs m d)"
      "\<forall>d. d \<notin> set ks \<longrightarrow> ctxs m1 d = ctxs m d"
      by (rule write_slot_after [of m hash h ks c us, OF Cons.prems c(2)])
    define m2 where "m2 = m1\<lparr>ctxs := (ctxs m1)(c := None)\<rparr>"
    have "c \<notin> set (ks @ us)" using lseg_distinct [OF Cons.prems] by simp
    then have "lseg (rc_nxt m2) (hash1 h) (ks @ us) NULL"
      by (intro rc_lseg_frame [OF w(2)]) (auto simp: m2_def)
    moreover have "remove_ctx_loop m hash r (slot_after h ks) = Some (m2, hash1)"
      using True rd c w(1,5) by (simp add: remove_ctx_loop.simps [of m hash r] free_ctx_def m2_def)
    moreover have "m2 = m\<lparr>ctxs := ctxs m2\<rparr>" unfolding m2_def by (subst w(4)) simp
    moreover have "List.extract ?P (c # us) = Some ([], c, us)"
      using True c by (simp add: extract_Cons_code)
    ultimately show ?thesis using w(3,6,7) by (auto simp: m2_def)
  next
    case False
    have step: "remove_ctx_loop m hash r (slot_after h ks)
        = remove_ctx_loop m hash r (slot_after h (ks @ [c]))"
      using False rd c by (simp add: remove_ctx_loop.simps [of m hash r "slot_after h ks"])
    have "lseg (rc_nxt m) (hash h) ((ks @ [c]) @ us) NULL" using Cons.prems by simp
    from Cons.IH [OF this] show ?thesis
      unfolding step using False c
      by (cases "List.extract ?P us") (auto simp: extract_Cons_code)
  qed
qed

lemma remove_req_context_none:
  assumes t: "ht m hash A" and A: "A r = None"
  shows "remove_req_context m hash r = Some (m, hash)"
proof -
  obtain cs where cs: "lseg (rc_nxt m) (hash (bucket r)) cs NULL"
    by (rule ht_chain [OF t])
  have "List.extract (\<lambda>c. map_option rc_request_id (ctxs m c) = Some r) cs = None"
    using htD(3) [OF t] A by (intro extract_NoneI) auto
  with remove_ctx_loop_spec [of m hash "bucket r" "[]" cs r] cs
  show ?thesis by (simp add: remove_req_context_def)
qed

lemma remove_req_context_some:
  assumes t: "ht m hash A" and c: "ctxs m c = Some cx" "rc_request_id cx = r"
  obtains m1 hash1 where "remove_req_context m hash r = Some (m1, hash1)"
    "ht m1 hash1 (A(r := None))" "m1 = m\<lparr>ctxs := ctxs m1\<rparr>" "dom (ctxs m1) = dom (ctxs m) - {c}"
proof -
  let ?h = "bucket r" and ?P = "\<lambda>c. map_option rc_request_id (ctxs m c) = Some r"
  obtain cs where cs: "lseg (rc_nxt m) (hash ?h) cs NULL"
    "set cs = {c. \<exists>cx. ctxs m c = Some cx \<and> bucket (rc_request_id cx) = ?h}"
    by (rule ht_chain [OF t])
  have "c \<in> set cs" "?P c" using c by (auto simp: cs(2))
  then obtain ys c' vs where ex: "List.extract ?P cs = Some (ys, c', vs)"
    using extract_NoneD [of ?P cs c] by (cases "List.extract ?P cs") auto
  then have split: "cs = ys @ c' # vs" "?P c'" by (auto dest: extract_SomeD)
  then have "c' = c" using htD(2) [OF t _ c(1)] c(2) by auto
  with ex have ex: "List.extract ?P cs = Some (ys, c, vs)" and cs_eq: "cs = ys @ c # vs"
    using split by auto
  obtain m1 hash1 where rm: "remove_req_context m hash r = Some (m1, hash1)"
      "lseg (rc_nxt m1) (hash1 ?h) (ys @ vs) NULL" "\<forall>h'. h' \<noteq> ?h \<longrightarrow> hash1 h' = hash h'"
      "m1 = m\<lparr>ctxs := ctxs m1\<rparr>" "ctxs m1 c = None"
      and same: "\<And>d. d \<noteq> c \<Longrightarrow> map_option unlinked (ctxs m1 d) = map_option unlinked (ctxs m d)"
      and off: "\<And>d. d \<notin> set cs \<Longrightarrow> ctxs m1 d = ctxs m d"
    using remove_ctx_loop_spec [of m hash ?h "[]" cs r] cs(1) ex
    by (auto simp: remove_req_context_def)
  have fwd: "\<exists>dx. ctxs m d = Some dx \<and> rc_request_id dx = rc_request_id dx' \<and> actx_of dx = actx_of dx'"
    if "ctxs m1 d = Some dx'" for d dx'
  proof -
    have "d \<noteq> c" using that rm(5) by auto
    from same [OF this] that obtain dx where dx: "ctxs m d = Some dx" "unlinked dx = unlinked dx'"
      by (cases "ctxs m d") auto
    then have "rc_request_id (unlinked dx) = rc_request_id (unlinked dx')"
      "actx_of (unlinked dx) = actx_of (unlinked dx')" by simp_all
    with dx(1) show ?thesis by auto
  qed
  have bwd: "\<exists>dx'. ctxs m1 d = Some dx' \<and> rc_request_id dx' = rc_request_id dx"
    if "ctxs m d = Some dx" "d \<noteq> c" for d dx
  proof -
    from same [OF that(2)] that(1) obtain dx' where "ctxs m1 d = Some dx'" by (cases "ctxs m1 d") auto
    with fwd [OF this] that(1) show ?thesis by auto
  qed
  have dom1: "dom (ctxs m1) = dom (ctxs m) - {c}"
    using fwd bwd rm(5) by (auto simp: dom_def) blast+
  have in_bucket: "{d. \<exists>dx. ctxs m1 d = Some dx \<and> bucket (rc_request_id dx) = h}
      = {d. \<exists>dx. ctxs m d = Some dx \<and> bucket (rc_request_id dx) = h} - {c}" for h
    using fwd bwd rm(5) by fastforce
  have buckets: "bucket_ok m1 hash1 h" if h: "h < REQ_HASH_SIZE" for h
  proof (cases "h = ?h")
    case True
    have "set (ys @ vs) = set cs - {c}" using lseg_distinct [OF cs(1)] cs_eq by auto
    then show ?thesis
      unfolding bucket_ok_def in_bucket True using rm(2) cs(2) by (intro exI [of _ "ys @ vs"]) auto
  next
    case False
    obtain ds where ds: "lseg (rc_nxt m) (hash h) ds NULL"
      "set ds = {d. \<exists>dx. ctxs m d = Some dx \<and> bucket (rc_request_id dx) = h}"
      using htD(1) [OF t h] by (auto simp: bucket_ok_def)
    have "set ds \<inter> set cs = {}" using False by (auto simp: ds(2) cs(2))
    then have "lseg (rc_nxt m1) (hash h) ds NULL"
      by (intro rc_lseg_frame [OF ds(1)] off) auto
    moreover have "c \<notin> set ds" using c False by (auto simp: ds(2))
    ultimately show ?thesis
      unfolding bucket_ok_def in_bucket using ds(2) rm(3) False by (intro exI [of _ ds]) auto
  qed
  have "ht m1 hash1 (A(r := None))"
    unfolding ht_def
  proof (intro conjI allI impI)
    show "bucket_ok m1 hash1 h" if "h < REQ_HASH_SIZE" for h using that by (rule buckets)
    show "d = d'" if "ctxs m1 d = Some dx" "ctxs m1 d' = Some dx'"
      "rc_request_id dx = rc_request_id dx'" for d d' dx dx'
      using fwd [OF that(1)] fwd [OF that(2)] that(3) htD(2) [OF t] by metis
    show "(A(r := None)) (rc_request_id dx) = Some (actx_of dx)" if "ctxs m1 d = Some dx" for d dx
    proof -
      obtain ex where ex: "ctxs m d = Some ex" "rc_request_id ex = rc_request_id dx"
        "actx_of ex = actx_of dx" using fwd [OF \<open>ctxs m1 d = Some dx\<close>] by blast
      have "d \<noteq> c" using that rm(5) by auto
      then have "rc_request_id ex \<noteq> r" using htD(2) [OF t ex(1) c(1)] c(2) by auto
      with htD(3) [OF t ex(1)] ex show ?thesis by simp
    qed
    show "\<exists>d dx. ctxs m1 d = Some dx \<and> rc_request_id dx = r'" if "(A(r := None)) r' = Some a" for r' a
    proof -
      have r': "r' \<noteq> r" "A r' = Some a" using that by (auto split: if_splits)
      from htD(4) [OF t r'(2)] obtain d dx where d: "ctxs m d = Some dx" "rc_request_id dx = r'"
        by blast
      with r'(1) c have "d \<noteq> c" by auto
      from bwd [OF d(1) this] d(2) show ?thesis by auto
    qed
  qed
  with rm dom1 show thesis by (intro that)
qed

end
