(* ===== verification/ThreadPool.thy ===== *)
theory ThreadPool
  imports TaskQueue ReqTable
begin

text \<open>
  The operations of the thread pool (\<open>src/os_transport_thread_pool.c\<close>) over the pointer-level
  queues and the request table: selection of a worker, submission of a task and of a batch,
  cancellation, wake-up, the body of a worker thread, and the pool's life from
  \<open>thread_pool_init\<close> to \<open>thread_pool_destroy\<close>.

  The state of an operation is the pool and, where code of the application runs, the
  application's own state of type \<open>'w\<close>.  One operation runs at a time: an API call, or one
  turn of a worker's loop between two waits on its condition variable (the worker holds its
  mutex for the whole turn).  User functions and callbacks are parameters of the model
  (\<open>env\<close>) that act on the application's state.
\<close>

section \<open>The pool\<close>

definition NUM_WORKERS :: nat where "NUM_WORKERS = 64"

record pool =
  pmem :: mem
  workers :: "WorkerThread list"
  is_running :: bool
  is_destroying :: bool
  next_task_id :: u64
  req_hash :: req_table
  urma_jfce :: ptr
  urma_jfc :: ptr
  urma_event_mode :: bool

record 'w env =
  exec :: "task_fn \<Rightarrow> ptr \<Rightarrow> 'w \<Rightarrow> (int \<times> 'w) option"
  callback :: "ptr \<Rightarrow> u64 \<Rightarrow> bool \<Rightarrow> ptr \<Rightarrow> 'w \<Rightarrow> 'w option"

definition set_worker :: "nat \<Rightarrow> WorkerThread \<Rightarrow> pool \<Rightarrow> pool" where
  "set_worker i w p = p\<lparr>workers := (workers p)[i := w]\<rparr>"

text \<open>Calling a callback pointer that may be NULL.\<close>

definition call_cb :: "'w env \<Rightarrow> ptr \<Rightarrow> u64 \<Rightarrow> bool \<Rightarrow> ptr \<Rightarrow> 'w \<Rightarrow> 'w option" where
  "call_cb env cb new_id success data s =
     (if cb \<noteq> NULL then callback env cb new_id success data s else Some s)"

definition internal_task_wrapper ::
    "'w env \<Rightarrow> ptr \<Rightarrow> mem \<times> 'w \<Rightarrow> (int \<times> mem \<times> 'w) option" where
  "internal_task_wrapper env arg = (\<lambda>(m, s).
     do {
       itask \<leftarrow> itasks m arg;
       (ret, s1) \<leftarrow> exec env (it_user_func itask) (it_user_arg itask) s;
       s2 \<leftarrow> call_cb env (it_complete_cb itask) (it_task_id itask) (it_success itask)
                (it_user_data itask) s1;
       m1 \<leftarrow> free_itask arg m;
       Some (ret, m1, s2)
     })"

definition call_task_func ::
    "'w env \<Rightarrow> task_fn \<Rightarrow> ptr \<Rightarrow> mem \<times> 'w \<Rightarrow> (int \<times> mem \<times> 'w) option" where
  "call_task_func env fn arg = (\<lambda>(m, s).
     if fn = internal_task_wrapper_fn then internal_task_wrapper env arg (m, s)
     else do { (ret, s1) \<leftarrow> exec env fn arg s; Some (ret, m, s1) })"

definition generate_task_id :: "pool \<Rightarrow> u64 \<times> pool" where
  "generate_task_id p = (next_task_id p, p\<lparr>next_task_id := next_task_id p + 1\<rparr>)"

fun select_loop :: "WorkerThread list \<Rightarrow> nat \<Rightarrow> nat option \<Rightarrow> u32 \<Rightarrow> nat option" where
  "select_loop [] i best min_load = best"
| "select_loop (w # ws) i best min_load =
     (if state w = WORKER_STATE_IDLE \<and> queue_size w = 0 then Some i
      else if state w = WORKER_STATE_BUSY \<and> queue_size w < min_load
      then select_loop ws (Suc i) (Some i) (queue_size w)
      else select_loop ws (Suc i) best min_load)"

definition select_best_worker :: "pool \<Rightarrow> nat option" where
  "select_best_worker p = select_loop (workers p) 0 None (- 1)"

section \<open>Submission of one task\<close>

text \<open>Writing the pending count of a context that must be live.\<close>

definition add_pending :: "ptr \<Rightarrow> u32 \<Rightarrow> mem \<Rightarrow> mem option" where
  "add_pending ctx n m =
     do {
       c \<leftarrow> ctxs m ctx;
       Some (m\<lparr>ctxs := (ctxs m)(ctx \<mapsto> c\<lparr>rc_pending_count := rc_pending_count c + n\<rparr>)\<rparr>)
     }"

definition new_context :: "u32 \<Rightarrow> nat \<Rightarrow> u32 \<Rightarrow> ptr \<Rightarrow> ptr \<Rightarrow> RequestContext" where
  "new_context req_id idx n cb data =
     \<lparr>rc_request_id = req_id, rc_worker_idx = idx, rc_pending_count = n,
      rc_batch_cb = cb, rc_batch_user_data = data, rc_next = NULL\<rparr>"

text \<open>
  The context update of \<open>thread_pool_submit_task\<close>: the result of \<open>malloc\<close> is used without a
  check, so a failed allocation is a write through NULL.
\<close>

definition submit_update_context :: "pool \<Rightarrow> u32 \<Rightarrow> nat \<Rightarrow> pool option" where
  "submit_update_context p req_id idx =
     do {
       ctx \<leftarrow> find_req_context (pmem p) (req_hash p) req_id;
       if ctx \<noteq> NULL
       then do { m \<leftarrow> add_pending ctx 1 (pmem p); Some (p\<lparr>pmem := m\<rparr>) }
       else
         (let (ctx, m) = malloc1 (pmem p) in
          if ctx = NULL then None
          else do {
            let m1 = m\<lparr>ctxs := (ctxs m)(ctx \<mapsto> new_context req_id idx 1 NULL NULL)\<rparr>;
            (m2, hash) \<leftarrow> insert_req_context m1 (req_hash p) ctx;
            Some (p\<lparr>pmem := m2, req_hash := hash\<rparr>)
          })
     }"

text \<open>
  The two objects a submitted task consists of.  \<open>free_task_self\<close> is never written nor read for
  them.
\<close>

definition new_itask :: "task_fn \<Rightarrow> ptr \<Rightarrow> ptr \<Rightarrow> ptr \<Rightarrow> u64 \<Rightarrow> u32 \<Rightarrow> InternalTask" where
  "new_itask fn arg cb data new_id req_id =
     \<lparr>it_user_func = fn, it_user_arg = arg, it_complete_cb = cb, it_user_data = data,
      it_task_id = new_id, it_request_id = req_id, it_success = True\<rparr>"

definition new_task :: "u64 \<Rightarrow> u32 \<Rightarrow> ptr \<Rightarrow> ThreadPoolTask" where
  "new_task new_id req_id itask =
     \<lparr>task_id = new_id, request_id = req_id, task_func = internal_task_wrapper_fn,
      task_arg = itask, is_completed = False, free_task_self = False\<rparr>"

definition free_task_and_itask :: "ptr \<Rightarrow> ptr \<Rightarrow> pool \<Rightarrow> pool option" where
  "free_task_and_itask task itask p =
     do {
       m1 \<leftarrow> free_task task (pmem p);
       m2 \<leftarrow> free_itask itask m1;
       Some (p\<lparr>pmem := m2\<rparr>)
     }"

definition thread_pool_submit_task ::
    "pool \<Rightarrow> u32 \<Rightarrow> task_fn option \<Rightarrow> ptr \<Rightarrow> ptr \<Rightarrow> ptr \<Rightarrow> (u64 \<times> pool) option" where
  "thread_pool_submit_task p req_id func arg complete_cb user_data =
     (case func of None \<Rightarrow> Some (0, p) | Some fn \<Rightarrow>
      if \<not> is_running p then Some (0, p)
      else
        let (itask, m1) = malloc1 (pmem p) in
        if itask = NULL then Some (0, p\<lparr>pmem := m1\<rparr>)
        else
          let (task, m2) = malloc1
                (m1\<lparr>itasks := (itasks m1)(itask \<mapsto> new_itask fn arg complete_cb user_data 0 req_id)\<rparr>)
          in
          if task = NULL then do { m3 \<leftarrow> free_itask itask m2; Some (0, p\<lparr>pmem := m3\<rparr>) }
          else
            let (new_id, p1) = generate_task_id (p\<lparr>pmem := m2\<rparr>);
                m3 = m2\<lparr>tasks := (tasks m2)(task \<mapsto> new_task new_id req_id itask),
                  itasks := (itasks m2)(itask \<mapsto> new_itask fn arg complete_cb user_data new_id req_id)\<rparr>;
                p2 = p1\<lparr>pmem := m3\<rparr>
            in
            (case select_best_worker p2 of
               None \<Rightarrow> do { p3 \<leftarrow> free_task_and_itask task itask p2; Some (0, p3) }
             | Some i \<Rightarrow>
                 do {
                   (ok, m4, w) \<leftarrow> worker_queue_push (pmem p2) (workers p2 ! i) task;
                   let p3 = set_worker i w (p2\<lparr>pmem := m4\<rparr>);
                   if \<not> ok
                   then do { p4 \<leftarrow> free_task_and_itask task itask p3; Some (0, p4) }
                   else do {
                     p4 \<leftarrow> submit_update_context p3 req_id (worker_idx w);
                     Some (new_id, p4)
                   }
                 }))"

section \<open>Submission of a batch\<close>

text \<open>Writing \<open>task_ids[i]\<close>.\<close>

definition set_id :: "ptr \<Rightarrow> nat \<Rightarrow> u64 \<Rightarrow> mem \<Rightarrow> mem option" where
  "set_id arr i v m =
     do {
       ids \<leftarrow> id_arrays m arr;
       if i < length ids then Some (m\<lparr>id_arrays := (id_arrays m)(arr \<mapsto> ids[i := v])\<rparr>) else None
     }"

text \<open>The result \<open>NULL\<close> is the C function's \<open>false\<close>; otherwise it is the node.\<close>

definition create_batch_node ::
    "pool \<Rightarrow> ThreadPoolTask \<Rightarrow> u32 \<Rightarrow> ptr \<Rightarrow> ptr \<Rightarrow> ptr \<Rightarrow> nat \<Rightarrow> (ptr \<times> pool) option" where
  "create_batch_node p src req_id complete_cb user_data task_ids i =
     (let (itask, m1) = malloc1 (pmem p) in
      if itask = NULL then Some (NULL, p\<lparr>pmem := m1\<rparr>)
      else
        let (task, m2) = malloc1
              (m1\<lparr>itasks := (itasks m1)(itask \<mapsto>
                 new_itask (task_func src) (task_arg src) complete_cb user_data 0 req_id)\<rparr>)
        in
        if task = NULL then do { m3 \<leftarrow> free_itask itask m2; Some (NULL, p\<lparr>pmem := m3\<rparr>) }
        else
          let (new_id, p1) = generate_task_id (p\<lparr>pmem := m2\<rparr>);
              m3 = m2\<lparr>tasks := (tasks m2)(task \<mapsto> new_task new_id req_id itask),
                itasks := (itasks m2)(itask \<mapsto>
                  new_itask (task_func src) (task_arg src) complete_cb user_data new_id req_id)\<rparr>
          in
          do {
            m4 \<leftarrow> set_id task_ids i new_id m3;
            let (node, m5) = malloc1 m4;
            if node = NULL
            then do {
              m6 \<leftarrow> free_task task m5;
              m7 \<leftarrow> free_itask itask m6;
              Some (NULL, p1\<lparr>pmem := m7\<rparr>)
            }
            else
              Some (node, p1\<lparr>pmem := m5\<lparr>nodes := (nodes m5)(node \<mapsto>
                      \<lparr>tn_task = task, tn_next = NULL\<rparr>)\<rparr>\<rparr>)
          })"

text \<open>
  The loop of \<open>build_batch_nodes\<close>; the clean-up after a failure frees the nodes built so far, by
  the same statements as the loop of \<open>destroy_worker\<close>.
\<close>

fun build_batch_loop ::
    "pool \<Rightarrow> ThreadPoolTask list \<Rightarrow> nat \<Rightarrow> u32 \<Rightarrow> ptr \<Rightarrow> ptr \<Rightarrow> ptr \<Rightarrow> ptr \<Rightarrow> ptr \<Rightarrow> u32 \<Rightarrow>
      (ptr \<times> u32 \<times> pool) option" where
  "build_batch_loop p [] i req_id cb data task_ids head tail created = Some (head, created, p)"
| "build_batch_loop p (src # srcs) i req_id cb data task_ids head tail created =
     do {
       (node, p1) \<leftarrow> create_batch_node p src req_id cb data task_ids i;
       if node = NULL
       then do { m \<leftarrow> destroy_worker_loop (pmem p1) head; Some (NULL, created, p1\<lparr>pmem := m\<rparr>) }
       else if tail \<noteq> NULL
       then do {
         m \<leftarrow> set_tn_next tail node (pmem p1);
         build_batch_loop (p1\<lparr>pmem := m\<rparr>) srcs (Suc i) req_id cb data task_ids head node (created + 1)
       }
       else build_batch_loop p1 srcs (Suc i) req_id cb data task_ids node node (created + 1)
     }"

definition build_batch_nodes ::
    "pool \<Rightarrow> ThreadPoolTask list \<Rightarrow> u32 \<Rightarrow> ptr \<Rightarrow> ptr \<Rightarrow> ptr \<Rightarrow> (ptr \<times> u32 \<times> pool) option" where
  "build_batch_nodes p ts req_id cb data task_ids =
     build_batch_loop p ts 0 req_id cb data task_ids NULL NULL 0"

text \<open>
  The array \<open>tasks\<close> with its \<open>task_count\<close> is a list.  The result is \<open>None\<close> for \<open>false\<close>.
\<close>

definition validate_and_select_worker ::
    "pool \<Rightarrow> ThreadPoolTask list \<Rightarrow> (((u32 \<times> nat \<times> ptr) option) \<times> pool) option" where
  "validate_and_select_worker p ts =
     (if ts = [] \<or> \<not> is_running p then Some (None, p)
      else
        let req_id = request_id (hd ts) in
        if \<exists>t \<in> set (tl ts). request_id t \<noteq> req_id then Some (None, p)
        else
          let (task_ids, m1) = malloc_n (length ts) (pmem p) in
          if task_ids = NULL then Some (None, p\<lparr>pmem := m1\<rparr>)
          else
            let p1 = p\<lparr>pmem := m1\<lparr>id_arrays := (id_arrays m1)(task_ids \<mapsto>
                       replicate (length ts) 0)\<rparr>\<rparr>
            in
            (case select_best_worker p1 of
               None \<Rightarrow> do { m2 \<leftarrow> free_id_array task_ids (pmem p1); Some (None, p1\<lparr>pmem := m2\<rparr>) }
             | Some i \<Rightarrow> Some (Some (req_id, i, task_ids), p1)))"

definition update_batch_context ::
    "pool \<Rightarrow> u32 \<Rightarrow> nat \<Rightarrow> u32 \<Rightarrow> ptr \<Rightarrow> ptr \<Rightarrow> (bool \<times> pool) option" where
  "update_batch_context p req_id idx task_count batch_cb batch_data =
     do {
       ctx \<leftarrow> find_req_context (pmem p) (req_hash p) req_id;
       if ctx \<noteq> NULL
       then do { m \<leftarrow> add_pending ctx task_count (pmem p); Some (True, p\<lparr>pmem := m\<rparr>) }
       else
         (let (ctx, m) = malloc1 (pmem p) in
          if ctx = NULL then Some (False, p\<lparr>pmem := m\<rparr>)
          else do {
            let m1 = m\<lparr>ctxs := (ctxs m)(ctx \<mapsto>
                       new_context req_id idx task_count batch_cb batch_data)\<rparr>;
            (m2, hash) \<leftarrow> insert_req_context m1 (req_hash p) ctx;
            Some (True, p\<lparr>pmem := m2, req_hash := hash\<rparr>)
          })
     }"

text \<open>\<open>while (tail->next) tail = tail->next;\<close>\<close>

partial_function (option) tail_loop :: "mem \<Rightarrow> ptr \<Rightarrow> ptr option" where
  "tail_loop m tail =
     do {
       nd \<leftarrow> nodes m tail;
       if tn_next nd \<noteq> NULL then tail_loop m (tn_next nd) else Some tail
     }"

text \<open>
  The main function: NULL on failure.  When the context cannot be allocated the C code only
  logs, and returns the ids.
\<close>

definition thread_pool_submit_batch_tasks ::
    "pool \<Rightarrow> ThreadPoolTask list \<Rightarrow> ptr \<Rightarrow> ptr \<Rightarrow> ptr \<Rightarrow> ptr \<Rightarrow> (ptr \<times> pool) option" where
  "thread_pool_submit_batch_tasks p ts complete_cb user_data batch_cb batch_data =
     do {
       (sel, p1) \<leftarrow> validate_and_select_worker p ts;
       case sel of None \<Rightarrow> Some (NULL, p1) | Some (req_id, i, task_ids) \<Rightarrow>
       do {
         (head, created, p2) \<leftarrow> build_batch_nodes p1 ts req_id complete_cb user_data task_ids;
         if head = NULL
         then do { m \<leftarrow> free_id_array task_ids (pmem p2); Some (NULL, p2\<lparr>pmem := m\<rparr>) }
         else do {
           tail \<leftarrow> tail_loop (pmem p2) head;
           (m, w) \<leftarrow> attach_nodes_to_worker (pmem p2) (workers p2 ! i) head tail created;
           let p3 = set_worker i w (p2\<lparr>pmem := m\<rparr>);
           (_, p4) \<leftarrow> update_batch_context p3 req_id (worker_idx w) (of_nat (length ts))
                        batch_cb batch_data;
           Some (task_ids, p4)
         }
       }
     }"

section \<open>Cancellation and wake-up\<close>

definition update_context_after_cancel :: "pool \<Rightarrow> ptr \<Rightarrow> u32 \<Rightarrow> u32 \<Rightarrow> pool option" where
  "update_context_after_cancel p ctx req_id removed =
     do {
       c \<leftarrow> ctxs (pmem p) ctx;
       let c1 = c\<lparr>rc_pending_count := rc_pending_count c - removed\<rparr>;
       let m1 = (pmem p)\<lparr>ctxs := (ctxs (pmem p))(ctx \<mapsto> c1)\<rparr>;
       if rc_pending_count c1 = 0
       then do {
         (m2, hash) \<leftarrow> remove_ctx_loop m1 (req_hash p) req_id (Bucket (bucket req_id));
         Some (p\<lparr>pmem := m2, req_hash := hash\<rparr>)
       }
       else Some (p\<lparr>pmem := m1\<rparr>)
     }"

definition thread_pool_cancel_tasks_by_req :: "pool \<Rightarrow> u32 \<Rightarrow> (int \<times> pool) option" where
  "thread_pool_cancel_tasks_by_req p req_id =
     (if \<not> is_running p then Some (- 1, p)
      else do {
        ctx \<leftarrow> find_req_context (pmem p) (req_hash p) req_id;
        if ctx = NULL then Some (0, p)
        else do {
          c \<leftarrow> ctxs (pmem p) ctx;
          let i = rc_worker_idx c;
          (removed, m, w) \<leftarrow> cancel_in_worker_queue (pmem p) (workers p ! i) req_id;
          let p1 = set_worker i w (p\<lparr>pmem := m\<rparr>);
          p2 \<leftarrow> (if removed > 0 then update_context_after_cancel p1 ctx req_id removed else Some p1);
          Some (sint removed, p2)
        }
      })"

definition thread_pool_wake_up_worker_by_req_id :: "pool \<Rightarrow> u32 \<Rightarrow> (int \<times> pool) option" where
  "thread_pool_wake_up_worker_by_req_id p req_id =
     do {
       ctx \<leftarrow> find_req_context (pmem p) (req_hash p) req_id;
       if ctx = NULL then Some (- 1, p)
       else do {
         c \<leftarrow> ctxs (pmem p) ctx;
         let i = rc_worker_idx c;
         Some (0, set_worker i ((workers p ! i)\<lparr>pending_req := req_id\<rparr>) p)
       }
     }"

section \<open>The worker thread\<close>

definition worker_finish_context ::
    "'w env \<Rightarrow> u32 \<Rightarrow> pool \<times> 'w \<Rightarrow> (pool \<times> 'w) option" where
  "worker_finish_context env req_id = (\<lambda>(p, s).
     do {
       ctx \<leftarrow> find_req_context (pmem p) (req_hash p) req_id;
       if ctx = NULL then Some (p, s)
       else do {
         c \<leftarrow> ctxs (pmem p) ctx;
         let c1 = c\<lparr>rc_pending_count := rc_pending_count c - 1\<rparr>;
         let p1 = p\<lparr>pmem := (pmem p)\<lparr>ctxs := (ctxs (pmem p))(ctx \<mapsto> c1)\<rparr>\<rparr>;
         if rc_pending_count c1 = 0
         then do {
           s1 \<leftarrow> call_cb env (rc_batch_cb c1) 0 True (rc_batch_user_data c1) s;
           (m, hash) \<leftarrow> remove_req_context (pmem p1) (req_hash p1) req_id;
           Some (p1\<lparr>pmem := m, req_hash := hash\<rparr>, s1)
         }
         else Some (p1, s)
       }
     })"

definition worker_process_task ::
    "'w env \<Rightarrow> nat \<Rightarrow> ptr \<Rightarrow> u32 \<Rightarrow> pool \<times> 'w \<Rightarrow> (pool \<times> 'w) option" where
  "worker_process_task env i task req_id = (\<lambda>(p, s).
     do {
       let p1 = set_worker i ((workers p ! i)\<lparr>state := WORKER_STATE_BUSY\<rparr>) p;
       tk \<leftarrow> tasks (pmem p1) task;
       (_, m1, s1) \<leftarrow> call_task_func env (task_func tk) (task_arg tk) (pmem p1, s);
       tk1 \<leftarrow> tasks m1 task;
       let m2 = m1\<lparr>tasks := (tasks m1)(task \<mapsto> tk1\<lparr>is_completed := True\<rparr>)\<rparr>;
       (p2, s2) \<leftarrow> worker_finish_context env req_id (p1\<lparr>pmem := m2\<rparr>, s1);
       m3 \<leftarrow> free_task task (pmem p2);
       let p3 = p2\<lparr>pmem := m3\<rparr>;
       Some (set_worker i ((workers p3 ! i)\<lparr>state := WORKER_STATE_IDLE\<rparr>) p3, s2)
     })"

text \<open>
  One turn of the loop of \<open>worker_routine\<close>, from one evaluation of its wait condition to the
  next.  A worker that has nothing to do stays where it is (in \<open>pthread_cond_wait\<close>); one whose
  thread has not started or has ended takes no turn.
\<close>

definition worker_turn :: "'w env \<Rightarrow> nat \<Rightarrow> pool \<times> 'w \<Rightarrow> (pool \<times> 'w) option" where
  "worker_turn env i = (\<lambda>(p, s).
     let w = workers p ! i in
     if state w = WORKER_STATE_INIT \<or> state w = WORKER_STATE_EXIT then Some (p, s)
     else if pending_req w = 0 \<and> \<not> is_destroying p then Some (p, s)
     else if is_destroying p \<and> pending_req w = 0
     then Some (set_worker i (w\<lparr>state := WORKER_STATE_EXIT\<rparr>) p, s)
     else
       let req_to_exec = pending_req w;
           w1 = w\<lparr>pending_req := 0\<rparr>
       in
       do {
         (task, m, w2) \<leftarrow> worker_queue_pop_by_req (pmem p) w1 req_to_exec;
         let p1 = set_worker i w2 (p\<lparr>pmem := m\<rparr>);
         if task \<noteq> NULL then worker_process_task env i task req_to_exec (p1, s) else Some (p1, s)
       })"

section \<open>Start and end of the pool\<close>

text \<open>
  \<open>pthread_create\<close> for worker i is a parameter: its return code and the thread id it stores.
  When it succeeds the new thread runs to its first wait, which leaves the worker idle; the
  creator waits for that.
\<close>

definition create_worker :: "(nat \<Rightarrow> int \<times> u64) \<Rightarrow> nat \<Rightarrow> pool \<Rightarrow> bool \<times> pool" where
  "create_worker pthread_create i p =
     (let (ret, t) = pthread_create i;
          w = (workers p ! i)\<lparr>tid := t\<rparr>
      in
      if ret \<noteq> 0 then (False, set_worker i w p)
      else (True, set_worker i (w\<lparr>state := WORKER_STATE_IDLE\<rparr>) p))"

fun create_workers_loop :: "(nat \<Rightarrow> int \<times> u64) \<Rightarrow> nat list \<Rightarrow> pool \<Rightarrow> bool \<times> pool" where
  "create_workers_loop pthread_create [] p = (True, p)"
| "create_workers_loop pthread_create (i # is) p =
     (let (ok, p1) = create_worker pthread_create i p in
      if ok then create_workers_loop pthread_create is p1 else (False, p1))"

definition create_all_workers :: "(nat \<Rightarrow> int \<times> u64) \<Rightarrow> pool \<Rightarrow> bool \<times> pool" where
  "create_all_workers pthread_create p = create_workers_loop pthread_create [0..<NUM_WORKERS] p"

definition init_workers_basic :: "WorkerThread list" where
  "init_workers_basic =
     map (\<lambda>i. \<lparr>tid = 0, state = WORKER_STATE_INIT, worker_idx = i, queue_head = NULL,
               queue_tail = NULL, queue_size = 0, pending_req = 0\<rparr>) [0..<NUM_WORKERS]"

definition thread_pool_start :: "pool \<Rightarrow> int \<times> pool" where
  "thread_pool_start p = (if is_running p then (- 1, p) else (0, p\<lparr>is_running := True\<rparr>))"

definition shutdown_threads :: "pool \<Rightarrow> pool" where
  "shutdown_threads p = p\<lparr>is_destroying := True\<rparr>"

text \<open>
  \<open>pthread_join\<close> of worker i: the worker takes turns until it has ended.  Joining a thread that
  was never started is undefined.
\<close>

partial_function (option) join_worker ::
    "'w env \<Rightarrow> nat \<Rightarrow> pool \<times> 'w \<Rightarrow> (pool \<times> 'w) option" where
  "join_worker env i ps =
     (if state (workers (fst ps) ! i) = WORKER_STATE_INIT then None
      else if state (workers (fst ps) ! i) = WORKER_STATE_EXIT then Some ps
      else do { ps1 \<leftarrow> worker_turn env i ps; join_worker env i ps1 })"

fun join_loop :: "'w env \<Rightarrow> nat list \<Rightarrow> pool \<times> 'w \<Rightarrow> (pool \<times> 'w) option" where
  "join_loop env [] ps = Some ps"
| "join_loop env (i # is) ps =
     do {
       ps1 \<leftarrow> (if tid (workers (fst ps) ! i) \<noteq> 0 then join_worker env i ps else Some ps);
       join_loop env is ps1
     }"

fun destroy_all_workers :: "mem \<Rightarrow> WorkerThread list \<Rightarrow> mem option" where
  "destroy_all_workers m [] = Some m"
| "destroy_all_workers m (w # ws) = do { m1 \<leftarrow> destroy_worker m w; destroy_all_workers m1 ws }"

partial_function (option) free_ctx_chain :: "mem \<Rightarrow> ptr \<Rightarrow> mem option" where
  "free_ctx_chain m ctx =
     (if ctx = NULL then Some m
      else do { c \<leftarrow> ctxs m ctx; m1 \<leftarrow> free_ctx ctx m; free_ctx_chain m1 (rc_next c) })"

fun destroy_hash_loop :: "mem \<Rightarrow> req_table \<Rightarrow> nat list \<Rightarrow> mem option" where
  "destroy_hash_loop m hash [] = Some m"
| "destroy_hash_loop m hash (h # hs) =
     do { m1 \<leftarrow> free_ctx_chain m (hash h); destroy_hash_loop m1 hash hs }"

definition destroy_hash_table :: "mem \<Rightarrow> req_table \<Rightarrow> mem option" where
  "destroy_hash_table m hash = destroy_hash_loop m hash [0..<REQ_HASH_SIZE]"

text \<open>The memory that is left when the pool is gone, and the application's state.\<close>

definition thread_pool_destroy :: "'w env \<Rightarrow> pool \<times> 'w \<Rightarrow> (mem \<times> 'w) option" where
  "thread_pool_destroy env = (\<lambda>(p, s).
     do {
       (p1, s1) \<leftarrow> join_loop env [0..<NUM_WORKERS] (shutdown_threads p, s);
       m1 \<leftarrow> destroy_all_workers (pmem p1) (workers p1);
       m2 \<leftarrow> destroy_hash_table m1 (req_hash p1);
       Some (m2, s1)
     })"

text \<open>
  \<open>thread_pool_init\<close>: \<open>calloc_ok\<close> says whether the pool structure itself could be allocated, m is
  the heap at the call.  The inner result is the handle (\<open>None\<close> for NULL), with the heap that is
  left when there is none.
\<close>

definition fresh_pool :: "mem \<Rightarrow> pool" where
  "fresh_pool m =
     \<lparr>pmem = m, workers = init_workers_basic, is_running = False, is_destroying = False,
      next_task_id = 1, req_hash = (\<lambda>_. NULL), urma_jfce = NULL, urma_jfc = NULL,
      urma_event_mode = False\<rparr>"

definition thread_pool_init ::
    "'w env \<Rightarrow> (nat \<Rightarrow> int \<times> u64) \<Rightarrow> bool \<Rightarrow> mem \<Rightarrow> 'w \<Rightarrow> ((mem + pool) \<times> 'w) option" where
  "thread_pool_init env pthread_create calloc_ok m s =
     (if \<not> calloc_ok then Some (Inl m, s)
      else
        let (ok, p) = create_all_workers pthread_create (fresh_pool m) in
        if ok then Some (Inr p, s)
        else do { (m1, s1) \<leftarrow> thread_pool_destroy env (p, s); Some (Inl m1, s1) })"

end
