(* ===== verification/UserData.thy ===== *)
theory UserData
  imports OstPrelude
begin

text \<open>
  The 64-bit user data of a work request (\<open>os_transport_user_data_t\<close> of
  \<open>include/os_transport.h\<close>, \<open>TransportData\<close> of the thread pool's internal header): a union of a
  word and of four bit-fields.  The bit-fields lie in declaration order from the least
  significant bit (the layout of the little-endian ABIs the library is built for).  The union
  is modelled as the word; reading and assigning a bit-field are functions on it.
\<close>

section \<open>Bit-fields of a word\<close>

definition get_field :: "nat \<Rightarrow> nat \<Rightarrow> u64 \<Rightarrow> u64" where
  "get_field lo n w = take_bit n (drop_bit lo w)"

definition set_field :: "nat \<Rightarrow> nat \<Rightarrow> u64 \<Rightarrow> u64 \<Rightarrow> u64" where
  "set_field lo n v w = (w AND NOT (push_bit lo (mask n))) OR push_bit lo (take_bit n v)"

lemma bit_get_field: "bit (get_field lo n w) i \<longleftrightarrow> i < n \<and> bit w (lo + i)"
  by (simp add: get_field_def bit_simps ac_simps)

lemma bit_set_field:
  "bit (set_field lo n v w) i \<longleftrightarrow>
     i < 64 \<and> (if lo \<le> i \<and> i < lo + n then bit v (i - lo) else bit w i)"
  by (auto simp: set_field_def bit_simps dest: bit_imp_le_length)

lemma get_set_same:
  assumes "lo + n \<le> 64"
  shows "get_field lo n (set_field lo n v w) = take_bit n v"
  by (rule bit_word_eqI) (use assms in \<open>auto simp: bit_get_field bit_set_field bit_simps\<close>)

lemma get_set_other:
  assumes "lo + n \<le> lo' \<or> lo' + n' \<le> lo" "lo + n \<le> 64"
  shows "get_field lo n (set_field lo' n' v w) = get_field lo n w"
  by (rule bit_word_eqI) (use assms in \<open>auto simp: bit_get_field bit_set_field\<close>)

section \<open>The user data of a request\<close>

text \<open>The initialised fields (a union with a designated or zero initialiser starts as 0).\<close>

definition bs_chunk_type :: "u64 \<Rightarrow> u64" where "bs_chunk_type = get_field 0 2"
definition bs_chunk_id :: "u64 \<Rightarrow> u64" where "bs_chunk_id = get_field 2 6"
definition bs_chunk_size :: "u64 \<Rightarrow> u64" where "bs_chunk_size = get_field 8 24"
definition bs_request_id :: "u64 \<Rightarrow> u64" where "bs_request_id = get_field 32 32"

definition set_chunk_type :: "u64 \<Rightarrow> u64 \<Rightarrow> u64" where "set_chunk_type = set_field 0 2"
definition set_chunk_id :: "u64 \<Rightarrow> u64 \<Rightarrow> u64" where "set_chunk_id = set_field 2 6"
definition set_chunk_size :: "u64 \<Rightarrow> u64 \<Rightarrow> u64" where "set_chunk_size = set_field 8 24"
definition set_request_id :: "u64 \<Rightarrow> u64 \<Rightarrow> u64" where "set_request_id = set_field 32 32"

datatype chunk_type = NOT_SPLIT | MIDDLE_CHUNK | LAST_CHUNK

fun chunk_type_val :: "chunk_type \<Rightarrow> u64" where
  "chunk_type_val NOT_SPLIT = 0"
| "chunk_type_val MIDDLE_CHUNK = 1"
| "chunk_type_val LAST_CHUNK = 2"

text \<open>
  \<open>{.bs.request_id = key, .bs.chunk_type = t, .bs.chunk_id = i, .bs.chunk_size = len}\<close>, or the
  same assignments to a zeroed union.
\<close>

definition user_data :: "u32 \<Rightarrow> chunk_type \<Rightarrow> u64 \<Rightarrow> u32 \<Rightarrow> u64" where
  "user_data key t chunk_id len =
     set_chunk_size (ucast len) (set_chunk_id chunk_id
       (set_chunk_type (chunk_type_val t) (set_request_id (ucast key) 0)))"

lemmas field_defs =
  bs_chunk_type_def bs_chunk_id_def bs_chunk_size_def bs_request_id_def
  set_chunk_type_def set_chunk_id_def set_chunk_size_def set_request_id_def

lemma chunk_type_val_2: "take_bit 2 (chunk_type_val t) = chunk_type_val t"
  by (cases t) simp_all

lemma take_bit_ucast_u32: "take_bit 32 (ucast (k :: u32) :: u64) = ucast k"
  by (rule bit_word_eqI) (auto simp: bit_simps dest: bit_imp_le_length)

lemma user_data_fields:
  "bs_request_id (user_data key t i len) = ucast key"
  "bs_chunk_type (user_data key t i len) = chunk_type_val t"
  "bs_chunk_id (user_data key t i len) = take_bit 6 i"
  "bs_chunk_size (user_data key t i len) = take_bit 24 (ucast len)"
  by (simp_all add: user_data_def field_defs get_set_same get_set_other chunk_type_val_2
      take_bit_ucast_u32)

text \<open>The four fields are the whole word.\<close>

lemma fields_ext:
  assumes "bs_chunk_type v = bs_chunk_type w" "bs_chunk_id v = bs_chunk_id w"
    and "bs_chunk_size v = bs_chunk_size w" "bs_request_id v = bs_request_id w"
  shows "v = w"
proof (rule bit_word_eqI)
  fix n :: nat assume n: "n < LENGTH(64)"
  have *: "bit v (lo + k) = bit w (lo + k)" if "get_field lo m v = get_field lo m w" "k < m" for lo m k
    using that bit_get_field [of lo m v k] bit_get_field [of lo m w k] by simp
  consider "n < 2" | "2 \<le> n" "n < 8" | "8 \<le> n" "n < 32" | "32 \<le> n" by linarith
  then show "bit v n = bit w n"
  proof cases
    case 1 with assms(1) * [of 0 2 n] show ?thesis by (simp add: field_defs)
  next
    case 2
    have "2 + (n - 2) = n" using 2 by simp
    with 2 assms(2) * [of 2 6 "n - 2"] show ?thesis by (simp add: field_defs del: Suc_diff_Suc add_2_eq_Suc add_2_eq_Suc')
  next
    case 3 with assms(3) * [of 8 24 "n - 8"] show ?thesis by (simp add: field_defs)
  next
    case 4 with assms(4) * [of 32 32 "n - 32"] n show ?thesis by (simp add: field_defs)
  qed
qed

lemma ucast_request_id: "ucast (bs_request_id (user_data key t i len)) = key"
  by (simp add: user_data_fields word_facts)

text \<open>A chunk id that fits its six bits and a size below 16 MiB are kept.\<close>

lemma user_data_kept:
  "i < 64 \<Longrightarrow> bs_chunk_id (user_data key t i len) = i"
  "len < 2 ^ 24 \<Longrightarrow> bs_chunk_size (user_data key t i len) = ucast len"
proof -
  assume "i < 64"
  then have "unat i < 64" by (simp add: word_less_nat_alt)
  then show "bs_chunk_id (user_data key t i len) = i"
    by (simp add: user_data_fields take_bit_eq_mod word_unat_eq_iff unat_mod)
next
  assume "len < 2 ^ 24"
  then have "unat len < 2 ^ 24" by (simp add: word_less_nat_alt)
  then show "bs_chunk_size (user_data key t i len) = ucast len"
    by (simp add: user_data_fields take_bit_eq_mod word_unat_eq_iff unat_mod word_facts)
qed

end
