(* ===== verification/TransportMem.thy ===== *)
theory TransportMem
  imports OstMem UserData
begin

text \<open>
  The data of the transport (\<open>include/os_transport.h\<close>, \<open>os_transport_internal.h\<close>,
  \<open>os_transport_urma.h\<close>) and its heap: synchronisation objects, task groups, and the arrays a
  request allocates.  An array of n elements occupies n consecutive addresses, so that
  \<open>&chunks[i]\<close> is the base address plus i; \<open>blocks\<close> records the live arrays with their lengths.
  Objects of libraries (\<open>urma_jfs_t\<close>, streams, segments) are opaque pointers.
\<close>

section \<open>Structures\<close>

record chunk_info =
  ck_src :: u64
  ck_dst :: u64
  ck_len :: u32

record ost_buffer_info =
  ob_addr :: u64
  ob_tseg :: ptr

record ost_device_info =
  od_jfr :: ptr
  od_dst :: u64
  od_stream :: ptr
  od_event :: ptr

datatype jetty_mode = JETTY_MODE_SIMPLEX | JETTY_MODE_DUPLEX

record urma_jetty_info =
  ji_jfs :: ptr
  ji_jetty :: ptr
  ji_tjetty :: ptr
  ji_jetty_mode :: jetty_mode

record urma_write_info =
  wi_jfs :: ptr
  wi_jetty :: ptr
  wi_target_jfr :: ptr
  wi_dst_tseg :: ptr
  wi_src_tseg :: ptr
  wi_flag :: u32
  wi_user_ctx_server :: u64
  wi_user_ctx_client :: u64

record urma_recv_info =
  ri_jfr :: ptr
  ri_local_tseg :: ptr
  ri_device_info :: ost_device_info
  ri_request_id :: u32

text \<open>The union \<open>urma_info_t\<close>: the member that was stored last.\<close>

datatype urma_info = Write_info urma_write_info | Recv_info urma_recv_info

datatype task_type = NULL_TASK | SEND_TASK | RECV_TASK

record send_task_arg =
  sa_sync :: ptr
  sa_chunk_info :: ptr
  sa_is_last_chunk :: bool
  sa_write_info :: urma_write_info

record recv_task_arg =
  ra_sync :: ptr
  ra_chunk_info :: ptr
  ra_is_last_chunk :: bool
  ra_recv_info :: urma_recv_info

record task_group =
  tg_tasks :: ptr
  tg_task_args :: ptr
  tg_task_num :: u32

record task_sync =
  ts_request_completed :: int
  ts_total_tasks :: u64
  ts_completed_tasks :: u64
  ts_task_group :: ptr
  ts_chunks :: ptr

text \<open>An element of the array \<open>task_args\<close> (\<open>void *\<close>): the structure that was stored there.\<close>

datatype task_arg = Send_arg send_task_arg | Recv_arg recv_task_arg

section \<open>The heap\<close>

text \<open>
  \<open>inits\<close> counts the calls of \<open>pthread_mutex_init\<close> and \<open>pthread_cond_init\<close> of the transport;
  \<open>init_ret n\<close> is what the n-th of them returns, a choice of the environment.
\<close>

record tmem = allocator +
  syncs :: "ptr \<Rightarrow> task_sync option"
  groups :: "ptr \<Rightarrow> task_group option"
  blocks :: "ptr \<Rightarrow> nat option"
  chunk_cells :: "ptr \<Rightarrow> chunk_info option"
  task_cells :: "ptr \<Rightarrow> ThreadPoolTask option"
  arg_cells :: "ptr \<Rightarrow> task_arg option"
  inits :: nat
  init_ret :: "nat \<Rightarrow> int"

text \<open>Writing a whole array, and reading one back.\<close>

definition put_array :: "ptr \<Rightarrow> 'a list \<Rightarrow> (ptr \<Rightarrow> 'a option) \<Rightarrow> ptr \<Rightarrow> 'a option" where
  "put_array p xs f = (\<lambda>q. if p \<le> q \<and> q < p + length xs then Some (xs ! (q - p)) else f q)"

fun read_array :: "(ptr \<Rightarrow> 'a option) \<Rightarrow> ptr \<Rightarrow> nat \<Rightarrow> 'a list option" where
  "read_array f p 0 = Some []"
| "read_array f p (Suc n) = do { x \<leftarrow> f p; xs \<leftarrow> read_array f (Suc p) n; Some (x # xs) }"

lemma put_array_nth: "i < length xs \<Longrightarrow> put_array p xs f (p + i) = Some (xs ! i)"
  by (simp add: put_array_def)

lemma put_array_other: "q < p \<or> p + length xs \<le> q \<Longrightarrow> put_array p xs f q = f q"
  by (auto simp: put_array_def)

lemma put_array_Nil [simp]: "put_array p [] f = f"
  by (rule ext) (auto simp: put_array_def)

lemma put_array_snoc:
  "put_array p (xs @ [x]) f = (put_array p xs f)(p + length xs \<mapsto> x)"
  by (rule ext) (auto simp: put_array_def nth_append not_less_eq)

lemma put_array_update:
  assumes "i < length xs"
  shows "(put_array p xs f)(p + i \<mapsto> x) = put_array p (xs[i := x]) f"
  using assms by (intro ext) (auto simp: put_array_def)

lemma read_array_iff:
  "read_array f p n = Some xs \<longleftrightarrow> length xs = n \<and> (\<forall>i < n. f (p + i) = Some (xs ! i))"
proof (induction n arbitrary: p xs)
  case (Suc n)
  have "read_array f p (Suc n) = Some xs \<longleftrightarrow>
      (\<exists>x ys. xs = x # ys \<and> f p = Some x \<and> read_array f (Suc p) n = Some ys)"
    by (auto split: Option.bind_splits)
  also have "\<dots> \<longleftrightarrow> length xs = Suc n \<and> (\<forall>i < Suc n. f (p + i) = Some (xs ! i))"
    by (cases xs) (auto simp: Suc.IH All_less_Suc2)
  finally show ?case .
qed auto

lemma read_put_array: "read_array (put_array p xs f) p (length xs) = Some xs"
  by (simp add: read_array_iff put_array_nth)

definition block :: "ptr \<Rightarrow> nat \<Rightarrow> ptr set" where
  "block p n = {p..<p + n}"

text \<open>
  \<open>calloc\<close> or \<open>malloc\<close> of an array of n elements.  An element can be read only once it has been
  stored (the code never reads the zeros of \<open>calloc\<close>; a read of one is \<open>None\<close>, which is stricter
  than C).  A store needs a live array and an index in its bounds.
\<close>

definition alloc_block :: "nat \<Rightarrow> tmem \<Rightarrow> ptr \<times> tmem" where
  "alloc_block n m =
     (let (p, m1) = malloc_n n m in
      if p = NULL then (NULL, m1) else (p, m1\<lparr>blocks := (blocks m1)(p \<mapsto> n)\<rparr>))"

definition in_block :: "ptr \<Rightarrow> nat \<Rightarrow> tmem \<Rightarrow> bool" where
  "in_block p i m = (case blocks m p of None \<Rightarrow> False | Some n \<Rightarrow> i < n)"

definition store_chunk :: "ptr \<Rightarrow> nat \<Rightarrow> chunk_info \<Rightarrow> tmem \<Rightarrow> tmem option" where
  "store_chunk p i c m =
     (if in_block p i m then Some (m\<lparr>chunk_cells := (chunk_cells m)(p + i \<mapsto> c)\<rparr>) else None)"

definition store_task :: "ptr \<Rightarrow> nat \<Rightarrow> ThreadPoolTask \<Rightarrow> tmem \<Rightarrow> tmem option" where
  "store_task p i t m =
     (if in_block p i m then Some (m\<lparr>task_cells := (task_cells m)(p + i \<mapsto> t)\<rparr>) else None)"

definition store_arg :: "ptr \<Rightarrow> nat \<Rightarrow> task_arg \<Rightarrow> tmem \<Rightarrow> tmem option" where
  "store_arg p i a m =
     (if in_block p i m then Some (m\<lparr>arg_cells := (arg_cells m)(p + i \<mapsto> a)\<rparr>) else None)"

definition free_block :: "ptr \<Rightarrow> tmem \<Rightarrow> tmem option" where
  "free_block p m =
     (if p = NULL then Some m
      else do {
        n \<leftarrow> blocks m p;
        Some (m\<lparr>blocks := (blocks m)(p := None),
          chunk_cells := chunk_cells m |` (- block p n),
          task_cells := task_cells m |` (- block p n),
          arg_cells := arg_cells m |` (- block p n)\<rparr>)
      })"

definition free_group :: "ptr \<Rightarrow> tmem \<Rightarrow> tmem option" where
  "free_group p m =
     (if p = NULL then Some m
      else do { _ \<leftarrow> groups m p; Some (m\<lparr>groups := (groups m)(p := None)\<rparr>) })"

definition free_sync :: "ptr \<Rightarrow> tmem \<Rightarrow> tmem option" where
  "free_sync p m =
     (if p = NULL then Some m
      else do { _ \<leftarrow> syncs m p; Some (m\<lparr>syncs := (syncs m)(p := None)\<rparr>) })"

end
