(* ===== verification/Chunking.thy ===== *)
theory Chunking
  imports TransportMem
begin

text \<open>
  Cutting a transfer into chunks of at most 2 MiB (\<open>common_split_chunks\<close>,
  \<open>send_split_chunks\<close>, \<open>recv_split_chunks\<close> of \<open>src/os_transport.c\<close>), in the 64-bit arithmetic
  of the code, against a reference that cuts a chunk off the front until the rest fits.
\<close>

section \<open>The code\<close>

definition DEFAULT_CHUNK_SIZE :: u64 where "DEFAULT_CHUNK_SIZE = 2 * 1024 * 1024"

definition chunk_count :: "u32 \<Rightarrow> u64" where
  "chunk_count len = (ucast len + DEFAULT_CHUNK_SIZE - 1) div DEFAULT_CHUNK_SIZE"

definition chunk_at :: "u64 \<Rightarrow> u64 \<Rightarrow> u64 \<Rightarrow> u64 \<Rightarrow> chunk_info" where
  "chunk_at src_addr dst_addr remain_len i =
     \<lparr>ck_src = src_addr + i * DEFAULT_CHUNK_SIZE,
      ck_dst = dst_addr + i * DEFAULT_CHUNK_SIZE,
      ck_len = (if remain_len - i * DEFAULT_CHUNK_SIZE > DEFAULT_CHUNK_SIZE
                then ucast DEFAULT_CHUNK_SIZE
                else ucast (remain_len - i * DEFAULT_CHUNK_SIZE))\<rparr>"

text \<open>The loop that fills the array, from index i for n more elements.\<close>

fun fill_chunks :: "ptr \<Rightarrow> u64 \<Rightarrow> u64 \<Rightarrow> u64 \<Rightarrow> nat \<Rightarrow> nat \<Rightarrow> tmem \<Rightarrow> tmem option" where
  "fill_chunks chunks src_addr dst_addr remain_len i 0 m = Some m"
| "fill_chunks chunks src_addr dst_addr remain_len i (Suc n) m =
     do {
       m1 \<leftarrow> store_chunk chunks i (chunk_at src_addr dst_addr remain_len (of_nat i)) m;
       fill_chunks chunks src_addr dst_addr remain_len (Suc i) n m1
     }"

text \<open>
  The result code, and for 0 the array and the number of chunks (\<open>*ret_chunks\<close>,
  \<open>*ret_chunk_num\<close>; they are not written otherwise).
\<close>

definition common_split_chunks ::
    "u64 \<Rightarrow> u64 \<Rightarrow> u32 \<Rightarrow> tmem \<Rightarrow> ((u32 \<times> (ptr \<times> u64) option) \<times> tmem) option" where
  "common_split_chunks src_addr dst_addr len m =
     (let remain_len = ucast len :: u64;
          chunks_num = chunk_count len;
          (chunks, m1) = alloc_block (unat chunks_num) m
      in if chunks = NULL then Some ((minus_one32, None), m1)
         else do {
           m2 \<leftarrow> fill_chunks chunks src_addr dst_addr remain_len 0 (unat chunks_num) m1;
           Some ((0, Some (chunks, chunks_num)), m2)
         })"

text \<open>A pointer argument that may be NULL is an \<open>option\<close>.\<close>

definition send_split_chunks ::
    "ost_buffer_info option \<Rightarrow> ost_buffer_info option \<Rightarrow> u32 \<Rightarrow> tmem \<Rightarrow>
       ((u32 \<times> (ptr \<times> u64) option) \<times> tmem) option" where
  "send_split_chunks local_src remote_dst len m =
     (case (local_src, remote_dst) of
        (Some l, Some r) \<Rightarrow>
          if len = 0 then Some ((minus_one32, None), m)
          else common_split_chunks (ob_addr l) (ob_addr r) len m
      | _ \<Rightarrow> Some ((minus_one32, None), m))"

definition recv_split_chunks ::
    "ost_buffer_info option \<Rightarrow> ost_device_info option \<Rightarrow> u32 \<Rightarrow> tmem \<Rightarrow>
       ((u32 \<times> (ptr \<times> u64) option) \<times> tmem) option" where
  "recv_split_chunks host device len m =
     (case (host, device) of
        (Some h, Some d) \<Rightarrow>
          if len = 0 then Some ((minus_one32, None), m)
          else common_split_chunks (ob_addr h) (od_dst d) len m
      | _ \<Rightarrow> Some ((minus_one32, None), m))"

section \<open>The chunks of a request\<close>

abbreviation chunk_bytes :: nat where "chunk_bytes \<equiv> 2097152"

definition chunk_list :: "u64 \<Rightarrow> u64 \<Rightarrow> u32 \<Rightarrow> chunk_info list" where
  "chunk_list src_addr dst_addr len =
     map (\<lambda>i. chunk_at src_addr dst_addr (ucast len) (of_nat i)) [0..<unat (chunk_count len)]"

lemma chunk_size_unat [word_facts]: "unat DEFAULT_CHUNK_SIZE = chunk_bytes"
  by (simp add: DEFAULT_CHUNK_SIZE_def)

lemma unat_chunk_count: "unat (chunk_count len) = (unat len + 2097151) div chunk_bytes"
proof -
  have e: "DEFAULT_CHUNK_SIZE - 1 = 2097151" by (simp add: DEFAULT_CHUNK_SIZE_def)
  have "unat (ucast len + (DEFAULT_CHUNK_SIZE - 1)) = unat len + 2097151"
  proof -
    have "unat len + 2097151 < 18446744073709551616" using unat_less_u32 [of len] by linarith
    then show ?thesis
      using unat_add_lem [of "ucast len :: u64" "DEFAULT_CHUNK_SIZE - 1"] by (simp add: e word_facts)
  qed
  then show ?thesis
    by (simp only: chunk_count_def unat_div word_facts add_diff_eq)
qed

lemma chunk_count_bounds:
  assumes "i < unat (chunk_count len)"
  shows "i * chunk_bytes < unat len" "i < 2048"
proof -
  have "Suc i \<le> (unat len + 2097151) div chunk_bytes" using assms by (simp add: unat_chunk_count)
  then have "Suc i * chunk_bytes \<le> unat len + 2097151"
    by (metis div_times_less_eq_dividend le_trans mult_le_mono1)
  then show "i * chunk_bytes < unat len" by simp
  then show "i < 2048" using unat_less_u32 [of len] by simp
qed

lemma chunk_count_pos: "0 < unat (chunk_count len) \<longleftrightarrow> len \<noteq> 0"
  by (auto simp: unat_chunk_count div_greater_zero_iff Suc_le_eq unat_gt_0)

lemma chunk_offset:
  assumes "i < unat (chunk_count len)"
  shows "unat (of_nat i * DEFAULT_CHUNK_SIZE) = i * chunk_bytes"
    and "unat (ucast len - of_nat i * DEFAULT_CHUNK_SIZE :: u64) = unat len - i * chunk_bytes"
proof -
  note b = chunk_count_bounds [OF assms]
  have "of_nat i * DEFAULT_CHUNK_SIZE = of_nat (i * chunk_bytes)" by (simp add: DEFAULT_CHUNK_SIZE_def)
  then show 1: "unat (of_nat i * DEFAULT_CHUNK_SIZE) = i * chunk_bytes"
    using b(2) by (simp add: unat_of_nat64 del: of_nat_mult)
  show "unat (ucast len - of_nat i * DEFAULT_CHUNK_SIZE :: u64) = unat len - i * chunk_bytes"
    using b(1) 1 by (simp add: unat_sub word_le_nat_alt word_facts)
qed

lemma chunk_len:
  assumes "i < unat (chunk_count len)"
  shows "unat (ck_len (chunk_at s d (ucast len) (of_nat i))) = min chunk_bytes (unat len - i * chunk_bytes)"
proof -
  note o = chunk_offset [OF assms]
  show ?thesis
  proof (cases "unat len - i * chunk_bytes > chunk_bytes")
    case True
    then show ?thesis
      by (simp add: chunk_at_def word_less_nat_alt word_facts o(2))
  next
    case False
    then show ?thesis
      by (simp add: chunk_at_def word_less_nat_alt word_facts o(2))
  qed
qed

text \<open>What the loop leaves in the heap is the list of chunks.\<close>

lemma fill_chunks_spec:
  assumes "blocks m p = Some k" "i + n \<le> k"
    and "chunk_cells m = put_array p cs f" "length cs = i"
  shows "fill_chunks p src_addr dst_addr len i n m = Some (m\<lparr>chunk_cells := put_array p
     (cs @ map (\<lambda>j. chunk_at src_addr dst_addr len (of_nat j)) [i..<i + n]) f\<rparr>)"
  using assms
proof (induction n arbitrary: i cs m)
  case (Suc n)
  let ?c = "chunk_at src_addr dst_addr len (of_nat i)"
  let ?m = "m\<lparr>chunk_cells := (chunk_cells m)(p + i \<mapsto> ?c)\<rparr>"
  have c: "chunk_cells ?m = put_array p (cs @ [?c]) f"
    using Suc.prems(3,4) by (simp add: put_array_snoc)
  have "fill_chunks p src_addr dst_addr len (Suc i) n ?m = Some (?m\<lparr>chunk_cells := put_array p
     ((cs @ [?c]) @ map (\<lambda>j. chunk_at src_addr dst_addr len (of_nat j)) [Suc i..<Suc i + n]) f\<rparr>)"
    by (rule Suc.IH) (use Suc.prems c in simp_all)
  moreover have "[i..<i + Suc n] = i # [Suc i..<Suc i + n]" by (simp add: upt_conv_Cons)
  ultimately show ?case
    using Suc.prems(1,2) by (simp add: store_chunk_def in_block_def)
qed simp

lemma length_chunk_list [simp]: "length (chunk_list s d len) = unat (chunk_count len)"
  by (simp add: chunk_list_def)

lemma nth_chunk_list:
  "i < unat (chunk_count len) \<Longrightarrow> chunk_list s d len ! i = chunk_at s d (ucast len) (of_nat i)"
  by (simp add: chunk_list_def)

lemma common_split_chunks_ok:
  assumes "malloc_ok m (calls m)" "0 < brk m"
  shows "common_split_chunks s d len m = Some ((0, Some (brk m, chunk_count len)),
    m\<lparr>brk := brk m + max 1 (unat (chunk_count len)), calls := Suc (calls m),
      blocks := (blocks m)(brk m \<mapsto> unat (chunk_count len)),
      chunk_cells := put_array (brk m) (chunk_list s d len) (chunk_cells m)\<rparr>)"
proof -
  let ?n = "unat (chunk_count len)"
  let ?m = "m\<lparr>brk := brk m + max 1 ?n, calls := Suc (calls m), blocks := (blocks m)(brk m \<mapsto> ?n)\<rparr>"
  have a: "alloc_block ?n m = (brk m, ?m)"
    using assms by (simp add: alloc_block_def malloc_n_def)
  have "fill_chunks (brk m) s d (ucast len) 0 ?n ?m = Some (?m\<lparr>chunk_cells := put_array (brk m)
     ([] @ map (\<lambda>j. chunk_at s d (ucast len) (of_nat j)) [0..<0 + ?n]) (chunk_cells m)\<rparr>)"
    by (rule fill_chunks_spec [where k = ?n]) simp_all
  with a assms(2) show ?thesis by (simp add: common_split_chunks_def chunk_list_def Let_def)
qed

lemma common_split_chunks_fail:
  assumes "\<not> malloc_ok m (calls m)"
  shows "common_split_chunks s d len m = Some ((minus_one32, None), m\<lparr>calls := Suc (calls m)\<rparr>)"
  using assms by (simp add: common_split_chunks_def alloc_block_def malloc_n_def)

section \<open>The reference\<close>

text \<open>Cut 2 MiB off the front while more than that is left.\<close>

fun cut :: "u64 \<Rightarrow> u64 \<Rightarrow> nat \<Rightarrow> chunk_info list" where
  "cut s d n =
     (if n = 0 then []
      else if n \<le> chunk_bytes then [\<lparr>ck_src = s, ck_dst = d, ck_len = of_nat n\<rparr>]
      else \<lparr>ck_src = s, ck_dst = d, ck_len = of_nat chunk_bytes\<rparr> #
        cut (s + of_nat chunk_bytes) (d + of_nat chunk_bytes) (n - chunk_bytes))"

declare cut.simps [simp del]

lemma length_cut: "length (cut s d n) = (n + 2097151) div chunk_bytes"
proof (induction s d n rule: cut.induct)
  case (1 s d n)
  consider "n = 0" | "0 < n" "n \<le> chunk_bytes" | "chunk_bytes < n" by linarith
  then show ?case
  proof cases
    case 3
    then have "(n + 2097151) div chunk_bytes = Suc ((n - chunk_bytes + 2097151) div chunk_bytes)"
      by (simp add: le_div_geq)
    with 3 1 show ?thesis by (subst cut.simps) simp
  next
    case 2
    then have "(n + 2097151) div chunk_bytes = 1" by (intro div_nat_eqI) simp_all
    with 2 show ?thesis by (subst cut.simps) simp
  qed (simp add: cut.simps)
qed

lemma nth_cut:
  assumes "i < length (cut s d n)"
  shows "cut s d n ! i = \<lparr>ck_src = s + of_nat (i * chunk_bytes), ck_dst = d + of_nat (i * chunk_bytes),
    ck_len = of_nat (min chunk_bytes (n - i * chunk_bytes))\<rparr>"
  using assms
proof (induction s d n arbitrary: i rule: cut.induct)
  case (1 s d n)
  consider "n = 0" | "0 < n" "n \<le> chunk_bytes" | "chunk_bytes < n" by linarith
  then show ?case
  proof cases
    case 1
    with "1.prems" show ?thesis by (simp add: cut.simps)
  next
    case 2
    with "1.prems" show ?thesis by (simp add: cut.simps)
  next
    case 3
    note c = cut.simps [of s d n]
    show ?thesis
    proof (cases i)
      case 0
      with 3 show ?thesis by (simp add: c)
    next
      case (Suc j)
      have "j < length (cut (s + of_nat chunk_bytes) (d + of_nat chunk_bytes) (n - chunk_bytes))"
        using "1.prems" 3 Suc by (simp add: c)
      with "1.IH" 3 Suc show ?thesis by (simp add: c add.assoc)
    qed
  qed
qed

lemma chunk_list_cut: "chunk_list s d len = cut s d (unat len)"
proof (rule nth_equalityI)
  show l: "length (chunk_list s d len) = length (cut s d (unat len))"
    by (simp add: length_cut unat_chunk_count)
  fix i assume "i < length (chunk_list s d len)"
  then have i: "i < unat (chunk_count len)" by simp
  have e: "of_nat i * DEFAULT_CHUNK_SIZE = of_nat (i * chunk_bytes)" by (simp add: DEFAULT_CHUNK_SIZE_def)
  have "ck_len (chunk_at s d (ucast len) (of_nat i)) = of_nat (min chunk_bytes (unat len - i * chunk_bytes))"
    unfolding chunk_len [OF i, of s d, symmetric] by simp
  then have "chunk_at s d (ucast len) (of_nat i) = cut s d (unat len) ! i"
    using i l e by (simp add: nth_cut chunk_at_def)
  then show "chunk_list s d len ! i = cut s d (unat len) ! i" using i by (simp add: nth_chunk_list)
qed

lemma cut_total: "n < 2 ^ 32 \<Longrightarrow> sum_list (map (unat \<circ> ck_len) (cut s d n)) = n"
proof (induction s d n rule: cut.induct)
  case (1 s d n)
  then show ?case by (subst cut.simps) (auto simp: unat_of_nat comp_def)
qed

end
