(* ===== verification/UrmaPost.thy ===== *)
theory UrmaPost
  imports TransportMem
begin

text \<open>
  The work requests of \<open>src/os_transport_urma.c\<close> and the structures \<open>src/os_transport.c\<close> builds
  for them.  The URMA library and the CUDA runtime are parameters: a record \<open>'x ext\<close> of the
  functions the code calls, acting on a state \<open>'x\<close> of the devices, with the two status codes
  the code names.
\<close>

section \<open>Work requests\<close>

record urma_sge =
  sge_addr :: u64
  sge_len :: u32
  sge_tseg :: ptr

text \<open>A scatter-gather list (\<open>sge\<close> and \<open>num_sge\<close>) is the list of its elements.\<close>

type_synonym urma_sg = "urma_sge list"

datatype urma_opcode = URMA_OPC_WRITE_NOTIFY

record urma_jfs_wr =
  wr_opcode :: urma_opcode
  wr_complete_enable :: bool
  wr_inline_flag :: bool
  wr_tjetty :: ptr
  wr_user_ctx :: u64
  wr_src :: urma_sg
  wr_dst :: urma_sg
  wr_notify_data :: u64

record urma_jfr_wr =
  rwr_src :: urma_sg
  rwr_user_ctx :: u64

text \<open>
  The parameters: posting a work request on a send queue, on a jetty, on a receive queue;
  \<open>cudaMemcpyAsync\<close> (destination, source, length, stream) from host to device;
  \<open>cudaEventRecord\<close> (event, stream).
\<close>

record 'x ext =
  URMA_SUCCESS :: int
  URMA_FAIL :: int
  urma_post_jfs_wr :: "ptr \<Rightarrow> urma_jfs_wr \<Rightarrow> 'x \<Rightarrow> int \<times> 'x"
  urma_post_jetty_send_wr :: "ptr \<Rightarrow> urma_jfs_wr \<Rightarrow> 'x \<Rightarrow> int \<times> 'x"
  urma_post_jfr_wr :: "ptr \<Rightarrow> urma_jfr_wr \<Rightarrow> 'x \<Rightarrow> int \<times> 'x"
  cudaMemcpyAsync :: "u64 \<Rightarrow> u64 \<Rightarrow> u32 \<Rightarrow> ptr \<Rightarrow> 'x \<Rightarrow> int \<times> 'x"
  cudaEventRecord :: "ptr \<Rightarrow> ptr \<Rightarrow> 'x \<Rightarrow> 'x"

section \<open>Posting\<close>

definition write_wr :: "urma_write_info \<Rightarrow> chunk_info \<Rightarrow> urma_jfs_wr" where
  "write_wr wi ck =
     \<lparr>wr_opcode = URMA_OPC_WRITE_NOTIFY, wr_complete_enable = True, wr_inline_flag = False,
      wr_tjetty = wi_target_jfr wi, wr_user_ctx = wi_user_ctx_server wi,
      wr_src = [\<lparr>sge_addr = ck_src ck, sge_len = ck_len ck, sge_tseg = wi_src_tseg wi\<rparr>],
      wr_dst = [\<lparr>sge_addr = ck_dst ck, sge_len = ck_len ck, sge_tseg = wi_dst_tseg wi\<rparr>],
      wr_notify_data = wi_user_ctx_client wi\<rparr>"

definition urma_write_with_notify ::
    "'x ext \<Rightarrow> urma_write_info \<Rightarrow> chunk_info \<Rightarrow> 'x \<Rightarrow> int \<times> 'x" where
  "urma_write_with_notify e wi ck x =
     (let wr = write_wr wi ck in
      if wi_jfs wi \<noteq> NULL then urma_post_jfs_wr e (wi_jfs wi) wr x
      else if wi_jetty wi \<noteq> NULL then urma_post_jetty_send_wr e (wi_jetty wi) wr x
      else (URMA_FAIL e, x))"

definition recv_wr :: "urma_recv_info \<Rightarrow> chunk_info \<Rightarrow> urma_jfr_wr" where
  "recv_wr ri ck =
     \<lparr>rwr_src = [\<lparr>sge_addr = ck_src ck, sge_len = ck_len ck, sge_tseg = ri_local_tseg ri\<rparr>],
      rwr_user_ctx = ucast (ri_request_id ri)\<rparr>"

definition urma_recv_with_notify ::
    "'x ext \<Rightarrow> urma_recv_info \<Rightarrow> chunk_info \<Rightarrow> 'x \<Rightarrow> int \<times> 'x" where
  "urma_recv_with_notify e ri ck x =
     (let wr = recv_wr ri ck in
      if ri_jfr ri \<noteq> NULL then urma_post_jfr_wr e (ri_jfr ri) wr x else (URMA_FAIL e, x))"

section \<open>The arguments of a transfer\<close>

definition build_write_info ::
    "urma_jetty_info \<Rightarrow> ost_buffer_info \<Rightarrow> ost_buffer_info \<Rightarrow> u32 \<Rightarrow> u32 \<Rightarrow> u32 \<Rightarrow> urma_write_info" where
  "build_write_info ji local_src remote_dst len server_key client_key =
     \<lparr>wi_jfs = ji_jfs ji, wi_jetty = ji_jetty ji, wi_target_jfr = ji_tjetty ji,
      wi_dst_tseg = ob_tseg remote_dst, wi_src_tseg = ob_tseg local_src, wi_flag = 0,
      wi_user_ctx_server = user_data server_key NOT_SPLIT 0 len,
      wi_user_ctx_client = user_data client_key NOT_SPLIT 0 len\<rparr>"

definition send_single_chunk ::
    "'x ext \<Rightarrow> urma_jetty_info \<Rightarrow> ost_buffer_info \<Rightarrow> ost_buffer_info \<Rightarrow> u32 \<Rightarrow> u32 \<Rightarrow> u32 \<Rightarrow>
       'x \<Rightarrow> u32 \<times> 'x" where
  "send_single_chunk e ji local_src remote_dst len server_key client_key x =
     (let wi = build_write_info ji local_src remote_dst len server_key client_key;
          chunk = \<lparr>ck_src = ob_addr local_src, ck_dst = ob_addr remote_dst, ck_len = len\<rparr>;
          (st, x1) = urma_write_with_notify e wi chunk x
      in (if st \<noteq> URMA_SUCCESS e then minus_one32 else 0, x1))"

text \<open>The argument of a send task: the write info with the user data of its own chunk.\<close>

definition construct_send_task_arg ::
    "urma_write_info \<Rightarrow> ptr \<Rightarrow> chunk_info \<Rightarrow> u64 \<Rightarrow> bool \<Rightarrow> ptr \<Rightarrow> send_task_arg" where
  "construct_send_task_arg wi chunk_ptr ck chunk_id is_last_chunk sync =
     (let t = (if is_last_chunk then LAST_CHUNK else MIDDLE_CHUNK);
          server = user_data (ucast (bs_request_id (wi_user_ctx_server wi))) t chunk_id (ck_len ck);
          client = user_data (ucast (bs_request_id (wi_user_ctx_client wi))) t chunk_id (ck_len ck)
      in \<lparr>sa_sync = sync, sa_chunk_info = chunk_ptr, sa_is_last_chunk = is_last_chunk,
          sa_write_info = wi\<lparr>wi_user_ctx_server := server, wi_user_ctx_client := client\<rparr>\<rparr>)"

definition construct_recv_task_arg :: "urma_recv_info \<Rightarrow> ptr \<Rightarrow> bool \<Rightarrow> ptr \<Rightarrow> recv_task_arg" where
  "construct_recv_task_arg ri chunk_ptr is_last_chunk sync =
     \<lparr>ra_sync = sync, ra_chunk_info = chunk_ptr, ra_is_last_chunk = is_last_chunk, ra_recv_info = ri\<rparr>"

definition construct_worker_task :: "u64 \<Rightarrow> u32 \<Rightarrow> task_fn \<Rightarrow> ptr \<Rightarrow> ThreadPoolTask" where
  "construct_worker_task new_id req_id func arg =
     \<lparr>task_id = new_id, request_id = req_id, task_func = func, task_arg = arg,
      is_completed = False, free_task_self = False\<rparr>"

section \<open>Completions\<close>

datatype cr_opcode = URMA_CR_OPC_SEND | URMA_CR_OPC_WRITE_WITH_IMM | URMA_CR_OPC_OTHER nat

record urma_cr =
  cr_opc :: cr_opcode
  cr_imm_data :: u64
  cr_user_ctx :: u64

text \<open>The request a completion belongs to; \<open>None\<close> for an opcode the code does not handle.\<close>

definition cr_request_id :: "urma_cr \<Rightarrow> u32 option" where
  "cr_request_id cr =
     (case cr_opc cr of
        URMA_CR_OPC_WRITE_WITH_IMM \<Rightarrow> Some (ucast (bs_request_id (cr_imm_data cr)))
      | URMA_CR_OPC_SEND \<Rightarrow> Some (ucast (bs_request_id (cr_user_ctx cr)))
      | URMA_CR_OPC_OTHER _ \<Rightarrow> None)"

text \<open>
  The work request a send task posts carries the keys of the transfer in both words, whatever
  the chunk: the completion on either side leads back to the request it was made for.
\<close>

lemma send_task_wr:
  assumes "a = construct_send_task_arg (build_write_info ji l r len0 server_key client_key)
    cp ck i fin sync"
  shows "write_wr (sa_write_info a) ck =
    \<lparr>wr_opcode = URMA_OPC_WRITE_NOTIFY, wr_complete_enable = True, wr_inline_flag = False,
     wr_tjetty = ji_tjetty ji,
     wr_user_ctx = user_data server_key (if fin then LAST_CHUNK else MIDDLE_CHUNK) i (ck_len ck),
     wr_src = [\<lparr>sge_addr = ck_src ck, sge_len = ck_len ck, sge_tseg = ob_tseg l\<rparr>],
     wr_dst = [\<lparr>sge_addr = ck_dst ck, sge_len = ck_len ck, sge_tseg = ob_tseg r\<rparr>],
     wr_notify_data = user_data client_key (if fin then LAST_CHUNK else MIDDLE_CHUNK) i (ck_len ck)\<rparr>"
  by (simp add: assms construct_send_task_arg_def build_write_info_def write_wr_def Let_def
      ucast_request_id)

lemma cr_of_wr:
  "cr_request_id \<lparr>cr_opc = URMA_CR_OPC_SEND, cr_imm_data = v, cr_user_ctx = user_data key t i n\<rparr> = Some key"
  "cr_request_id \<lparr>cr_opc = URMA_CR_OPC_WRITE_WITH_IMM, cr_imm_data = user_data key t i n, cr_user_ctx = v\<rparr>
     = Some key"
  by (simp_all add: cr_request_id_def ucast_request_id)

end
