(* ===== verification/Requests.thy ===== *)
theory Requests
  imports ThreadPool Chunking UrmaPost
begin

text \<open>
  Task groups and synchronisation objects of \<open>src/os_transport.c\<close>: allocation and release, the
  registration of one task per chunk with the thread pool, the functions the workers run, and
  the waiting of the application.
\<close>

section \<open>Allocation and release\<close>

text \<open>\<open>alloc_task_group\<close>: the group, or NULL where the code returns -1.\<close>

definition alloc_task_group :: "u64 \<Rightarrow> tmem \<Rightarrow> (ptr \<times> tmem) option" where
  "alloc_task_group task_num m =
     (if task_num = 0 then Some (NULL, m)
      else
        let (g, m1) = malloc1 m in
        if g = NULL then Some (NULL, m1)
        else
          let m2 = m1\<lparr>groups := (groups m1)(g \<mapsto>
                \<lparr>tg_tasks = NULL, tg_task_args = NULL, tg_task_num = 0\<rparr>)\<rparr>;
              (tks, m3) = alloc_block (unat task_num) m2;
              (args, m4) = alloc_block (unat task_num) m3
          in if tks = NULL \<or> args = NULL
             then do {
               m5 \<leftarrow> free_block args m4;
               m6 \<leftarrow> free_block tks m5;
               m7 \<leftarrow> free_group g m6;
               Some (NULL, m7)
             }
             else Some (g, m4\<lparr>groups := (groups m4)(g \<mapsto>
               \<lparr>tg_tasks = tks, tg_task_args = args, tg_task_num = ucast task_num\<rparr>)\<rparr>))"

text \<open>A call of \<open>pthread_mutex_init\<close> or \<open>pthread_cond_init\<close>.\<close>

definition pthread_init :: "tmem \<Rightarrow> int \<times> tmem" where
  "pthread_init m = (init_ret m (inits m), m\<lparr>inits := Suc (inits m)\<rparr>)"

text \<open>\<open>init_task_sync\<close>: the object, or NULL where the code returns -1.\<close>

definition init_task_sync :: "tmem \<Rightarrow> (ptr \<times> tmem) option" where
  "init_task_sync m =
     (let (sync, m1) = malloc1 m in
      if sync = NULL then Some (NULL, m1)
      else
        let m2 = m1\<lparr>syncs := (syncs m1)(sync \<mapsto>
              \<lparr>ts_request_completed = 0, ts_total_tasks = 0, ts_completed_tasks = 0,
               ts_task_group = NULL, ts_chunks = NULL\<rparr>)\<rparr>;
            (ret, m3) = pthread_init m2
        in if ret \<noteq> 0 then do { m4 \<leftarrow> free_sync sync m3; Some (NULL, m4) }
           else
             let (ret', m4) = pthread_init m3
             in if ret' \<noteq> 0 then do { m5 \<leftarrow> free_sync sync m4; Some (NULL, m5) }
                else Some (sync, m4))"

definition release_group :: "ptr \<Rightarrow> tmem \<Rightarrow> tmem option" where
  "release_group g m =
     do {
       grp \<leftarrow> groups m g;
       m1 \<leftarrow> free_block (tg_task_args grp) m;
       m2 \<leftarrow> free_block (tg_tasks grp) m1;
       free_group g m2
     }"

definition free_task_group_resource :: "ptr \<Rightarrow> tmem \<Rightarrow> tmem option" where
  "free_task_group_resource sync m =
     (if sync = NULL then Some m
      else do {
        s \<leftarrow> syncs m sync;
        if ts_task_group s = NULL then Some m
        else do {
          m1 \<leftarrow> release_group (ts_task_group s) m;
          Some (m1\<lparr>syncs := (syncs m1)(sync \<mapsto> s\<lparr>ts_task_group := NULL\<rparr>)\<rparr>)
        }
      })"

definition free_sync_owned_resources :: "ptr \<Rightarrow> tmem \<Rightarrow> tmem option" where
  "free_sync_owned_resources sync m =
     (if sync = NULL then Some m
      else do {
        m1 \<leftarrow> free_task_group_resource sync m;
        s \<leftarrow> syncs m1 sync;
        m2 \<leftarrow> free_block (ts_chunks s) m1;
        free_sync sync (m2\<lparr>syncs := (syncs m2)(sync \<mapsto> s\<lparr>ts_chunks := NULL\<rparr>)\<rparr>)
      })"

section \<open>Completion\<close>

definition mark_task_group_completed :: "ptr \<Rightarrow> bool \<Rightarrow> tmem \<Rightarrow> tmem option" where
  "mark_task_group_completed sync task_success m =
     (if sync = NULL then Some m
      else do {
        s \<leftarrow> syncs m sync;
        if \<not> task_success
        then Some (m\<lparr>syncs := (syncs m)(sync \<mapsto> s\<lparr>ts_request_completed := 1\<rparr>)\<rparr>)
        else
          let s1 = s\<lparr>ts_completed_tasks := ts_completed_tasks s + 1\<rparr>;
              s2 = (if ts_completed_tasks s1 = ts_total_tasks s1
                    then s1\<lparr>ts_request_completed := 1\<rparr> else s1)
          in Some (m\<lparr>syncs := (syncs m)(sync \<mapsto> s2)\<rparr>)
      })"

text \<open>A call that may still be waiting on a condition variable.\<close>

datatype 'a waiting = Waiting | Returned 'a

definition wait_for_task_complete :: "ptr \<Rightarrow> tmem \<Rightarrow> u32 waiting option" where
  "wait_for_task_complete sync m =
     (if sync = NULL then Some (Returned minus_one32)
      else do {
        s \<leftarrow> syncs m sync;
        Some (if ts_request_completed s = 0 then Waiting
              else if ts_completed_tasks s \<noteq> ts_total_tasks s then Returned minus_one32
              else Returned 0)
      })"

section \<open>What the workers run\<close>

definition do_send_chunk_for_worker ::
    "'x ext \<Rightarrow> urma_write_info \<Rightarrow> ptr \<Rightarrow> tmem \<times> 'x \<Rightarrow> (int \<times> 'x) option" where
  "do_send_chunk_for_worker e wi chunk_ptr = (\<lambda>(m, x).
     do { ck \<leftarrow> chunk_cells m chunk_ptr; Some (urma_write_with_notify e wi ck x) })"

definition do_recv_chunk_for_worker ::
    "'x ext \<Rightarrow> urma_recv_info \<Rightarrow> ptr \<Rightarrow> tmem \<times> 'x \<Rightarrow> (int \<times> 'x) option" where
  "do_recv_chunk_for_worker e ri chunk_ptr = (\<lambda>(m, x).
     do {
       ck \<leftarrow> chunk_cells m chunk_ptr;
       Some (cudaMemcpyAsync e (ck_dst ck) (ck_src ck) (ck_len ck) (od_stream (ri_device_info ri)) x)
     })"

definition send_task_worker_func ::
    "'x ext \<Rightarrow> ptr \<Rightarrow> tmem \<times> 'x \<Rightarrow> (int \<times> tmem \<times> 'x) option" where
  "send_task_worker_func e arg = (\<lambda>(m, x).
     case arg_cells m arg of
       Some (Send_arg a) \<Rightarrow> do {
         (ret, x1) \<leftarrow> do_send_chunk_for_worker e (sa_write_info a) (sa_chunk_info a) (m, x);
         m1 \<leftarrow> mark_task_group_completed (sa_sync a) (ret = 0) m;
         Some (ret, m1, x1)
       }
     | _ \<Rightarrow> None)"

definition recv_task_worker_func ::
    "'x ext \<Rightarrow> ptr \<Rightarrow> tmem \<times> 'x \<Rightarrow> (int \<times> tmem \<times> 'x) option" where
  "recv_task_worker_func e arg = (\<lambda>(m, x).
     case arg_cells m arg of
       Some (Recv_arg a) \<Rightarrow> do {
         (ret, x1) \<leftarrow> do_recv_chunk_for_worker e (ra_recv_info a) (ra_chunk_info a) (m, x);
         m1 \<leftarrow> mark_task_group_completed (ra_sync a) (ret = 0) m;
         let d = ri_device_info (ra_recv_info a);
         Some (ret, m1, if ra_is_last_chunk a then cudaEventRecord e (od_event d) (od_stream d) x1 else x1)
       }
     | _ \<Rightarrow> None)"

text \<open>
  The environment the thread pool runs in: the only tasks the transport submits are its two
  worker functions, without completion callbacks.
\<close>

fun transport_exec :: "'x ext \<Rightarrow> task_fn \<Rightarrow> ptr \<Rightarrow> tmem \<times> 'x \<Rightarrow> (int \<times> tmem \<times> 'x) option" where
  "transport_exec e send_task_worker_func_fn arg s = send_task_worker_func e arg s"
| "transport_exec e recv_task_worker_func_fn arg s = recv_task_worker_func e arg s"
| "transport_exec e _ arg s = None"

definition transport_env :: "'x ext \<Rightarrow> (tmem \<times> 'x) env" where
  "transport_env e = \<lparr>exec = transport_exec e, callback = (\<lambda>_ _ _ _ _. None)\<rparr>"

section \<open>Registration\<close>

text \<open>The loop of \<open>register_send_tasks\<close>, from index i for n more tasks.\<close>

fun send_task_loop ::
    "ptr \<Rightarrow> u64 \<Rightarrow> task_fn \<Rightarrow> urma_write_info \<Rightarrow> ptr \<Rightarrow> task_group \<Rightarrow> nat \<Rightarrow> nat \<Rightarrow> tmem \<Rightarrow> tmem option" where
  "send_task_loop chunks chunk_num func wi sync g i 0 m = Some m"
| "send_task_loop chunks chunk_num func wi sync g i (Suc n) m =
     do {
       let chunk_idx = of_nat i + 1;
       let is_last_chunk = (chunk_idx = chunk_num - 1);
       let req_id = ucast (bs_request_id (wi_user_ctx_server wi));
       let chunk_ptr = chunks + unat chunk_idx;
       ck \<leftarrow> chunk_cells m chunk_ptr;
       m1 \<leftarrow> store_arg (tg_task_args g) i
               (Send_arg (construct_send_task_arg wi chunk_ptr ck chunk_idx is_last_chunk sync)) m;
       m2 \<leftarrow> store_task (tg_tasks g) i
               (construct_worker_task chunk_idx req_id func (tg_task_args g + i)) m1;
       send_task_loop chunks chunk_num func wi sync g (Suc i) n m2
     }"

fun recv_task_loop ::
    "ptr \<Rightarrow> u64 \<Rightarrow> task_fn \<Rightarrow> urma_recv_info \<Rightarrow> ptr \<Rightarrow> task_group \<Rightarrow> nat \<Rightarrow> nat \<Rightarrow> tmem \<Rightarrow> tmem option" where
  "recv_task_loop chunks chunk_num func ri sync g i 0 m = Some m"
| "recv_task_loop chunks chunk_num func ri sync g i (Suc n) m =
     do {
       let is_last_chunk = ((of_nat i :: u64) = chunk_num - 1);
       m1 \<leftarrow> store_arg (tg_task_args g) i
               (Recv_arg (construct_recv_task_arg ri (chunks + i) is_last_chunk sync)) m;
       m2 \<leftarrow> store_task (tg_tasks g) i
               (construct_worker_task (of_nat i) (ri_request_id ri) func (tg_task_args g + i)) m1;
       recv_task_loop chunks chunk_num func ri sync g (Suc i) n m2
     }"

text \<open>
  The end both functions share: submission of the batch, release of the id array, and the group
  stored in the synchronisation object, or the group released again.
\<close>

definition submit_group :: "ptr \<Rightarrow> ptr \<Rightarrow> u64 \<Rightarrow> pool \<times> tmem \<Rightarrow> (int \<times> pool \<times> tmem) option" where
  "submit_group sync g task_num = (\<lambda>(p, m).
     do {
       grp \<leftarrow> groups m g;
       ts \<leftarrow> read_array (task_cells m) (tg_tasks grp) (unat (ucast task_num :: u32));
       (ids, p1) \<leftarrow> thread_pool_submit_batch_tasks p ts NULL NULL NULL NULL;
       if ids = NULL
       then do { m1 \<leftarrow> release_group g m; Some (-1, p1, m1) }
       else do {
         pm \<leftarrow> free_id_array ids (pmem p1);
         s \<leftarrow> syncs m sync;
         Some (0, p1\<lparr>pmem := pm\<rparr>, m\<lparr>syncs := (syncs m)(sync \<mapsto> s\<lparr>ts_task_group := g\<rparr>)\<rparr>)
       }
     })"

definition set_total_tasks :: "ptr \<Rightarrow> u64 \<Rightarrow> tmem \<Rightarrow> tmem option" where
  "set_total_tasks sync n m =
     do { s \<leftarrow> syncs m sync; Some (m\<lparr>syncs := (syncs m)(sync \<mapsto> s\<lparr>ts_total_tasks := n\<rparr>)\<rparr>) }"

text \<open>
  The part both functions share: the group, the total of the synchronisation object, the loop
  over the tasks, the submission.
\<close>

definition register_group ::
    "(task_group \<Rightarrow> tmem \<Rightarrow> tmem option) \<Rightarrow> u64 \<Rightarrow> ptr \<Rightarrow> pool \<times> tmem \<Rightarrow> (int \<times> pool \<times> tmem) option" where
  "register_group fill task_num sync = (\<lambda>(p, m).
     do {
       (g, m1) \<leftarrow> alloc_task_group task_num m;
       if g = NULL then Some (-1, p, m1)
       else do {
         grp \<leftarrow> groups m1 g;
         m2 \<leftarrow> set_total_tasks sync task_num m1;
         m3 \<leftarrow> fill grp m2;
         submit_group sync g task_num (p, m3)
       }
     })"

definition register_send_tasks ::
    "ptr \<Rightarrow> u64 \<Rightarrow> task_fn \<Rightarrow> urma_write_info \<Rightarrow> ptr \<Rightarrow> pool \<times> tmem \<Rightarrow> (int \<times> pool \<times> tmem) option" where
  "register_send_tasks chunks chunk_num func wi sync = (\<lambda>(p, m).
     let task_num = chunk_num - 1 in
     if chunk_num < 2 then Some (-1, p, m)
     else register_group (\<lambda>grp. send_task_loop chunks chunk_num func wi sync grp 0 (unat task_num))
            task_num sync (p, m))"

definition register_recv_tasks ::
    "ptr \<Rightarrow> u64 \<Rightarrow> task_fn \<Rightarrow> urma_recv_info \<Rightarrow> ptr \<Rightarrow> pool \<times> tmem \<Rightarrow> (int \<times> pool \<times> tmem) option" where
  "register_recv_tasks chunks chunk_num func ri sync =
     register_group (\<lambda>grp. recv_task_loop chunks chunk_num func ri sync grp 0 (unat chunk_num))
       chunk_num sync"

text \<open>
  \<open>construct_and_register_worker_task\<close>: the synchronisation object, or NULL where the code
  returns -1.  Reading the member of \<open>urma_info\<close> that was not stored is outside the model.
\<close>

definition register_by_type ::
    "ptr \<Rightarrow> u64 \<Rightarrow> task_type \<Rightarrow> task_fn \<Rightarrow> urma_info \<Rightarrow> ptr \<Rightarrow> pool \<times> tmem \<Rightarrow>
       (int \<times> pool \<times> tmem) option" where
  "register_by_type chunks chunk_num kd func ui sync = (\<lambda>(p, m).
     case (kd, ui) of
       (SEND_TASK, Write_info wi) \<Rightarrow> register_send_tasks chunks chunk_num func wi sync (p, m)
     | (RECV_TASK, Recv_info ri) \<Rightarrow> register_recv_tasks chunks chunk_num func ri sync (p, m)
     | (NULL_TASK, _) \<Rightarrow> Some (-1, p, m)
     | _ \<Rightarrow> None)"

definition construct_and_register_worker_task ::
    "ptr \<Rightarrow> u64 \<Rightarrow> task_type \<Rightarrow> task_fn \<Rightarrow> urma_info \<Rightarrow> pool \<times> tmem \<Rightarrow>
       (ptr \<times> pool \<times> tmem) option" where
  "construct_and_register_worker_task chunks chunk_num kd func ui = (\<lambda>(p, m).
     if chunks = NULL \<or> chunk_num = 0 then Some (NULL, p, m)
     else do {
       (sync, m1) \<leftarrow> init_task_sync m;
       if sync = NULL then Some (NULL, p, m1)
       else do {
         (ret, p1, m2) \<leftarrow> register_by_type chunks chunk_num kd func ui sync (p, m1);
         if ret \<noteq> 0 then do { m3 \<leftarrow> free_sync sync m2; Some (NULL, p1, m3) }
         else Some (sync, p1, m2)
       }
     })"

definition register_tasks_and_bind_chunks ::
    "ptr \<Rightarrow> u64 \<Rightarrow> task_type \<Rightarrow> task_fn \<Rightarrow> urma_info \<Rightarrow> pool \<times> tmem \<Rightarrow>
       (ptr \<times> pool \<times> tmem) option" where
  "register_tasks_and_bind_chunks chunks chunk_num kd func ui = (\<lambda>(p, m).
     do {
       (sync, p1, m1) \<leftarrow> construct_and_register_worker_task chunks chunk_num kd func ui (p, m);
       if sync = NULL then Some (NULL, p1, m1)
       else do {
         s \<leftarrow> syncs m1 sync;
         Some (sync, p1, m1\<lparr>syncs := (syncs m1)(sync \<mapsto> s\<lparr>ts_chunks := chunks\<rparr>)\<rparr>)
       }
     })"

end
