(* ===== verification/Transport.thy ===== *)
theory Transport
  imports Requests
begin

text \<open>
  The API of the transport (\<open>include/os_transport.h\<close>, \<open>src/os_transport.c\<close>): initialisation,
  send, receive, the completion handler, waiting for a request, destruction; and the turns of
  the worker threads of its pool.  The state is the global flag, the handles, the heap of the
  transport, and the state \<open>'x\<close> of the devices.  A handle that owns a pool holds it
  (\<open>oh_thread_pool\<close>); \<open>pheap\<close> is the heap of the pool's objects while there is no pool.

  A pointer argument that may be NULL is an \<open>option\<close>, an address to store a result at a bool
  (whether it was given); what the code stores there is a second result.
\<close>

section \<open>State\<close>

record os_transport_handle =
  oh_urma_ctx :: ptr
  oh_worker_thread_num :: u32
  oh_event_mode :: bool
  oh_thread_pool :: "pool option"

record os_transport_cfg =
  cfg_event_mode :: bool
  cfg_worker_thread_num :: u32
  cfg_jfce :: ptr
  cfg_jfc :: ptr

record 'x ost =
  g_inited :: bool
  handles :: "ptr \<Rightarrow> os_transport_handle option"
  theap :: tmem
  pheap :: mem
  dev :: 'x

definition get_pool :: "ptr \<Rightarrow> 'x ost \<Rightarrow> pool option" where
  "get_pool h st = do { oh \<leftarrow> handles st h; oh_thread_pool oh }"

definition set_pool :: "ptr \<Rightarrow> pool option \<Rightarrow> 'x ost \<Rightarrow> 'x ost option" where
  "set_pool h p st =
     do { oh \<leftarrow> handles st h; Some (st\<lparr>handles := (handles st)(h \<mapsto> oh\<lparr>oh_thread_pool := p\<rparr>)\<rparr>) }"

definition free_handle :: "ptr \<Rightarrow> 'x ost \<Rightarrow> 'x ost option" where
  "free_handle h st = do { _ \<leftarrow> handles st h; Some (st\<lparr>handles := (handles st)(h := None)\<rparr>) }"

section \<open>Initialisation and destruction\<close>

definition update_jfc_for_poll :: "ptr \<Rightarrow> ptr \<Rightarrow> bool \<Rightarrow> pool \<Rightarrow> pool" where
  "update_jfc_for_poll jfce jfc event_mode p =
     p\<lparr>urma_jfce := jfce, urma_jfc := jfc, urma_event_mode := event_mode\<rparr>"

definition os_transport_reg_jfc :: "ptr \<Rightarrow> ptr \<Rightarrow> ptr \<Rightarrow> 'x ost \<Rightarrow> (u32 \<times> 'x ost) option" where
  "os_transport_reg_jfc jfce jfc h st =
     (if \<not> g_inited st then Some (minus_one32, st)
      else if h = NULL then Some (minus_one32, st)
      else do {
        oh \<leftarrow> handles st h;
        p \<leftarrow> oh_thread_pool oh;
        st1 \<leftarrow> set_pool h (Some (update_jfc_for_poll jfce jfc (oh_event_mode oh) p)) st;
        Some (0, st1)
      })"

text \<open>\<open>thread_pool_destroy\<close> on the pool of a handle, which then is NULL.\<close>

definition destroy_pool :: "'x ext \<Rightarrow> ptr \<Rightarrow> pool \<Rightarrow> 'x ost \<Rightarrow> 'x ost option" where
  "destroy_pool e h p st =
     do {
       (pm, m, x) \<leftarrow> thread_pool_destroy (transport_env e) (p, theap st, dev st);
       set_pool h None (st\<lparr>pheap := pm, theap := m, dev := x\<rparr>)
     }"

definition init_fail :: "ptr \<Rightarrow> 'x ost \<Rightarrow> ((u32 \<times> ptr) \<times> 'x ost) option" where
  "init_fail h st = do { st1 \<leftarrow> free_handle h (st\<lparr>g_inited := False\<rparr>); Some ((minus_one32, NULL), st1) }"

definition os_transport_init ::
    "'x ext \<Rightarrow> (nat \<Rightarrow> int \<times> u64) \<Rightarrow> bool \<Rightarrow> ptr \<Rightarrow> os_transport_cfg option \<Rightarrow> bool \<Rightarrow> 'x ost \<Rightarrow>
       ((u32 \<times> ptr) \<times> 'x ost) option" where
  "os_transport_init e pthread_create calloc_ok urma_ctx ost_cfg out st =
     (case ost_cfg of None \<Rightarrow> Some ((minus_one32, NULL), st) | Some cfg \<Rightarrow>
      if \<not> out then Some ((minus_one32, NULL), st)
      else if g_inited st then Some ((minus_one32, NULL), st)
      else
        let (h, m) = malloc1 (theap st); st0 = st\<lparr>theap := m\<rparr> in
        if h = NULL then Some ((minus_one32, NULL), st0)
        else do {
          let st1 = st0\<lparr>handles := (handles st0)(h \<mapsto>
                \<lparr>oh_urma_ctx = urma_ctx, oh_worker_thread_num = cfg_worker_thread_num cfg,
                 oh_event_mode = cfg_event_mode cfg, oh_thread_pool = None\<rparr>), g_inited := True\<rparr>;
          (r, m1, x1) \<leftarrow> thread_pool_init (transport_env e) pthread_create calloc_ok (pheap st1)
                           (theap st1, dev st1);
          let st2 = st1\<lparr>theap := m1, dev := x1\<rparr>;
          case r of
            Inl pm \<Rightarrow> init_fail h (st2\<lparr>pheap := pm\<rparr>)
          | Inr p \<Rightarrow> do {
              st3 \<leftarrow> set_pool h (Some p) st2;
              (ret, st4) \<leftarrow> os_transport_reg_jfc (cfg_jfce cfg) (cfg_jfc cfg) h st3;
              if ret \<noteq> 0 then init_fail h st4
              else do {
                p1 \<leftarrow> get_pool h st4;
                let (v, p2) = thread_pool_start p1;
                st5 \<leftarrow> set_pool h (Some p2) st4;
                if v \<noteq> 0
                then do { st6 \<leftarrow> destroy_pool e h p2 st5; init_fail h st6 }
                else Some ((0, h), st5)
              }
            }
        })"

definition os_transport_destroy :: "'x ext \<Rightarrow> ptr \<Rightarrow> 'x ost \<Rightarrow> (u32 \<times> 'x ost) option" where
  "os_transport_destroy e h st =
     (if h = NULL then Some (minus_one32, st)
      else if \<not> g_inited st then Some (minus_one32, st)
      else do {
        oh \<leftarrow> handles st h;
        st1 \<leftarrow> (case oh_thread_pool oh of None \<Rightarrow> Some st | Some p \<Rightarrow> destroy_pool e h p st);
        st2 \<leftarrow> free_handle h (st1\<lparr>g_inited := False\<rparr>);
        Some (0, st2)
      })"

section \<open>Sending and receiving\<close>

definition validate_send_input ::
    "ptr \<Rightarrow> urma_jetty_info option \<Rightarrow> ost_buffer_info option \<Rightarrow> ost_buffer_info option \<Rightarrow> u32 \<Rightarrow>
       bool \<Rightarrow> 'x ost \<Rightarrow> int" where
  "validate_send_input h ji local_src remote_dst len out st =
     (if h = NULL \<or> ji = None \<or> local_src = None \<or> remote_dst = None \<or> \<not> out \<or> len = 0 then -1
      else if \<not> g_inited st then -1 else 0)"

definition validate_recv_input ::
    "ptr \<Rightarrow> ost_buffer_info option \<Rightarrow> ost_device_info option \<Rightarrow> u32 \<Rightarrow> bool \<Rightarrow> 'x ost \<Rightarrow> int" where
  "validate_recv_input h host_src device_dst len out st =
     (if h = NULL \<or> host_src = None \<or> device_dst = None \<or> \<not> out \<or> len = 0 then -1
      else if \<not> g_inited st then -1 else 0)"

text \<open>Marking the request completed when a post of the calling thread failed.\<close>

definition complete_request :: "ptr \<Rightarrow> 'x ost \<Rightarrow> 'x ost option" where
  "complete_request sync st =
     do {
       s \<leftarrow> syncs (theap st) sync;
       Some (st\<lparr>theap := (theap st)\<lparr>syncs := (syncs (theap st))(sync \<mapsto>
         s\<lparr>ts_request_completed := 1\<rparr>)\<rparr>\<rparr>)
     }"

text \<open>
  Registration on the pool of a handle; an error also releases the chunks, as both callers do.
\<close>

definition register_on_handle ::
    "ptr \<Rightarrow> ptr \<Rightarrow> u64 \<Rightarrow> task_type \<Rightarrow> task_fn \<Rightarrow> urma_info \<Rightarrow> 'x ost \<Rightarrow> (ptr \<times> 'x ost) option" where
  "register_on_handle h chunks chunks_num kd func ui st =
     do {
       p \<leftarrow> get_pool h st;
       (sync, p1, m1) \<leftarrow> register_tasks_and_bind_chunks chunks chunks_num kd func ui (p, theap st);
       st1 \<leftarrow> set_pool h (Some p1) st;
       if sync = NULL
       then do { m2 \<leftarrow> free_block chunks m1; Some (NULL, st1\<lparr>theap := m2\<rparr>) }
       else Some (sync, st1\<lparr>theap := m1\<rparr>)
     }"

definition os_transport_send ::
    "'x ext \<Rightarrow> ptr \<Rightarrow> urma_jetty_info option \<Rightarrow> ost_buffer_info option \<Rightarrow> ost_buffer_info option \<Rightarrow>
       u32 \<Rightarrow> u32 \<Rightarrow> u32 \<Rightarrow> bool \<Rightarrow> 'x ost \<Rightarrow> ((u32 \<times> ptr) \<times> 'x ost) option" where
  "os_transport_send e h ji local_src remote_dst len server_key client_key out st =
     (if validate_send_input h ji local_src remote_dst len out st \<noteq> 0
      then Some ((minus_one32, NULL), st)
      else if ucast len \<le> DEFAULT_CHUNK_SIZE
      then
        let (ret, x) = send_single_chunk e (the ji) (the local_src) (the remote_dst) len
              server_key client_key (dev st)
        in Some ((ret, NULL), st\<lparr>dev := x\<rparr>)
      else do {
        ((ret, res), m1) \<leftarrow> send_split_chunks local_src remote_dst len (theap st);
        case res of None \<Rightarrow> Some ((minus_one32, NULL), st\<lparr>theap := m1\<rparr>) | Some (chunks, chunks_num) \<Rightarrow>
        do {
          c0 \<leftarrow> chunk_cells m1 chunks;
          let wi = build_write_info (the ji) (the local_src) (the remote_dst) (ck_len c0)
                     server_key client_key;
          (sync, st2) \<leftarrow> register_on_handle h chunks chunks_num SEND_TASK send_task_worker_func_fn
                           (Write_info wi) (st\<lparr>theap := m1\<rparr>);
          if sync = NULL then Some ((minus_one32, NULL), st2)
          else do {
            c0' \<leftarrow> chunk_cells (theap st2) chunks;
            let (status, x) = urma_write_with_notify e wi c0' (dev st2);
            let st3 = st2\<lparr>dev := x\<rparr>;
            if status \<noteq> URMA_SUCCESS e
            then do { st4 \<leftarrow> complete_request sync st3; Some ((minus_one32, sync), st4) }
            else Some ((0, sync), st3)
          }
        }
      })"

text \<open>Posting a receive for every chunk, from index i for n more; false after a failed post.\<close>

fun recv_post_loop ::
    "'x ext \<Rightarrow> urma_recv_info \<Rightarrow> ptr \<Rightarrow> nat \<Rightarrow> nat \<Rightarrow> tmem \<Rightarrow> 'x \<Rightarrow> (bool \<times> 'x) option" where
  "recv_post_loop e ri chunks i 0 m x = Some (True, x)"
| "recv_post_loop e ri chunks i (Suc n) m x =
     do {
       ck \<leftarrow> chunk_cells m (chunks + i);
       let (status, x1) = urma_recv_with_notify e ri ck x;
       if status \<noteq> URMA_SUCCESS e then Some (False, x1)
       else recv_post_loop e ri chunks (Suc i) n m x1
     }"

definition os_transport_recv ::
    "'x ext \<Rightarrow> ptr \<Rightarrow> ost_buffer_info option \<Rightarrow> ost_device_info option \<Rightarrow> u32 \<Rightarrow> u32 \<Rightarrow> bool \<Rightarrow>
       'x ost \<Rightarrow> ((u32 \<times> ptr) \<times> 'x ost) option" where
  "os_transport_recv e h host_src device_dst len client_key out st =
     (if validate_recv_input h host_src device_dst len out st \<noteq> 0
      then Some ((minus_one32, NULL), st)
      else do {
        ((ret, res), m1) \<leftarrow> recv_split_chunks host_src device_dst len (theap st);
        case res of None \<Rightarrow> Some ((minus_one32, NULL), st\<lparr>theap := m1\<rparr>) | Some (chunks, chunks_num) \<Rightarrow>
        do {
          let ri = \<lparr>ri_jfr = od_jfr (the device_dst), ri_local_tseg = ob_tseg (the host_src),
                    ri_device_info = the device_dst, ri_request_id = client_key\<rparr>;
          (sync, st2) \<leftarrow> register_on_handle h chunks chunks_num RECV_TASK recv_task_worker_func_fn
                           (Recv_info ri) (st\<lparr>theap := m1\<rparr>);
          if sync = NULL then Some ((minus_one32, NULL), st2)
          else do {
            (ok, x) \<leftarrow> recv_post_loop e ri chunks 0 (unat chunks_num) (theap st2) (dev st2);
            let st3 = st2\<lparr>dev := x\<rparr>;
            if \<not> ok
            then do { st4 \<leftarrow> complete_request sync st3; Some ((minus_one32, sync), st4) }
            else Some ((0, sync), st3)
          }
        }
      })"

section \<open>Completions, workers, waiting\<close>

definition os_transport_wake_up_task :: "ptr \<Rightarrow> urma_cr \<Rightarrow> 'x ost \<Rightarrow> (int \<times> 'x ost) option" where
  "os_transport_wake_up_task h cr st =
     do {
       oh \<leftarrow> handles st h;
       case cr_request_id cr of None \<Rightarrow> Some (-1, st) | Some req_id \<Rightarrow>
       do {
         p \<leftarrow> oh_thread_pool oh;
         (v, p1) \<leftarrow> thread_pool_wake_up_worker_by_req_id p req_id;
         st1 \<leftarrow> set_pool h (Some p1) st;
         Some (v, st1)
       }
     }"

text \<open>A turn of worker i of the pool of a handle.\<close>

definition os_worker_turn :: "'x ext \<Rightarrow> ptr \<Rightarrow> nat \<Rightarrow> 'x ost \<Rightarrow> 'x ost option" where
  "os_worker_turn e h i st =
     do {
       p \<leftarrow> get_pool h st;
       (p1, m1, x1) \<leftarrow> worker_turn (transport_env e) i (p, theap st, dev st);
       set_pool h (Some p1) (st\<lparr>theap := m1, dev := x1\<rparr>)
     }"

definition wait_and_free_sync ::
    "ptr \<Rightarrow> ptr \<Rightarrow> 'x ost \<Rightarrow> (u32 waiting \<times> 'x ost) option" where
  "wait_and_free_sync h sync st =
     (if h = NULL \<or> sync = NULL then Some (Returned minus_one32, st)
      else do {
        s \<leftarrow> syncs (theap st) sync;
        let g = ts_task_group s;
        if g = NULL then Some (Returned minus_one32, st)
        else do {
          w \<leftarrow> wait_for_task_complete sync (theap st);
          case w of Waiting \<Rightarrow> Some (Waiting, st) | Returned completed_success \<Rightarrow>
          do {
            st1 \<leftarrow> (if completed_success \<noteq> 0
                    then do {
                      grp \<leftarrow> groups (theap st) g;
                      t0 \<leftarrow> task_cells (theap st) (tg_tasks grp);
                      oh \<leftarrow> handles st h;
                      case oh_thread_pool oh of None \<Rightarrow> Some st | Some p \<Rightarrow>
                      do {
                        (_, p1) \<leftarrow> thread_pool_cancel_tasks_by_req p (request_id t0);
                        set_pool h (Some p1) st
                      }
                    }
                    else Some st);
            m1 \<leftarrow> free_sync_owned_resources sync (theap st1);
            Some (Returned completed_success, st1\<lparr>theap := m1\<rparr>)
          }
        }
      })"

end
