(* ===== verification/PoolSpec.thy ===== *)
theory PoolSpec
  imports ThreadPool
begin

text \<open>
  What the thread pool promises, without its memory: for each worker a list of tasks, for each
  request id at most one context, and the operations on them.  The relation \<open>pool_rel\<close> says
  that a pool of \<open>ThreadPool\<close> holds such a state and that its heap holds exactly the objects
  reachable from it.  The theory \<open>PoolRefine\<close> proves that every operation of the pool does what
  its counterpart here does.
\<close>

section \<open>The abstract pool\<close>

record apool = allocator +
  a_running :: bool
  a_destroying :: bool
  a_next :: u64
  a_queues :: "atask list list"
  a_states :: "WorkerState list"
  a_pend :: "u32 list"
  a_ctx :: "u32 \<Rightarrow> actx option"
  a_arrays :: "ptr \<Rightarrow> u64 list option"
  a_tids :: "u64 list"

definition a_enqueue :: "nat \<Rightarrow> atask list \<Rightarrow> apool \<Rightarrow> apool" where
  "a_enqueue i ts a = a\<lparr>a_queues := (a_queues a)[i := a_queues a ! i @ ts]\<rparr>"

text \<open>The first idle worker whose queue is empty (a size counts modulo \<open>2 ^ 32\<close>).\<close>

definition a_select :: "apool \<Rightarrow> nat option" where
  "a_select a =
     List.find (\<lambda>i. a_states a ! i = WORKER_STATE_IDLE \<and>
                    (of_nat (length (a_queues a ! i)) :: u32) = 0) [0..<NUM_WORKERS]"

text \<open>Counting n more tasks for a request; false when a context was needed and not allocated.\<close>

definition a_count :: "u32 \<Rightarrow> u32 \<Rightarrow> nat \<Rightarrow> ptr \<Rightarrow> ptr \<Rightarrow> apool \<Rightarrow> bool \<times> apool" where
  "a_count r n i cb data a =
     (case a_ctx a r of
        Some c \<Rightarrow> (True, a\<lparr>a_ctx := (a_ctx a)(r \<mapsto> c\<lparr>ac_pending := ac_pending c + n\<rparr>)\<rparr>)
      | None \<Rightarrow>
          (let (c, a1) = malloc1 a in
           if c = NULL then (False, a1)
           else (True, a1\<lparr>a_ctx := (a_ctx a1)(r \<mapsto>
                   \<lparr>ac_worker = i, ac_pending = n, ac_cb = cb, ac_data = data\<rparr>)\<rparr>)))"

definition a_submit ::
    "u32 \<Rightarrow> task_fn option \<Rightarrow> ptr \<Rightarrow> ptr \<Rightarrow> ptr \<Rightarrow> apool \<Rightarrow> (u64 \<times> apool) option" where
  "a_submit r func arg cb data a =
     (case func of None \<Rightarrow> Some (0, a) | Some fn \<Rightarrow>
      if \<not> a_running a then Some (0, a)
      else
        let (k, a1) = malloc1 a in
        if k = NULL then Some (0, a1)
        else
          let (t, a2) = malloc1 a1 in
          if t = NULL then Some (0, a2)
          else
            let a3 = a2\<lparr>a_next := a_next a2 + 1\<rparr> in
            (case a_select a3 of None \<Rightarrow> Some (0, a3) | Some i \<Rightarrow>
             let (n, a4) = malloc1 a3 in
             if n = NULL then Some (0, a4)
             else
               let new = \<lparr>at_id = a_next a2, at_req = r, at_fn = fn, at_arg = arg, at_cb = cb,
                     at_data = data\<rparr>;
                   (ok, a5) = a_count r 1 i NULL NULL (a_enqueue i [new] a4)
               in if ok then Some (a_next a2, a5) else None))"

text \<open>Allocating one task of a batch, and a batch task by task: None when an allocation failed.\<close>

definition a_new_task :: "ThreadPoolTask \<Rightarrow> u32 \<Rightarrow> ptr \<Rightarrow> ptr \<Rightarrow> apool \<Rightarrow> atask option \<times> apool" where
  "a_new_task src r cb data a =
     (let (k, a1) = malloc1 a in
      if k = NULL then (None, a1)
      else
        let (t, a2) = malloc1 a1 in
        if t = NULL then (None, a2)
        else
          let (n, a3) = malloc1 (a2\<lparr>a_next := a_next a2 + 1\<rparr>) in
          if n = NULL then (None, a3)
          else (Some \<lparr>at_id = a_next a2, at_req = r, at_fn = task_func src,
                      at_arg = task_arg src, at_cb = cb, at_data = data\<rparr>, a3))"

fun a_build ::
    "ThreadPoolTask list \<Rightarrow> u32 \<Rightarrow> ptr \<Rightarrow> ptr \<Rightarrow> apool \<Rightarrow> atask list \<Rightarrow> atask list option \<times> apool" where
  "a_build [] r cb data a acc = (Some acc, a)"
| "a_build (src # srcs) r cb data a acc =
     (case a_new_task src r cb data a of
        (None, a1) \<Rightarrow> (None, a1)
      | (Some t, a1) \<Rightarrow> a_build srcs r cb data a1 (acc @ [t]))"

definition a_batch ::
    "ThreadPoolTask list \<Rightarrow> ptr \<Rightarrow> ptr \<Rightarrow> ptr \<Rightarrow> ptr \<Rightarrow> apool \<Rightarrow> ptr \<times> apool" where
  "a_batch ts cb data bcb bdata a =
     (if ts = [] \<or> \<not> a_running a \<or> (\<exists>t \<in> set (tl ts). request_id t \<noteq> request_id (hd ts))
      then (NULL, a)
      else
        let (arr, a1) = malloc_n (length ts) a; r = request_id (hd ts) in
        if arr = NULL then (NULL, a1)
        else
          case a_select a1 of None \<Rightarrow> (NULL, a1) | Some i \<Rightarrow>
            (case a_build ts r cb data a1 [] of
               (None, a2) \<Rightarrow> (NULL, a2)
             | (Some new, a2) \<Rightarrow>
                 (arr, snd (a_count r (of_nat (length ts)) i bcb bdata
                   ((a_enqueue i new a2)\<lparr>a_arrays := (a_arrays a2)(arr \<mapsto> map at_id new)\<rparr>)))))"

text \<open>Setting or, at zero, dropping the pending count of a request.\<close>

definition a_set_pending :: "u32 \<Rightarrow> actx \<Rightarrow> u32 \<Rightarrow> apool \<Rightarrow> apool" where
  "a_set_pending r c n a =
     a\<lparr>a_ctx := (a_ctx a)(r := if n = 0 then None else Some (c\<lparr>ac_pending := n\<rparr>))\<rparr>"

definition a_cancel :: "u32 \<Rightarrow> apool \<Rightarrow> int \<times> apool" where
  "a_cancel r a =
     (if \<not> a_running a then (- 1, a)
      else
        case a_ctx a r of None \<Rightarrow> (0, a) | Some c \<Rightarrow>
          let q = a_queues a ! ac_worker c;
              removed = (of_nat (length (filter (\<lambda>t. at_req t = r) q)) :: u32);
              a1 = a\<lparr>a_queues := (a_queues a)[ac_worker c := filter (\<lambda>t. at_req t \<noteq> r) q]\<rparr>
          in (sint removed,
              if removed > 0 then a_set_pending r c (ac_pending c - removed) a1 else a1))"

definition a_wake :: "u32 \<Rightarrow> apool \<Rightarrow> int \<times> apool" where
  "a_wake r a =
     (case a_ctx a r of None \<Rightarrow> (- 1, a)
      | Some c \<Rightarrow> (0, a\<lparr>a_pend := (a_pend a)[ac_worker c := r]\<rparr>))"

text \<open>Running a task: its function, then its completion callback, always with \<open>success = true\<close>.\<close>

definition a_run_task :: "'w env \<Rightarrow> atask \<Rightarrow> 'w \<Rightarrow> 'w option" where
  "a_run_task env t s =
     do {
       (_, s1) \<leftarrow> exec env (at_fn t) (at_arg t) s;
       call_cb env (at_cb t) (at_id t) True (at_data t) s1
     }"

text \<open>
  Counting a finished task of request r; after the last one the batch callback runs and the
  context goes away.
\<close>

definition a_finish :: "'w env \<Rightarrow> u32 \<Rightarrow> apool \<times> 'w \<Rightarrow> (apool \<times> 'w) option" where
  "a_finish env r = (\<lambda>(a, s).
     case a_ctx a r of None \<Rightarrow> Some (a, s) | Some c \<Rightarrow>
       do {
         s1 \<leftarrow> (if ac_pending c - 1 = 0 then call_cb env (ac_cb c) 0 True (ac_data c) s else Some s);
         Some (a_set_pending r c (ac_pending c - 1) a, s1)
       })"

definition a_turn :: "'w env \<Rightarrow> nat \<Rightarrow> apool \<times> 'w \<Rightarrow> (apool \<times> 'w) option" where
  "a_turn env i = (\<lambda>(a, s).
     let r = a_pend a ! i in
     if a_states a ! i = WORKER_STATE_INIT \<or> a_states a ! i = WORKER_STATE_EXIT then Some (a, s)
     else if r = 0 \<and> \<not> a_destroying a then Some (a, s)
     else if r = 0 then Some (a\<lparr>a_states := (a_states a)[i := WORKER_STATE_EXIT]\<rparr>, s)
     else
       let a1 = a\<lparr>a_pend := (a_pend a)[i := 0]\<rparr> in
       (case List.extract (\<lambda>t. at_req t = r) (a_queues a ! i) of
          None \<Rightarrow> Some (a1, s)
        | Some (before, t, after) \<Rightarrow>
            do {
              s1 \<leftarrow> a_run_task env t s;
              (a2, s2) \<leftarrow> a_finish env r
                 (a1\<lparr>a_queues := (a_queues a1)[i := before @ after]\<rparr>, s1);
              Some (a2\<lparr>a_states := (a_states a2)[i := WORKER_STATE_IDLE]\<rparr>, s2)
            }))"

section \<open>The heap of a pool\<close>

text \<open>
  The queues xss of the workers, cell by cell, pairwise disjoint; besides their cells the heap
  holds the nodes N, tasks T and internal tasks K that an operation in progress has in hand,
  and nothing else.
\<close>

definition heap_inv ::
    "mem \<Rightarrow> WorkerThread list \<Rightarrow> cell list list \<Rightarrow> ptr set \<Rightarrow> ptr set \<Rightarrow> ptr set \<Rightarrow> bool" where
  "heap_inv m ws xss N T K \<longleftrightarrow>
     length ws = NUM_WORKERS \<and> length xss = NUM_WORKERS \<and>
     (\<forall>i < NUM_WORKERS. wq m (ws ! i) (xss ! i)) \<and>
     owns m (cell_node ` set (concat xss) \<union> N) (cell_task ` set (concat xss) \<union> T)
       (cell_itask ` set (concat xss) \<union> K) (dom (ctxs m)) (dom (id_arrays m)) \<and>
     distinct (map cell_node (concat xss)) \<and> distinct (map cell_task (concat xss)) \<and>
     distinct (map cell_itask (concat xss)) \<and>
     N \<inter> cell_node ` set (concat xss) = {} \<and> T \<inter> cell_task ` set (concat xss) = {} \<and>
     K \<inter> cell_itask ` set (concat xss) = {}"

lemma heap_invD:
  assumes "heap_inv m ws xss N T K"
  shows "length ws = NUM_WORKERS" "length xss = NUM_WORKERS"
    "i < NUM_WORKERS \<Longrightarrow> wq m (ws ! i) (xss ! i)"
    "owns m (cell_node ` set (concat xss) \<union> N) (cell_task ` set (concat xss) \<union> T)
       (cell_itask ` set (concat xss) \<union> K) (dom (ctxs m)) (dom (id_arrays m))"
    "distinct (map cell_node (concat xss))" "distinct (map cell_task (concat xss))"
    "distinct (map cell_itask (concat xss))"
    "N \<inter> cell_node ` set (concat xss) = {}" "T \<inter> cell_task ` set (concat xss) = {}"
    "K \<inter> cell_itask ` set (concat xss) = {}"
  using assms by (simp_all add: heap_inv_def)

text \<open>A step on one queue, and on objects in hand, keeps the rest of the heap.\<close>

lemma heap_inv_update:
  assumes hi: "heap_inv m ws xss N T K" and i: "i < NUM_WORKERS"
    and st: "qstep m m' Dn Dt Dk S" and q: "wq m' w ys" and S: "S \<subseteq> cell_node ` set (xss ! i)"
    and D: "Dn \<subseteq> cell_node ` set (xss ! i) \<union> N" "Dt \<subseteq> cell_task ` set (xss ! i) \<union> T"
      "Dk \<subseteq> cell_itask ` set (xss ! i) \<union> K"
    and n: "cell_node ` set ys \<union> N' = (cell_node ` set (xss ! i) \<union> N) - Dn"
      "cell_node ` set ys \<inter> N' = {}"
    and t: "cell_task ` set ys \<union> T' = (cell_task ` set (xss ! i) \<union> T) - Dt"
      "cell_task ` set ys \<inter> T' = {}"
    and k: "cell_itask ` set ys \<union> K' = (cell_itask ` set (xss ! i) \<union> K) - Dk"
      "cell_itask ` set ys \<inter> K' = {}"
  shows "heap_inv m' (ws[i := w]) (xss[i := ys]) N' T' K'"
    and "map (map (cell_atask m')) (xss[i := ys])
      = (map (map (cell_atask m)) xss)[i := map (cell_atask m') ys]"
proof -
  note h = heap_invD [OF hi]
  have ix: "i < length xss" using i h(2) by simp
  have dys: "distinct (map cell_node ys)" "distinct (map cell_task ys)" "distinct (map cell_itask ys)"
    using q wq_distinct_nodes [OF q] by (simp_all add: wq_def)
  note pn = projection_update [OF h(5) ix h(8) D(1) n dys(1)]
  note pt = projection_update [OF h(6) ix h(9) D(2) t dys(2)]
  note pk = projection_update [OF h(7) ix h(10) D(3) k dys(3)]
  have frame: "wq m' (ws ! j) (xss ! j)"
    "map (cell_atask m') (xss ! j) = map (cell_atask m) (xss ! j)" if j: "j < NUM_WORKERS" "j \<noteq> i" for j
  proof -
    have "cell_node ` set (xss ! j) \<inter> (S \<union> Dn) = {}" "cell_task ` set (xss ! j) \<inter> Dt = {}"
      "cell_itask ` set (xss ! j) \<inter> Dk = {}"
      using pn(4) [of j] pt(4) [of j] pk(4) [of j] j h(2) S D by auto
    from qstep_wq_frame [OF st this] h(3) [OF j(1)]
    show "wq m' (ws ! j) (xss ! j)"
      "map (cell_atask m') (xss ! j) = map (cell_atask m) (xss ! j)" by simp_all
  qed
  have "wq m' (ws[i := w] ! j) (xss[i := ys] ! j)" if "j < NUM_WORKERS" for j
    using that frame(1) [OF that] q h(1,2) by (cases "j = i") (simp_all add: nth_list_update)
  moreover have "owns m' (cell_node ` set (concat (xss[i := ys])) \<union> N')
      (cell_task ` set (concat (xss[i := ys])) \<union> T')
      (cell_itask ` set (concat (xss[i := ys])) \<union> K') (dom (ctxs m')) (dom (id_arrays m'))"
    using qstep_owns [OF st h(4)] unfolding pn(3) pt(3) pk(3)
    by (simp add: qstep_fields [OF st])
  ultimately show "heap_inv m' (ws[i := w]) (xss[i := ys]) N' T' K'"
    using pn(1,2) pt(1,2) pk(1,2) h(1,2) by (simp add: heap_inv_def)
  show "map (map (cell_atask m')) (xss[i := ys])
      = (map (map (cell_atask m)) xss)[i := map (cell_atask m') ys]"
  proof (rule nth_equalityI)
    fix j assume "j < length (map (map (cell_atask m')) (xss[i := ys]))"
    then have "j < NUM_WORKERS" using h(2) by simp
    then show "map (map (cell_atask m')) (xss[i := ys]) ! j
        = (map (map (cell_atask m)) xss)[i := map (cell_atask m') ys] ! j"
      using frame(2) [of j] ix h(2) by (cases "j = i") (simp_all add: nth_list_update)
  qed simp
qed

text \<open>A step on objects outside the queues.\<close>

lemma heap_inv_frame:
  assumes hi: "heap_inv m ws xss N T K"
    and same: "\<And>z. z \<in> set (concat xss) \<Longrightarrow> nodes m' (cell_node z) = nodes m (cell_node z)"
      "\<And>z. z \<in> set (concat xss) \<Longrightarrow> tasks m' (cell_task z) = tasks m (cell_task z)"
      "\<And>z. z \<in> set (concat xss) \<Longrightarrow> itasks m' (cell_itask z) = itasks m (cell_itask z)"
    and o: "owns m' (cell_node ` set (concat xss) \<union> N') (cell_task ` set (concat xss) \<union> T')
       (cell_itask ` set (concat xss) \<union> K') (dom (ctxs m')) (dom (id_arrays m'))"
    and d: "N' \<inter> cell_node ` set (concat xss) = {}" "T' \<inter> cell_task ` set (concat xss) = {}"
      "K' \<inter> cell_itask ` set (concat xss) = {}"
  shows "heap_inv m' ws xss N' T' K'" and "map (map (cell_atask m')) xss = map (map (cell_atask m)) xss"
proof -
  note h = heap_invD [OF hi]
  have *: "wq m' w zs = wq m w zs \<and> map (cell_atask m') zs = map (cell_atask m) zs"
    if "zs \<in> set xss" for zs w
  proof -
    have "set zs \<subseteq> set (concat xss)" using that by auto
    then show ?thesis using wq_cong [of zs m' m] same by blast
  qed
  then show "map (map (cell_atask m')) xss = map (map (cell_atask m)) xss" by auto
  have "wq m' (ws ! i) (xss ! i)" if "i < NUM_WORKERS" for i
    using * [of "xss ! i" "ws ! i"] h(2) h(3) [OF that] that by simp
  then show "heap_inv m' ws xss N' T' K'"
    using h o d by (simp add: heap_inv_def)
qed

end
