(* ===== verification/PoolRel.thy ===== *)
theory PoolRel
  imports PoolSpec
begin

text \<open>
  The relation between a pool and its abstract state, and how each kind of change to the pool's
  memory carries over: allocations, writes and frees of objects in hand, changes of a queue,
  changes of the request table.
\<close>

definition rel ::
    "pool \<Rightarrow> apool \<Rightarrow> cell list list \<Rightarrow> ptr set \<Rightarrow> ptr set \<Rightarrow> ptr set \<Rightarrow> bool" where
  "rel p a xss N T K \<longleftrightarrow>
     brk (pmem p) = brk a \<and> calls (pmem p) = calls a \<and> malloc_ok (pmem p) = malloc_ok a \<and>
     id_arrays (pmem p) = a_arrays a \<and> is_running p = a_running a \<and>
     is_destroying p = a_destroying a \<and> next_task_id p = a_next a \<and>
     map state (workers p) = a_states a \<and> map pending_req (workers p) = a_pend a \<and>
     map worker_idx (workers p) = [0..<NUM_WORKERS] \<and>
     heap_inv (pmem p) (workers p) xss N T K \<and>
     a_queues a = map (map (cell_atask (pmem p))) xss \<and>
     ht (pmem p) (req_hash p) (a_ctx a) \<and>
     (\<forall>r c. a_ctx a r = Some c \<longrightarrow> ac_worker c < NUM_WORKERS) \<and>
     map tid (workers p) = a_tids a"

text \<open>
  Between operations nothing is in hand, and no worker is busy: a worker is busy only inside a
  turn, during which it holds its mutex.
\<close>

definition pool_rel :: "pool \<Rightarrow> apool \<Rightarrow> bool" where
  "pool_rel p a \<longleftrightarrow> (\<exists>xss. rel p a xss {} {} {}) \<and> WORKER_STATE_BUSY \<notin> set (a_states a)"

lemma relD:
  assumes "rel p a xss N T K"
  shows "brk (pmem p) = brk a" "calls (pmem p) = calls a" "malloc_ok (pmem p) = malloc_ok a"
    "id_arrays (pmem p) = a_arrays a" "is_running p = a_running a"
    "is_destroying p = a_destroying a" "next_task_id p = a_next a"
    "map state (workers p) = a_states a" "map pending_req (workers p) = a_pend a"
    "map worker_idx (workers p) = [0..<NUM_WORKERS]"
    "heap_inv (pmem p) (workers p) xss N T K"
    "a_queues a = map (map (cell_atask (pmem p))) xss"
    "ht (pmem p) (req_hash p) (a_ctx a)"
    "a_ctx a r = Some c \<Longrightarrow> ac_worker c < NUM_WORKERS"
    "map tid (workers p) = a_tids a"
  using assms unfolding rel_def by auto

lemma rel_lengths:
  assumes "rel p a xss N T K"
  shows "length (workers p) = NUM_WORKERS" "length xss = NUM_WORKERS"
    "length (a_states a) = NUM_WORKERS" "length (a_pend a) = NUM_WORKERS"
    "length (a_queues a) = NUM_WORKERS"
  using relD(8,9,12) [OF assms] heap_invD(1,2) [OF relD(11) [OF assms]]
  by (simp, simp, metis length_map, metis length_map, simp)

lemma rel_nth:
  assumes "rel p a xss N T K" "i < NUM_WORKERS"
  shows "a_states a ! i = state (workers p ! i)" "a_pend a ! i = pending_req (workers p ! i)"
    "worker_idx (workers p ! i) = i" "a_queues a ! i = map (cell_atask (pmem p)) (xss ! i)"
    "wq (pmem p) (workers p ! i) (xss ! i)"
proof -
  note l = rel_lengths [OF assms(1)]
  show "a_states a ! i = state (workers p ! i)" "a_pend a ! i = pending_req (workers p ! i)"
    using assms(2) l(1) by (simp_all flip: relD(8,9) [OF assms(1)])
  have "map worker_idx (workers p) ! i = [0..<NUM_WORKERS] ! i"
    by (simp only: relD(10) [OF assms(1)])
  then show "worker_idx (workers p ! i) = i" using assms(2) l(1) by simp
  show "a_queues a ! i = map (cell_atask (pmem p)) (xss ! i)"
    using assms(2) l(2) by (simp add: relD(12) [OF assms(1)])
  show "wq (pmem p) (workers p ! i) (xss ! i)"
    by (rule heap_invD(3) [OF relD(11) [OF assms(1)] assms(2)])
qed

lemma rel_owns:
  assumes "rel p a xss N T K"
  shows "owns (pmem p) (cell_node ` set (concat xss) \<union> N) (cell_task ` set (concat xss) \<union> T)
    (cell_itask ` set (concat xss) \<union> K) (dom (ctxs (pmem p))) (dom (id_arrays (pmem p)))"
  by (rule heap_invD(4) [OF relD(11) [OF assms]])

lemma rel_disjoint:
  assumes "rel p a xss N T K"
  shows "N \<inter> cell_node ` set (concat xss) = {}" "T \<inter> cell_task ` set (concat xss) = {}"
    "K \<inter> cell_itask ` set (concat xss) = {}"
  by (rule heap_invD(8-10) [OF relD(11) [OF assms]])+

section \<open>Memory in hand\<close>

definition unused :: "mem \<Rightarrow> ptr \<Rightarrow> bool" where
  "unused m q \<longleftrightarrow> 0 < q \<and> q < brk m \<and> nodes m q = None \<and> tasks m q = None \<and> itasks m q = None \<and>
     ctxs m q = None \<and> id_arrays m q = None"

text \<open>Replacing the memory by one in which the queued cells are as they were.\<close>

lemma rel_mem:
  assumes r: "rel p a xss N T K"
    and same: "\<And>z. z \<in> set (concat xss) \<Longrightarrow> nodes m (cell_node z) = nodes (pmem p) (cell_node z)"
      "\<And>z. z \<in> set (concat xss) \<Longrightarrow> tasks m (cell_task z) = tasks (pmem p) (cell_task z)"
      "\<And>z. z \<in> set (concat xss) \<Longrightarrow> itasks m (cell_itask z) = itasks (pmem p) (cell_itask z)"
    and o: "owns m (cell_node ` set (concat xss) \<union> N') (cell_task ` set (concat xss) \<union> T')
       (cell_itask ` set (concat xss) \<union> K') (dom (ctxs m)) (dom (id_arrays m))"
    and d: "N' \<inter> cell_node ` set (concat xss) = {}" "T' \<inter> cell_task ` set (concat xss) = {}"
      "K' \<inter> cell_itask ` set (concat xss) = {}"
    and h: "ht m hash A" and w: "\<And>r c. A r = Some c \<Longrightarrow> ac_worker c < NUM_WORKERS"
  shows "rel (p\<lparr>pmem := m, req_hash := hash\<rparr>)
    (a\<lparr>brk := brk m, calls := calls m, malloc_ok := malloc_ok m, a_arrays := id_arrays m,
       a_ctx := A\<rparr>) xss N' T' K'"
proof -
  note f = heap_inv_frame [OF relD(11) [OF r] same o d]
  show ?thesis
    unfolding rel_def using f h w relD [OF r] by simp
qed

lemma rel_mem_simple:
  assumes r: "rel p a xss N T K"
    and same: "\<And>z. z \<in> set (concat xss) \<Longrightarrow> nodes m (cell_node z) = nodes (pmem p) (cell_node z)"
      "\<And>z. z \<in> set (concat xss) \<Longrightarrow> tasks m (cell_task z) = tasks (pmem p) (cell_task z)"
      "\<And>z. z \<in> set (concat xss) \<Longrightarrow> itasks m (cell_itask z) = itasks (pmem p) (cell_itask z)"
    and o: "owns m (cell_node ` set (concat xss) \<union> N') (cell_task ` set (concat xss) \<union> T')
       (cell_itask ` set (concat xss) \<union> K') (dom (ctxs m)) (dom (id_arrays m))"
    and d: "N' \<inter> cell_node ` set (concat xss) = {}" "T' \<inter> cell_task ` set (concat xss) = {}"
      "K' \<inter> cell_itask ` set (concat xss) = {}"
    and keep: "ctxs m = ctxs (pmem p)" "id_arrays m = id_arrays (pmem p)" "brk m = brk (pmem p)"
      "calls m = calls (pmem p)" "malloc_ok m = malloc_ok (pmem p)"
  shows "rel (p\<lparr>pmem := m\<rparr>) a xss N' T' K'"
proof -
  have "ht m (req_hash p) (a_ctx a)" using relD(13) [OF r] ht_cong [OF keep(1)] by simp
  from rel_mem [OF r same o d this] relD [OF r] keep show ?thesis by simp
qed

lemma rel_malloc:
  assumes r: "rel p a xss N T K" and m: "malloc_n n (pmem p) = (q, m')"
  obtains a' where "malloc_n n a = (q, a')" "rel (p\<lparr>pmem := m'\<rparr>) a' xss N T K"
    "q \<noteq> NULL \<Longrightarrow> unused m' q"
    "a' = a\<lparr>brk := brk a', calls := calls a'\<rparr>"
    "m' = (pmem p)\<lparr>brk := brk m', calls := calls m'\<rparr>"
proof (cases "malloc_ok (pmem p) (calls (pmem p))")
  case True
  define a' where "a' = a\<lparr>brk := brk a + max 1 n, calls := Suc (calls a)\<rparr>"
  have m': "q = brk (pmem p)" "m' = (pmem p)\<lparr>brk := brk (pmem p) + max 1 n, calls := Suc (calls (pmem p))\<rparr>"
    using m True by (auto simp: malloc_n_def)
  note o = rel_owns [OF r]
  have "owns m' (cell_node ` set (concat xss) \<union> N) (cell_task ` set (concat xss) \<union> T)
    (cell_itask ` set (concat xss) \<union> K) (dom (ctxs m')) (dom (id_arrays m'))"
    unfolding m'(2) using owns_bump(1) [OF o] by simp
  moreover have "ht m' (req_hash p) (a_ctx a)"
    using relD(13) [OF r] ht_cong [of m' "pmem p"] by (simp add: m'(2))
  ultimately have "rel (p\<lparr>pmem := m', req_hash := req_hash p\<rparr>)
    (a\<lparr>brk := brk m', calls := calls m', malloc_ok := malloc_ok m', a_arrays := id_arrays m',
       a_ctx := a_ctx a\<rparr>) xss N T K"
    by (intro rel_mem [OF r] rel_disjoint [OF r] relD(14) [OF r]) (simp_all add: m'(2))
  then have "rel (p\<lparr>pmem := m'\<rparr>) a' xss N T K"
    using relD [OF r] by (simp add: a'_def m'(2))
  moreover have "unused m' q"
    using owns_brk_None [OF o] ownsD(6) [OF o] by (simp add: unused_def m')
  moreover have "malloc_n n a = (q, a')"
    using True relD(1-3) [OF r] by (simp add: malloc_n_def a'_def m'(1))
  ultimately show thesis by (intro that [of a']) (simp_all add: a'_def m'(2))
next
  case False
  define a' where "a' = a\<lparr>calls := Suc (calls a)\<rparr>"
  have m': "q = NULL" "m' = (pmem p)\<lparr>calls := Suc (calls (pmem p))\<rparr>"
    using m False by (auto simp: malloc_n_def)
  have "owns m' (cell_node ` set (concat xss) \<union> N) (cell_task ` set (concat xss) \<union> T)
    (cell_itask ` set (concat xss) \<union> K) (dom (ctxs m')) (dom (id_arrays m'))"
    unfolding m'(2) using owns_bump(2) [OF rel_owns [OF r]] by simp
  moreover have "ht m' (req_hash p) (a_ctx a)"
    using relD(13) [OF r] ht_cong [of m' "pmem p"] by (simp add: m'(2))
  ultimately have "rel (p\<lparr>pmem := m', req_hash := req_hash p\<rparr>)
    (a\<lparr>brk := brk m', calls := calls m', malloc_ok := malloc_ok m', a_arrays := id_arrays m',
       a_ctx := a_ctx a\<rparr>) xss N T K"
    by (intro rel_mem [OF r] rel_disjoint [OF r] relD(14) [OF r]) (simp_all add: m'(2))
  then have "rel (p\<lparr>pmem := m'\<rparr>) a' xss N T K"
    using relD [OF r] by (simp add: a'_def m'(2))
  moreover have "malloc_n n a = (q, a')"
    using False relD(1-3) [OF r] by (simp add: malloc_n_def a'_def m'(1))
  ultimately show thesis by (intro that [of a']) (simp_all add: a'_def m')
qed

text \<open>Writing an object that is no queued cell's.\<close>

lemma rel_write_itask:
  assumes r: "rel p a xss N T K" and k: "0 < k" "k < brk (pmem p)" "k \<notin> cell_itask ` set (concat xss)"
  shows "rel (p\<lparr>pmem := (pmem p)\<lparr>itasks := (itasks (pmem p))(k \<mapsto> it)\<rparr>\<rparr>) a xss N T (insert k K)"
proof -
  have ne: "cell_itask z \<noteq> k" if "z \<in> set (concat xss)" for z using k(3) that by force
  show ?thesis
    by (rule rel_mem_simple [OF r])
      (use owns_write(3) [OF rel_owns [OF r] k(1,2), of it] rel_disjoint [OF r] k(3) ne
        in \<open>simp_all del: set_concat\<close>)
qed

lemma rel_write_task:
  assumes r: "rel p a xss N T K" and t: "0 < t" "t < brk (pmem p)" "t \<notin> cell_task ` set (concat xss)"
  shows "rel (p\<lparr>pmem := (pmem p)\<lparr>tasks := (tasks (pmem p))(t \<mapsto> tk)\<rparr>\<rparr>) a xss N (insert t T) K"
proof -
  have ne: "cell_task z \<noteq> t" if "z \<in> set (concat xss)" for z using t(3) that by force
  show ?thesis
    by (rule rel_mem_simple [OF r])
      (use owns_write(2) [OF rel_owns [OF r] t(1,2), of tk] rel_disjoint [OF r] t(3) ne
        in \<open>simp_all del: set_concat\<close>)
qed

lemma rel_write_node:
  assumes r: "rel p a xss N T K" and n: "0 < n" "n < brk (pmem p)" "n \<notin> cell_node ` set (concat xss)"
  shows "rel (p\<lparr>pmem := (pmem p)\<lparr>nodes := (nodes (pmem p))(n \<mapsto> nd)\<rparr>\<rparr>) a xss (insert n N) T K"
proof -
  have ne: "cell_node z \<noteq> n" if "z \<in> set (concat xss)" for z using n(3) that by force
  show ?thesis
    by (rule rel_mem_simple [OF r])
      (use owns_write(1) [OF rel_owns [OF r] n(1,2), of nd] rel_disjoint [OF r] n(3) ne
        in \<open>simp_all del: set_concat\<close>)
qed

text \<open>An address the allocator just returned is no queued cell's.\<close>

lemma unused_not_cell:
  assumes "rel p a xss N T K" "unused (pmem p) q"
  shows "q \<notin> cell_node ` set (concat xss)" "q \<notin> cell_task ` set (concat xss)"
    "q \<notin> cell_itask ` set (concat xss)" "q \<notin> N" "q \<notin> T" "q \<notin> K"
  using assms(2) ownsD(1-3) [OF rel_owns [OF assms(1)]]
  by (metis UnCI domIff unused_def)+

lemma rel_in_hand:
  assumes "rel p a xss N T K"
  shows "n \<in> N \<Longrightarrow> (\<exists>nd. nodes (pmem p) n = Some nd) \<and> 0 < n \<and> n < brk (pmem p)"
    and "t \<in> T \<Longrightarrow> (\<exists>tk. tasks (pmem p) t = Some tk) \<and> 0 < t \<and> t < brk (pmem p)"
    and "k \<in> K \<Longrightarrow> (\<exists>it. itasks (pmem p) k = Some it) \<and> 0 < k \<and> k < brk (pmem p)"
  using rel_owns [OF assms] ownsD(1-3) [OF rel_owns [OF assms]]
  by (auto simp: owns_def simp del: set_concat)

text \<open>Freeing an object in hand.\<close>

lemma rel_free_itask:
  assumes r: "rel p a xss N T K" and k: "k \<in> K"
  obtains m where "free_itask k (pmem p) = Some m" "rel (p\<lparr>pmem := m\<rparr>) a xss N T (K - {k})"
    "m = (pmem p)\<lparr>itasks := (itasks (pmem p))(k := None)\<rparr>"
proof -
  let ?m = "(pmem p)\<lparr>itasks := (itasks (pmem p))(k := None)\<rparr>"
  have ne: "cell_itask z \<noteq> k" if "z \<in> set (concat xss)" for z
    using rel_disjoint(3) [OF r] k that by force
  have eq: "(X \<union> K) - {k} = X \<union> (K - {k})" if "k \<notin> X" for X using that by auto
  have "k \<notin> cell_itask ` set (concat xss)" using ne by auto
  note o = owns_free(3) [OF rel_owns [OF r], of k, unfolded eq [OF this]]
  have "rel (p\<lparr>pmem := ?m\<rparr>) a xss N T (K - {k})"
    by (rule rel_mem_simple [OF r])
      (use o rel_disjoint [OF r] ne in \<open>auto simp del: set_concat\<close>)
  moreover have "free_itask k (pmem p) = Some ?m"
    using rel_in_hand(3) [OF r k] by (auto simp: free_itask_def)
  ultimately show thesis by (intro that) simp_all
qed

lemma rel_free_task:
  assumes r: "rel p a xss N T K" and t: "t \<in> T"
  obtains m where "free_task t (pmem p) = Some m" "rel (p\<lparr>pmem := m\<rparr>) a xss N (T - {t}) K"
    "m = (pmem p)\<lparr>tasks := (tasks (pmem p))(t := None)\<rparr>"
proof -
  let ?m = "(pmem p)\<lparr>tasks := (tasks (pmem p))(t := None)\<rparr>"
  have ne: "cell_task z \<noteq> t" if "z \<in> set (concat xss)" for z
    using rel_disjoint(2) [OF r] t that by force
  have eq: "(X \<union> T) - {t} = X \<union> (T - {t})" if "t \<notin> X" for X using that by auto
  have "t \<notin> cell_task ` set (concat xss)" using ne by auto
  note o = owns_free(2) [OF rel_owns [OF r], of t, unfolded eq [OF this]]
  have "rel (p\<lparr>pmem := ?m\<rparr>) a xss N (T - {t}) K"
    by (rule rel_mem_simple [OF r])
      (use o rel_disjoint [OF r] ne in \<open>auto simp del: set_concat\<close>)
  moreover have "free_task t (pmem p) = Some ?m"
    using rel_in_hand(2) [OF r t] by (auto simp: free_task_def)
  ultimately show thesis by (intro that) simp_all
qed

lemma rel_free_task_and_itask:
  assumes r: "rel p a xss N T K" and t: "t \<in> T" and k: "k \<in> K"
  obtains p' where "free_task_and_itask t k p = Some p'" "rel p' a xss N (T - {t}) (K - {k})"
proof -
  obtain m1 where 1: "free_task t (pmem p) = Some m1" "rel (p\<lparr>pmem := m1\<rparr>) a xss N (T - {t}) K"
    by (rule rel_free_task [OF r t])
  obtain m2 where 2: "free_itask k m1 = Some m2" "rel (p\<lparr>pmem := m2\<rparr>) a xss N (T - {t}) (K - {k})"
    using rel_free_itask [OF 1(2) k] by auto
  show thesis using 1 2 by (intro that [of "p\<lparr>pmem := m2\<rparr>"]) (simp_all add: free_task_and_itask_def)
qed

text \<open>Filling in a new task and the internal task it belongs to.\<close>

lemma rel_fill_task:
  assumes r: "rel p a xss N T K" and k: "k \<in> K" and t: "unused (pmem p) t"
  shows "rel (p\<lparr>pmem := (pmem p)\<lparr>tasks := (tasks (pmem p))(t \<mapsto> tk),
      itasks := (itasks (pmem p))(k \<mapsto> it)\<rparr>\<rparr>) a xss N (insert t T) K"
proof -
  let ?p = "p\<lparr>pmem := (pmem p)\<lparr>tasks := (tasks (pmem p))(t \<mapsto> tk)\<rparr>\<rparr>"
  have 1: "rel ?p a xss N (insert t T) K"
    using rel_write_task [OF r, of t tk] t unused_not_cell(2) [OF r t] by (simp add: unused_def)
  have "0 < k" "k < brk (pmem ?p)" "k \<notin> cell_itask ` set (concat xss)"
    using rel_in_hand(3) [OF 1 k] rel_disjoint(3) [OF r] k by blast+
  from rel_write_itask [OF 1 this, of it] k show ?thesis by (simp add: insert_absorb)
qed

text \<open>The arrays of task ids.\<close>

lemma rel_write_ids:
  assumes r: "rel p a xss N T K" and q: "0 < q" "q < brk (pmem p)"
  shows "rel (p\<lparr>pmem := (pmem p)\<lparr>id_arrays := (id_arrays (pmem p))(q \<mapsto> ids)\<rparr>\<rparr>)
    (a\<lparr>a_arrays := (a_arrays a)(q \<mapsto> ids)\<rparr>) xss N T K"
proof -
  let ?m = "(pmem p)\<lparr>id_arrays := (id_arrays (pmem p))(q \<mapsto> ids)\<rparr>"
  have h: "ht ?m (req_hash p) (a_ctx a)"
    using relD(13) [OF r] ht_cong [of ?m "pmem p"] by simp
  have "rel (p\<lparr>pmem := ?m, req_hash := req_hash p\<rparr>)
    (a\<lparr>brk := brk ?m, calls := calls ?m, malloc_ok := malloc_ok ?m, a_arrays := id_arrays ?m,
       a_ctx := a_ctx a\<rparr>) xss N T K"
    by (rule rel_mem [OF r _ _ _ _ _ _ _ h])
      (use owns_write(5) [OF rel_owns [OF r] q, of ids] rel_disjoint [OF r] relD(14) [OF r]
        in \<open>simp_all del: set_concat\<close>)
  then show ?thesis using relD(1-4) [OF r] by simp
qed

lemma rel_free_ids:
  assumes r: "rel p a xss N T K" and q: "a_arrays a q = Some ids"
  obtains m where "free_id_array q (pmem p) = Some m"
    "rel (p\<lparr>pmem := m\<rparr>) (a\<lparr>a_arrays := (a_arrays a)(q := None)\<rparr>) xss N T K"
proof -
  let ?m = "(pmem p)\<lparr>id_arrays := (id_arrays (pmem p))(q := None)\<rparr>"
  have live: "id_arrays (pmem p) q = Some ids" using q relD(4) [OF r] by simp
  then have "0 < q" using ownsD(7) [OF rel_owns [OF r], of q] by auto
  then have fr: "free_id_array q (pmem p) = Some ?m" using live by (simp add: free_id_array_def)
  have h: "ht ?m (req_hash p) (a_ctx a)"
    using relD(13) [OF r] ht_cong [of ?m "pmem p"] by simp
  have "rel (p\<lparr>pmem := ?m, req_hash := req_hash p\<rparr>)
    (a\<lparr>brk := brk ?m, calls := calls ?m, malloc_ok := malloc_ok ?m, a_arrays := id_arrays ?m,
       a_ctx := a_ctx a\<rparr>) xss N T K"
    by (rule rel_mem [OF r _ _ _ _ _ _ _ h])
      (use owns_free(5) [OF rel_owns [OF r], of q] rel_disjoint [OF r] relD(14) [OF r]
        in \<open>simp_all del: set_concat\<close>)
  then have "rel (p\<lparr>pmem := ?m\<rparr>) (a\<lparr>a_arrays := (a_arrays a)(q := None)\<rparr>) xss N T K"
    using relD(1-4) [OF r] by simp
  with fr show thesis by (rule that)
qed

section \<open>Queues\<close>

text \<open>A change of the queue of worker i that \<open>heap_inv_update\<close> allows.\<close>

lemma rel_queue:
  assumes r: "rel p a xss N T K" and i: "i < NUM_WORKERS"
    and hi: "heap_inv m ((workers p)[i := w]) (xss[i := ys]) N' T' K'"
    and at: "map (map (cell_atask m)) (xss[i := ys])
      = (map (map (cell_atask (pmem p))) xss)[i := ts]"
    and sw: "same_worker (workers p ! i) w"
    and keep: "ctxs m = ctxs (pmem p)" "id_arrays m = id_arrays (pmem p)" "brk m = brk (pmem p)"
      "calls m = calls (pmem p)" "malloc_ok m = malloc_ok (pmem p)"
  shows "rel (set_worker i w (p\<lparr>pmem := m\<rparr>)) (a\<lparr>a_queues := (a_queues a)[i := ts]\<rparr>)
    (xss[i := ys]) N' T' K'"
proof -
  have upd: "map f ((workers p)[i := w]) = map f (workers p)" if "f w = f (workers p ! i)"
    for f :: "WorkerThread \<Rightarrow> 'b"
    using that by (simp add: map_update list_update_same_conv rel_lengths(1) [OF r] i)
  have h: "ht m (req_hash p) (a_ctx a)"
    using relD(13) [OF r] ht_cong [OF keep(1)] by simp
  have f: "map state ((workers p)[i := w]) = a_states a"
    "map pending_req ((workers p)[i := w]) = a_pend a"
    "map worker_idx ((workers p)[i := w]) = [0..<NUM_WORKERS]"
    "map tid ((workers p)[i := w]) = a_tids a"
    by (simp_all only: upd [OF same_workerD(1) [OF sw]] upd [OF same_workerD(2) [OF sw]] upd [OF same_workerD(3) [OF sw]]
        upd [OF same_workerD(4) [OF sw]] relD(8-10,15) [OF r])
  have "(a_queues a)[i := ts] = map (map (cell_atask m)) (xss[i := ys])"
    by (simp only: relD(12) [OF r] at)
  with f hi h keep relD [OF r] show ?thesis
    unfolding rel_def set_worker_def by (simp del: map_update)
qed

text \<open>Attaching a chain of cells in hand.\<close>

lemma rel_attach:
  assumes r: "rel p a xss N T K" and i: "i < NUM_WORKERS"
    and chain: "lseg (tn_nxt (pmem p)) h (map cell_node ys) NULL" "ys \<noteq> []"
    and ok: "\<forall>z \<in> set ys. cell_ok (pmem p) z"
    and d: "distinct (map cell_task ys)" "distinct (map cell_itask ys)"
    and hand: "cell_node ` set ys \<subseteq> N" "cell_task ` set ys \<subseteq> T" "cell_itask ` set ys \<subseteq> K"
  obtains m w xss' where
    "attach_nodes_to_worker (pmem p) (workers p ! i) h (cell_node (last ys)) (of_nat (length ys))
      = Some (m, w)"
    "rel (set_worker i w (p\<lparr>pmem := m\<rparr>)) (a_enqueue i (map (cell_atask (pmem p)) ys) a) xss'
       (N - cell_node ` set ys) (T - cell_task ` set ys) (K - cell_itask ` set ys)"
    "worker_idx w = i"
proof -
  let ?zs = "xss ! i"
  note l = rel_lengths [OF r]
  have q: "wq (pmem p) (workers p ! i) ?zs" by (rule rel_nth(5) [OF r i])
  have sub: "set ?zs \<subseteq> set (concat xss)" using set_concat_nth [of i xss] i l(2) by simp
  note im = image_mono [OF sub, of cell_node] image_mono [OF sub, of "\<lambda>z. cell_task z"]
    image_mono [OF sub, of "\<lambda>z. cell_itask z"]
  have disj: "cell_node ` set ?zs \<inter> N = {}" "cell_task ` set ?zs \<inter> T = {}"
    "cell_itask ` set ?zs \<inter> K = {}"
    using im rel_disjoint [OF r] by blast+
  have dzs: "distinct (map cell_node ?zs)" "distinct (map cell_task ?zs)"
    "distinct (map cell_itask ?zs)"
    using q wq_distinct_nodes [OF q] by (simp_all add: wq_def)
  have "cell_node ` set ?zs \<inter> cell_node ` set ys = {}" "cell_task ` set ?zs \<inter> cell_task ` set ys = {}"
    "cell_itask ` set ?zs \<inter> cell_itask ` set ys = {}"
    using disj hand by blast+
  then have dd: "distinct (map cell_node (?zs @ ys))" "distinct (map cell_task (?zs @ ys))"
    "distinct (map cell_itask (?zs @ ys))"
    using dzs d lseg_distinct [OF chain(1)] by simp_all
  obtain m w where att: "attach_nodes_to_worker (pmem p) (workers p ! i) h (cell_node (last ys))
      (of_nat (length ys)) = Some (m, w)" "wq m w (?zs @ ys)"
    "map (cell_atask m) (?zs @ ys) = map (cell_atask (pmem p)) (?zs @ ys)"
    "qstep (pmem p) m {} {} {} (cell_node ` set ?zs)" "same_worker (workers p ! i) w"
    by (rule attach_nodes_to_worker_spec [OF q chain ok dd])
  have sets: "f ` set (?zs @ ys) \<union> (X - f ` set ys) = (f ` set ?zs \<union> X) - {}"
    "f ` set (?zs @ ys) \<inter> (X - f ` set ys) = {}"
    if "f ` set ?zs \<inter> X = {}" "f ` set ys \<subseteq> X" for f :: "cell \<Rightarrow> ptr" and X
    using that unfolding set_append image_Un by blast+
  note hu = heap_inv_update [OF relD(11) [OF r] i att(4,2) subset_refl
      empty_subsetI empty_subsetI empty_subsetI
      sets [OF disj(1) hand(1)] sets [OF disj(2) hand(2)] sets [OF disj(3) hand(3)]]
  have "map (cell_atask m) (?zs @ ys) = a_queues a ! i @ map (cell_atask (pmem p)) ys"
    using att(3) rel_nth(4) [OF r i] by simp
  with hu(2) have at': "map (map (cell_atask m)) (xss[i := ?zs @ ys])
      = (map (map (cell_atask (pmem p))) xss)[i := a_queues a ! i @ map (cell_atask (pmem p)) ys]"
    by (simp only:)
  have "rel (set_worker i w (p\<lparr>pmem := m\<rparr>)) (a_enqueue i (map (cell_atask (pmem p)) ys) a)
      (xss[i := ?zs @ ys]) (N - cell_node ` set ys) (T - cell_task ` set ys) (K - cell_itask ` set ys)"
    unfolding a_enqueue_def
    by (rule rel_queue [OF r i hu(1) at' att(5)]) (simp_all add: qstep_fields [OF att(4)])
  moreover have "worker_idx w = i" using same_workerD(3) [OF att(5)] rel_nth(3) [OF r i] by simp
  ultimately show thesis using att(1) by (intro that)
qed

text \<open>A push allocates a node and attaches it.\<close>

lemma rel_push:
  assumes r: "rel p a xss N T K" and i: "i < NUM_WORKERS" and t: "t \<in> T" and k: "k \<in> K"
    and ok: "task_ok (pmem p) t k" "itasks (pmem p) k = Some it"
    and m: "malloc1 a = (n, a')" "n \<noteq> NULL"
  obtains m' w xss' where "worker_queue_push (pmem p) (workers p ! i) t = Some (True, m', w)"
    "rel (set_worker i w (p\<lparr>pmem := m'\<rparr>)) (a_enqueue i [atask_of it] a') xss' N (T - {t}) (K - {k})"
    "worker_idx w = i"
proof -
  have mok: "malloc_ok (pmem p) (calls (pmem p))" and n: "n = brk (pmem p)"
    and a': "a' = a\<lparr>brk := brk a + 1, calls := Suc (calls a)\<rparr>"
    using m relD(1-3) [OF r] by (auto simp: malloc_n_def split: if_splits)
  let ?p1 = "p\<lparr>pmem := (pmem p)\<lparr>brk := brk (pmem p) + 1, calls := Suc (calls (pmem p))\<rparr>\<rparr>"
  let ?m2 = "with_node (pmem p) t" let ?p2 = "p\<lparr>pmem := ?m2\<rparr>"
  have "malloc_n 1 (pmem p) = (brk (pmem p), pmem ?p1)" using mok by (simp add: malloc_n_def)
  from rel_malloc [OF r this] m(1) have r1: "rel ?p1 a' xss N T K" and u: "unused (pmem ?p1) n"
    using n m(2) by auto
  have m2: "?m2 = (pmem ?p1)\<lparr>nodes := (nodes (pmem ?p1))(n \<mapsto> \<lparr>tn_task = t, tn_next = NULL\<rparr>)\<rparr>"
    by (simp add: with_node_def n)
  then have r2: "rel ?p2 a' xss (insert n N) T K"
    using rel_write_node [OF r1, of n] u unused_not_cell(1) [OF r1 u] by (simp add: unused_def)
  have "task_ok ?m2 t k" using ok(1) task_ok_cong [of ?m2 t "pmem p" k] by (simp add: with_node_def)
  then have cell: "cell_ok ?m2 (n, t, k)" by (simp add: cell_ok_def m2)
  have seg: "lseg (tn_nxt ?m2) n (map cell_node [(n, t, k)]) NULL"
    using m(2) by (simp add: tn_nxt_def m2)
  have same: "itasks ?m2 k = Some it" using ok(2) by (simp add: with_node_def)
  obtain m' w xss' where att: "attach_nodes_to_worker ?m2 (workers p ! i) n n 1 = Some (m', w)"
    "rel (set_worker i w (?p2\<lparr>pmem := m'\<rparr>)) (a_enqueue i [atask_of it] a') xss'
       (insert n N - {n}) (T - {t}) (K - {k})" "worker_idx w = i"
    using rel_attach [OF r2 i, of n "[(n, t, k)]"] seg cell t k same
    by (auto simp: cell_atask_def)
  have "insert n N - {n} = N" using unused_not_cell(4) [OF r1 u] by blast
  with att have "rel (set_worker i w (p\<lparr>pmem := m'\<rparr>)) (a_enqueue i [atask_of it] a') xss' N
      (T - {t}) (K - {k})" by simp
  moreover have "worker_queue_push (pmem p) (workers p ! i) t = Some (True, m', w)"
    using worker_queue_push_attach [OF mok, of "workers p ! i" t] att(1) n m(2) by simp
  ultimately show thesis using att(3) by (intro that)
qed

text \<open>The fields of a worker that are not its queue's.\<close>

lemma rel_worker:
  assumes r: "rel p a xss N T K" and i: "i < NUM_WORKERS"
  shows "rel (set_worker i ((workers p ! i)\<lparr>state := s, pending_req := q\<rparr>) p)
    (a\<lparr>a_states := (a_states a)[i := s], a_pend := (a_pend a)[i := q]\<rparr>) xss N T K"
proof -
  let ?w = "(workers p ! i)\<lparr>state := s, pending_req := q\<rparr>"
  note h = heap_invD [OF relD(11) [OF r]] and l = rel_lengths [OF r]
  have "wq (pmem p) ?w zs = wq (pmem p) (workers p ! i) zs" for zs
    by (simp add: wq_def wq_shape_def)
  then have "wq (pmem p) ((workers p)[i := ?w] ! j) (xss ! j)" if "j < NUM_WORKERS" for j
    using h(3) [OF that] l(1) i by (cases "j = i") simp_all
  then have hi: "heap_inv (pmem p) ((workers p)[i := ?w]) xss N T K"
    using h by (simp add: heap_inv_def)
  have f: "map state ((workers p)[i := ?w]) = (a_states a)[i := s]"
    "map pending_req ((workers p)[i := ?w]) = (a_pend a)[i := q]"
    by (simp_all add: map_update relD(8,9) [OF r])
  have "map worker_idx ((workers p)[i := ?w]) = map worker_idx (workers p)"
    "map tid ((workers p)[i := ?w]) = map tid (workers p)"
    using i l(1) by (simp_all add: map_update list_update_same_conv)
  then have g: "map worker_idx ((workers p)[i := ?w]) = [0..<NUM_WORKERS]"
    "map tid ((workers p)[i := ?w]) = a_tids a"
    by (simp_all only: relD(10,15) [OF r])
  from hi f g relD [OF r] show ?thesis
    unfolding rel_def set_worker_def by (simp del: map_update)
qed

lemma rel_pending:
  assumes r: "rel p a xss N T K" and i: "i < NUM_WORKERS"
  shows "rel (set_worker i ((workers p ! i)\<lparr>pending_req := q\<rparr>) p)
    (a\<lparr>a_pend := (a_pend a)[i := q]\<rparr>) xss N T K"
proof -
  have "(workers p ! i)\<lparr>state := state (workers p ! i), pending_req := q\<rparr>
      = (workers p ! i)\<lparr>pending_req := q\<rparr>" by (cases "workers p ! i") simp
  moreover have "(a_states a)[i := state (workers p ! i)] = a_states a"
    using list_update_id [of "a_states a" i] by (simp add: rel_nth(1) [OF r i])
  ultimately show ?thesis using rel_worker [OF r i, where s = "state (workers p ! i)" and q = q] by simp
qed

lemma rel_state:
  assumes r: "rel p a xss N T K" and i: "i < NUM_WORKERS"
  shows "rel (set_worker i ((workers p ! i)\<lparr>state := s\<rparr>) p)
    (a\<lparr>a_states := (a_states a)[i := s]\<rparr>) xss N T K"
proof -
  have "(workers p ! i)\<lparr>state := s, pending_req := pending_req (workers p ! i)\<rparr>
      = (workers p ! i)\<lparr>state := s\<rparr>" by (cases "workers p ! i") simp
  moreover have "(a_pend a)[i := pending_req (workers p ! i)] = a_pend a"
    using list_update_id [of "a_pend a" i] by (simp add: rel_nth(2) [OF r i])
  ultimately show ?thesis using rel_worker [OF r i, where s = s and q = "pending_req (workers p ! i)"] by simp
qed

lemma rel_pop_none:
  assumes r: "rel p a xss N T K" and i: "i < NUM_WORKERS"
    and ex: "List.extract (\<lambda>t. at_req t = r) (a_queues a ! i) = None"
  shows "worker_queue_pop_by_req (pmem p) (workers p ! i) r = Some (NULL, pmem p, workers p ! i)"
  by (rule worker_queue_pop_by_req_none [OF rel_nth(5) [OF r i]])
    (use ex rel_nth(4) [OF r i] in \<open>simp add: extract_map comp_def\<close>)

lemma rel_pop_some:
  assumes r: "rel p a xss N T K" and i: "i < NUM_WORKERS"
    and ex: "List.extract (\<lambda>t. at_req t = r) (a_queues a ! i) = Some (bs, at, cs)"
  obtains t k it m w xss' where
    "worker_queue_pop_by_req (pmem p) (workers p ! i) r = Some (t, m, w)"
    "rel (set_worker i w (p\<lparr>pmem := m\<rparr>)) (a\<lparr>a_queues := (a_queues a)[i := bs @ cs]\<rparr>) xss' N
       (insert t T) (insert k K)"
    "t \<noteq> NULL" "t \<notin> T" "k \<notin> K" "task_ok m t k" "itasks m k = Some it" "atask_of it = at"
    "same_worker (workers p ! i) w"
proof -
  let ?zs = "xss ! i" and ?P = "\<lambda>z. cell_req (pmem p) z = r"
  note l = rel_lengths [OF r]
  have q: "wq (pmem p) (workers p ! i) ?zs" by (rule rel_nth(5) [OF r i])
  have sub: "set ?zs \<subseteq> set (concat xss)" using set_concat_nth [of i xss] i l(2) by simp
  obtain ys z vs where zx: "List.extract ?P ?zs = Some (ys, z, vs)"
    and img: "bs = map (cell_atask (pmem p)) ys" "at = cell_atask (pmem p) z"
      "cs = map (cell_atask (pmem p)) vs"
    using ex rel_nth(4) [OF r i] by (auto simp: extract_map comp_def)
  have zs: "?zs = ys @ z # vs" using zx by (auto dest: extract_SomeD)
  obtain n t k where z: "z = (n, t, k)" by (cases z)
  obtain m w where pop: "worker_queue_pop_by_req (pmem p) (workers p ! i) r = Some (t, m, w)"
    "wq m w (ys @ vs)" "map (cell_atask m) (ys @ vs) = map (cell_atask (pmem p)) (ys @ vs)"
    "qstep (pmem p) m {n} {} {} (cell_node ` set ?zs)" "same_worker (workers p ! i) w"
    using worker_queue_pop_by_req_some [OF q zx] by (auto simp: z)
  note im = image_mono [OF sub, of cell_node] image_mono [OF sub, of "\<lambda>z. cell_task z"]
    image_mono [OF sub, of "\<lambda>z. cell_itask z"]
  have disj: "cell_node ` set ?zs \<inter> N = {}" "cell_task ` set ?zs \<inter> T = {}"
    "cell_itask ` set ?zs \<inter> K = {}"
    using im rel_disjoint [OF r] by blast+
  have dist: "distinct (map cell_node (ys @ (n, t, k) # vs))"
    "distinct (map cell_task (ys @ (n, t, k) # vs))" "distinct (map cell_itask (ys @ (n, t, k) # vs))"
    using q wq_distinct_nodes [OF q] zs z by (auto simp: wq_def)
  have z_in: "n \<in> cell_node ` set ?zs" "t \<in> cell_task ` set ?zs" "k \<in> cell_itask ` set ?zs"
    by (simp_all add: zs z)
  have sets: "cell_node ` set (ys @ vs) = cell_node ` set ?zs - {n}"
    "cell_task ` set (ys @ vs) = cell_task ` set ?zs - {t}"
    "cell_itask ` set (ys @ vs) = cell_itask ` set ?zs - {k}"
    using dist by (auto simp: zs z)
  have sets': "cell_node ` set (ys @ vs) \<union> N = (cell_node ` set ?zs \<union> N) - {n}"
    "cell_node ` set (ys @ vs) \<inter> N = {}"
    "cell_task ` set (ys @ vs) \<union> insert t T = (cell_task ` set ?zs \<union> T) - {}"
    "cell_task ` set (ys @ vs) \<inter> insert t T = {}"
    "cell_itask ` set (ys @ vs) \<union> insert k K = (cell_itask ` set ?zs \<union> K) - {}"
    "cell_itask ` set (ys @ vs) \<inter> insert k K = {}"
    unfolding sets using disj z_in by blast+
  have n_sub: "{n} \<subseteq> cell_node ` set ?zs \<union> N" using z_in(1) by blast
  note hu = heap_inv_update [OF relD(11) [OF r] i pop(4,2) subset_refl n_sub
      empty_subsetI empty_subsetI sets']
  have "map (cell_atask m) (ys @ vs) = bs @ cs" using pop(3) img by simp
  with hu(2) have at': "map (map (cell_atask m)) (xss[i := ys @ vs])
      = (map (map (cell_atask (pmem p))) xss)[i := bs @ cs]" by (simp only:)
  have rel: "rel (set_worker i w (p\<lparr>pmem := m\<rparr>)) (a\<lparr>a_queues := (a_queues a)[i := bs @ cs]\<rparr>)
      (xss[i := ys @ vs]) N (insert t T) (insert k K)"
    by (rule rel_queue [OF r i hu(1) at' pop(5)]) (simp_all add: qstep_fields [OF pop(4)])
  have cell: "cell_ok (pmem p) (n, t, k)" using q zs z by (simp add: wq_def)
  then obtain it where it: "itasks (pmem p) k = Some it" by (elim cell_okD)
  have same: "tasks m = tasks (pmem p)" "itasks m = itasks (pmem p)"
    by (simp_all add: qstep_fields [OF pop(4)])
  have "task_ok m t k"
    using cell task_ok_cong [of m t "pmem p" k] same by (simp add: cell_ok_def)
  moreover have "t \<noteq> NULL"
    using rel_in_hand(2) [OF rel, of t] by simp
  moreover have "t \<notin> T" "k \<notin> K" using disj z_in by blast+
  moreover have "atask_of it = at" using img(2) it by (simp add: z cell_atask_def)
  moreover have "itasks m k = Some it" using it same by simp
  ultimately show thesis using that [OF pop(1) rel] pop(5) by blast
qed

lemma rel_cancel:
  assumes r: "rel p a xss N T K" and i: "i < NUM_WORKERS"
  obtains m w xss' where "cancel_in_worker_queue (pmem p) (workers p ! i) r
      = Some (of_nat (length (filter (\<lambda>t. at_req t = r) (a_queues a ! i))), m, w)"
    "rel (set_worker i w (p\<lparr>pmem := m\<rparr>))
       (a\<lparr>a_queues := (a_queues a)[i := filter (\<lambda>t. at_req t \<noteq> r) (a_queues a ! i)]\<rparr>) xss' N T K"
    "ctxs m = ctxs (pmem p)"
proof -
  let ?zs = "xss ! i" and ?P = "\<lambda>z. cell_req (pmem p) z = r"
  let ?D = "{z \<in> set ?zs. ?P z}" and ?rest = "filter (\<lambda>z. \<not> ?P z) ?zs"
  note l = rel_lengths [OF r]
  have q: "wq (pmem p) (workers p ! i) ?zs" by (rule rel_nth(5) [OF r i])
  have sub: "set ?zs \<subseteq> set (concat xss)" using set_concat_nth [of i xss] i l(2) by simp
  note im = image_mono [OF sub, of cell_node] image_mono [OF sub, of "\<lambda>z. cell_task z"]
    image_mono [OF sub, of "\<lambda>z. cell_itask z"]
  have disj: "cell_node ` set ?zs \<inter> N = {}" "cell_task ` set ?zs \<inter> T = {}"
    "cell_itask ` set ?zs \<inter> K = {}"
    using im rel_disjoint [OF r] by blast+
  have nn: "NULL \<notin> cell_task ` set ?zs" "NULL \<notin> cell_itask ` set ?zs"
    using im ownsD(7) [OF rel_owns [OF r], of NULL] by blast+
  obtain m w where c: "cancel_in_worker_queue (pmem p) (workers p ! i) r
      = Some (of_nat (length (filter ?P ?zs)), m, w)" "wq m w ?rest"
    "map (cell_atask m) ?rest = map (cell_atask (pmem p)) ?rest"
    "qstep (pmem p) m (cell_node ` ?D) (cell_task ` ?D) (cell_itask ` ?D) (cell_node ` set ?zs)"
    "same_worker (workers p ! i) w"
    by (rule cancel_in_worker_queue_spec [OF q nn, of r])
  have inj: "inj_on cell_node (set ?zs)" "inj_on cell_task (set ?zs)" "inj_on cell_itask (set ?zs)"
    using q wq_distinct_nodes [OF q] by (auto simp: wq_def distinct_map)
  have rest: "set ?rest = set ?zs - ?D" by auto
  have img: "f ` set ?rest = f ` set ?zs - f ` ?D" if "inj_on f (set ?zs)" for f :: "cell \<Rightarrow> ptr"
    unfolding rest using inj_on_image_set_diff [OF that, of "set ?zs" ?D] by blast
  have Dsub: "f ` ?D \<subseteq> f ` set ?zs" for f :: "cell \<Rightarrow> ptr" by blast
  have sets: "f ` set ?rest \<union> X = (f ` set ?zs \<union> X) - f ` ?D" "f ` set ?rest \<inter> X = {}"
    if "inj_on f (set ?zs)" "f ` set ?zs \<inter> X = {}" for f :: "cell \<Rightarrow> ptr" and X
    unfolding img [OF that(1)] using that(2) Dsub [of f] by blast+
  note hu = heap_inv_update [OF relD(11) [OF r] i c(4,2) subset_refl
      le_supI1 [OF Dsub] le_supI1 [OF Dsub] le_supI1 [OF Dsub]
      sets [OF inj(1) disj(1)] sets [OF inj(2) disj(2)] sets [OF inj(3) disj(3)]]
  have q_at: "a_queues a ! i = map (cell_atask (pmem p)) ?zs" by (rule rel_nth(4) [OF r i])
  then have rest_at: "map (cell_atask m) ?rest = filter (\<lambda>t. at_req t \<noteq> r) (a_queues a ! i)"
    using c(3) by (simp add: filter_map comp_def)
  have at': "map (map (cell_atask m)) (xss[i := ?rest])
      = (map (map (cell_atask (pmem p))) xss)[i := filter (\<lambda>t. at_req t \<noteq> r) (a_queues a ! i)]"
    unfolding hu(2) rest_at ..
  have "rel (set_worker i w (p\<lparr>pmem := m\<rparr>))
       (a\<lparr>a_queues := (a_queues a)[i := filter (\<lambda>t. at_req t \<noteq> r) (a_queues a ! i)]\<rparr>)
       (xss[i := ?rest]) N T K"
    by (rule rel_queue [OF r i hu(1) at' c(5)]) (simp_all add: qstep_fields [OF c(4)])
  moreover have "length (filter ?P ?zs) = length (filter (\<lambda>t. at_req t = r) (a_queues a ! i))"
    by (simp add: q_at filter_map comp_def)
  ultimately show thesis using c(1) qstep_fields(3) [OF c(4)] that [of m w] by simp
qed

section \<open>The request table and the task ids\<close>

lemma rel_find_none:
  "rel p a xss N T K \<Longrightarrow> a_ctx a r = None \<Longrightarrow> find_req_context (pmem p) (req_hash p) r = Some NULL"
  by (rule find_req_context_none [OF relD(13)])

lemma rel_find_some:
  assumes "rel p a xss N T K" "a_ctx a r = Some c"
  obtains q cx where "find_req_context (pmem p) (req_hash p) r = Some q" "q \<noteq> NULL"
    "ctxs (pmem p) q = Some cx" "rc_request_id cx = r" "actx_of cx = c"
    "rc_worker_idx cx = ac_worker c" "rc_pending_count cx = ac_pending c"
    "rc_batch_cb cx = ac_cb c" "rc_batch_user_data cx = ac_data c" "ac_worker c < NUM_WORKERS"
proof -
  obtain q cx where q: "find_req_context (pmem p) (req_hash p) r = Some q" "q \<noteq> NULL"
    "ctxs (pmem p) q = Some cx" "rc_request_id cx = r" "actx_of cx = c"
    by (rule find_req_context_some [OF relD(13) [OF assms(1)] assms(2)])
  then have "rc_worker_idx cx = ac_worker c" "rc_pending_count cx = ac_pending c"
    "rc_batch_cb cx = ac_cb c" "rc_batch_user_data cx = ac_data c"
    by (auto simp: actx_of_def)
  with q show thesis using relD(14) [OF assms] by (rule that)
qed

lemma rel_ctxs:
  assumes r: "rel p a xss N T K" and h: "ht m hash A"
    and w: "\<And>r c. A r = Some c \<Longrightarrow> ac_worker c < NUM_WORKERS"
    and m: "m = (pmem p)\<lparr>ctxs := C\<rparr>" and C: "\<And>q. q \<in> dom C \<Longrightarrow> 0 < q \<and> q < brk (pmem p)"
  shows "rel (p\<lparr>pmem := m, req_hash := hash\<rparr>) (a\<lparr>a_ctx := A\<rparr>) xss N T K"
proof -
  have "owns m (cell_node ` set (concat xss) \<union> N) (cell_task ` set (concat xss) \<union> T)
      (cell_itask ` set (concat xss) \<union> K) (dom (ctxs m)) (dom (id_arrays m))"
    using rel_owns [OF r] C unfolding m owns_def by (auto simp del: set_concat)
  from rel_mem [OF r _ _ _ this rel_disjoint [OF r] h w]
  have "rel (p\<lparr>pmem := m, req_hash := hash\<rparr>)
    (a\<lparr>brk := brk m, calls := calls m, malloc_ok := malloc_ok m, a_arrays := id_arrays m,
       a_ctx := A\<rparr>) xss N T K"
    by (simp add: m)
  then show ?thesis using relD(1-4) [OF r] by (simp add: m)
qed

lemma rel_ctx_range:
  assumes "rel p a xss N T K" "q \<in> dom (ctxs (pmem p))" shows "0 < q \<and> q < brk (pmem p)"
  using rel_owns [OF assms(1)] assms(2) unfolding owns_def by blast

lemma rel_ctx_write:
  assumes r: "rel p a xss N T K" and q: "ctxs (pmem p) q = Some cx"
    and keep: "rc_request_id cx' = rc_request_id cx" "rc_next cx' = rc_next cx"
      "rc_worker_idx cx' = rc_worker_idx cx"
  shows "rel (p\<lparr>pmem := (pmem p)\<lparr>ctxs := (ctxs (pmem p))(q \<mapsto> cx')\<rparr>\<rparr>)
    (a\<lparr>a_ctx := (a_ctx a)(rc_request_id cx \<mapsto> actx_of cx')\<rparr>) xss N T K"
proof -
  let ?m = "(pmem p)\<lparr>ctxs := (ctxs (pmem p))(q \<mapsto> cx')\<rparr>"
  have "a_ctx a (rc_request_id cx) = Some (actx_of cx)" by (rule htD(3) [OF relD(13) [OF r] q])
  from relD(14) [OF r this] have w: "ac_worker (actx_of cx') < NUM_WORKERS"
    by (simp add: actx_of_def keep(3))
  have dom: "0 < q' \<and> q' < brk (pmem p)" if "q' \<in> dom ((ctxs (pmem p))(q \<mapsto> cx'))" for q'
    using that q by (intro rel_ctx_range [OF r]) auto
  have "rel (p\<lparr>pmem := ?m, req_hash := req_hash p\<rparr>)
      (a\<lparr>a_ctx := (a_ctx a)(rc_request_id cx \<mapsto> actx_of cx')\<rparr>) xss N T K"
    by (rule rel_ctxs [OF r ht_write [OF relD(13) [OF r] q keep(1,2)] _ refl dom])
      (use w relD(14) [OF r] in \<open>auto split: if_splits\<close>)
  then show ?thesis by simp
qed

lemma rel_ctx_insert:
  assumes r: "rel p a xss N T K" and u: "unused (pmem p) q"
    and new: "a_ctx a (rc_request_id cx) = None" "rc_worker_idx cx < NUM_WORKERS"
  obtains m hash where
    "insert_req_context ((pmem p)\<lparr>ctxs := (ctxs (pmem p))(q \<mapsto> cx)\<rparr>) (req_hash p) q = Some (m, hash)"
    "rel (p\<lparr>pmem := m, req_hash := hash\<rparr>)
       (a\<lparr>a_ctx := (a_ctx a)(rc_request_id cx \<mapsto> actx_of cx)\<rparr>) xss N T K"
proof -
  have q: "ctxs (pmem p) q = None" "q \<noteq> NULL" "q < brk (pmem p)" using u by (simp_all add: unused_def)
  let ?cx = "cx\<lparr>rc_next := req_hash p (bucket (rc_request_id cx))\<rparr>"
  obtain m hash where ins: "insert_req_context ((pmem p)\<lparr>ctxs := (ctxs (pmem p))(q \<mapsto> cx)\<rparr>)
      (req_hash p) q = Some (m, hash)"
    "ht m hash ((a_ctx a)(rc_request_id cx \<mapsto> actx_of cx))"
    "m = (pmem p)\<lparr>ctxs := (ctxs (pmem p))(q \<mapsto> ?cx)\<rparr>"
    by (rule insert_req_context_spec [OF relD(13) [OF r] new(1) q(1,2)])
  have dom: "0 < q' \<and> q' < brk (pmem p)" if "q' \<in> dom ((ctxs (pmem p))(q \<mapsto> ?cx))" for q'
    using that q rel_ctx_range [OF r, of q'] by (cases "q' = q") auto
  have "rel (p\<lparr>pmem := m, req_hash := hash\<rparr>)
      (a\<lparr>a_ctx := (a_ctx a)(rc_request_id cx \<mapsto> actx_of cx)\<rparr>) xss N T K"
    by (rule rel_ctxs [OF r ins(2) _ ins(3) dom])
      (use new(2) relD(14) [OF r] in \<open>auto simp: actx_of_def split: if_splits\<close>)
  with ins(1) show thesis by (rule that)
qed

lemma rel_ctx_remove:
  assumes r: "rel p a xss N T K" and c: "a_ctx a r = Some c"
  obtains m hash where "remove_req_context (pmem p) (req_hash p) r = Some (m, hash)"
    "rel (p\<lparr>pmem := m, req_hash := hash\<rparr>) (a\<lparr>a_ctx := (a_ctx a)(r := None)\<rparr>) xss N T K"
proof -
  obtain q cx where q: "ctxs (pmem p) q = Some cx" "rc_request_id cx = r"
    by (rule rel_find_some [OF r c])
  obtain m hash where rm: "remove_req_context (pmem p) (req_hash p) r = Some (m, hash)"
    "ht m hash ((a_ctx a)(r := None))" "m = (pmem p)\<lparr>ctxs := ctxs m\<rparr>"
    "dom (ctxs m) = dom (ctxs (pmem p)) - {q}"
    by (rule remove_req_context_some [OF relD(13) [OF r] q])
  have "rel (p\<lparr>pmem := m, req_hash := hash\<rparr>) (a\<lparr>a_ctx := (a_ctx a)(r := None)\<rparr>) xss N T K"
    by (rule rel_ctxs [OF r rm(2) _ rm(3)])
      (use rm(4) relD(14) [OF r] rel_ctx_range [OF r] in \<open>auto split: if_splits\<close>)
  with rm(1) show thesis by (rule that)
qed

lemma rel_gen_id:
  "rel p a xss N T K \<Longrightarrow> generate_task_id p = (next_task_id p, p') \<Longrightarrow>
     rel p' (a\<lparr>a_next := a_next a + 1\<rparr>) xss N T K \<and> next_task_id p = a_next a"
  by (auto simp: generate_task_id_def rel_def)

lemma rel_flags:
  "rel p a xss N T K \<Longrightarrow> rel (p\<lparr>is_running := b\<rparr>) (a\<lparr>a_running := b\<rparr>) xss N T K"
  "rel p a xss N T K \<Longrightarrow> rel (p\<lparr>is_destroying := b\<rparr>) (a\<lparr>a_destroying := b\<rparr>) xss N T K"
  by (simp_all add: rel_def)

end
