(* ===== verification/PoolRefine.thy ===== *)
theory PoolRefine
  imports PoolRel
begin

text \<open>
  Every operation of the pool refines its abstract counterpart: started in related states, the
  two are undefined together, or return the same result in related states.
\<close>

section \<open>Selection of a worker\<close>

lemma select_loop_find:
  assumes "\<forall>w \<in> set ws. state w \<noteq> WORKER_STATE_BUSY"
  shows "select_loop ws i None ml = map_option (\<lambda>j. i + j)
    (List.find (\<lambda>j. state (ws ! j) = WORKER_STATE_IDLE \<and> queue_size (ws ! j) = 0) [0..<length ws])"
  using assms
proof (induction ws arbitrary: i)
  case (Cons w ws)
  have "[0..<length (w # ws)] = 0 # map Suc [0..<length ws]"
    by (simp add: upt_conv_Cons map_Suc_upt del: upt_Suc)
  moreover have "List.find P (map Suc ks) = map_option Suc (List.find (P \<circ> Suc) ks)" for P ks
    by (induction ks) auto
  ultimately show ?case using Cons
    by (auto simp: comp_def option.map_comp simp del: upt_Suc intro!: option.map_cong)
qed simp

lemma rel_select:
  assumes r: "rel p a xss N T K" and b: "WORKER_STATE_BUSY \<notin> set (a_states a)"
  shows "select_best_worker p = a_select a"
proof -
  note l = rel_lengths [OF r]
  have nb: "\<forall>w \<in> set (workers p). state w \<noteq> WORKER_STATE_BUSY"
    using b by (force simp flip: relD(8) [OF r])
  have "queue_size (workers p ! j) = of_nat (length (a_queues a ! j))" if "j < NUM_WORKERS" for j
    using rel_nth(4,5) [OF r that] by (simp add: wq_def)
  then have "List.find (\<lambda>j. state (workers p ! j) = WORKER_STATE_IDLE \<and> queue_size (workers p ! j) = 0)
      [0..<NUM_WORKERS] = a_select a"
    unfolding a_select_def using rel_nth(1) [OF r] by (intro find_cong) auto
  then show ?thesis
    using select_loop_find [OF nb, of 0 "- 1"] l(1)
    by (simp add: select_best_worker_def option.map_ident)
qed

lemma a_select_Some:
  assumes "a_select a = Some i"
  shows "i < NUM_WORKERS" "a_states a ! i = WORKER_STATE_IDLE"
    "(of_nat (length (a_queues a ! i)) :: u32) = 0"
  using assms by (auto simp: a_select_def find_Some_iff)

lemma a_select_cong:
  "a_states a' = a_states a \<Longrightarrow> a_queues a' = a_queues a \<Longrightarrow> a_select a' = a_select a"
  by (simp add: a_select_def)

section \<open>Counting tasks in the request table\<close>

lemma rel_update_batch_context:
  assumes r: "rel p a xss N T K" and i: "i < NUM_WORKERS"
    and c: "a_count q n i cb data a = (ok, a')"
  obtains p' where "update_batch_context p q i n cb data = Some (ok, p')" "rel p' a' xss N T K"
    "a_states a' = a_states a"
proof (cases "a_ctx a q")
  case (Some c)
  obtain x cx where x: "find_req_context (pmem p) (req_hash p) q = Some x" "x \<noteq> NULL"
    "ctxs (pmem p) x = Some cx" "rc_request_id cx = q" "actx_of cx = c"
    by (rule rel_find_some [OF r Some])
  note w = rel_ctx_write [OF r x(3), of "cx\<lparr>rc_pending_count := rc_pending_count cx + n\<rparr>"]
  have "actx_of (cx\<lparr>rc_pending_count := rc_pending_count cx + n\<rparr>)
      = c\<lparr>ac_pending := ac_pending c + n\<rparr>"
    by (simp add: actx_of_def flip: x(5))
  with w x c Some show thesis
    by (intro that) (auto simp: update_batch_context_def add_pending_def a_count_def)
next
  case None
  obtain x m where m: "malloc_n 1 (pmem p) = (x, m)" by (cases "malloc_n 1 (pmem p)")
  obtain a1 where a1: "malloc_n 1 a = (x, a1)" "rel (p\<lparr>pmem := m\<rparr>) a1 xss N T K"
    "x \<noteq> NULL \<Longrightarrow> unused m x" "a1 = a\<lparr>brk := brk a1, calls := calls a1\<rparr>"
    using rel_malloc [OF r m] by blast
  have keep: "a_ctx a1 = a_ctx a" "a_states a1 = a_states a" by (subst a1(4), simp)+
  note find = rel_find_none [OF r None]
  show thesis
  proof (cases "x = NULL")
    case True
    with find m a1 c None keep show thesis
      by (intro that [of "p\<lparr>pmem := m\<rparr>"]) (auto simp: update_batch_context_def a_count_def)
  next
    case False
    have u: "unused (pmem (p\<lparr>pmem := m\<rparr>)) x" using a1(3) False by simp
    let ?cx = "new_context q i n cb data"
    have "a_ctx a1 (rc_request_id ?cx) = None" "rc_worker_idx ?cx < NUM_WORKERS"
      using None i keep by (simp_all add: new_context_def)
    then obtain m' hash where
      "insert_req_context (m\<lparr>ctxs := (ctxs m)(x \<mapsto> ?cx)\<rparr>) (req_hash p) x = Some (m', hash)"
      "rel (p\<lparr>pmem := m', req_hash := hash\<rparr>)
         (a1\<lparr>a_ctx := (a_ctx a1)(rc_request_id ?cx \<mapsto> actx_of ?cx)\<rparr>) xss N T K"
      using rel_ctx_insert [OF a1(2) u, of ?cx] by auto
    with find m a1(1) c None keep False show thesis
      by (intro that [of "p\<lparr>pmem := m', req_hash := hash\<rparr>"])
        (auto simp: update_batch_context_def a_count_def new_context_def actx_of_def)
  qed
qed

text \<open>A single submission does the same as a batch of one, but dies when there is no context.\<close>

lemma submit_update_context_batch:
  "submit_update_context p q i =
     do {
       (ok, p') \<leftarrow> update_batch_context p q i 1 NULL NULL;
       if ok then Some p' else None
     }"
  by (auto simp: submit_update_context_def update_batch_context_def Let_def
      split: Option.bind_splits prod.splits)

section \<open>Submission of one task\<close>

lemma pool_relI: "rel p a xss {} {} {} \<Longrightarrow> WORKER_STATE_BUSY \<notin> set (a_states a) \<Longrightarrow> pool_rel p a"
  by (auto simp: pool_rel_def)

text \<open>After the two objects are filled in: choosing a worker, pushing and counting.\<close>

lemma submit_dispatch_refine:
  assumes r: "rel p a xss {} {t} {k}" and b: "WORKER_STATE_BUSY \<notin> set (a_states a)"
    and tk: "task_ok (pmem p) t k" "itasks (pmem p) k = Some it" and v: "v = it_task_id it"
  shows "rel_option (rel_prod (=) pool_rel)
    (case select_best_worker p of
       None \<Rightarrow> do { p3 \<leftarrow> free_task_and_itask t k p; Some (0, p3) }
     | Some i \<Rightarrow>
         do {
           (ok, m4, w) \<leftarrow> worker_queue_push (pmem p) (workers p ! i) t;
           let p3 = set_worker i w (p\<lparr>pmem := m4\<rparr>);
           if \<not> ok
           then do { p4 \<leftarrow> free_task_and_itask t k p3; Some (0, p4) }
           else do {
             p4 \<leftarrow> submit_update_context p3 q (worker_idx w);
             Some (v, p4)
           }
         })
    (case a_select a of None \<Rightarrow> Some (0, a) | Some i \<Rightarrow>
       let (n, a4) = malloc1 a in
       if n = NULL then Some (0, a4)
       else
         let (ok, a5) = a_count q 1 i NULL NULL (a_enqueue i [atask_of it] a4)
         in if ok then Some (v, a5) else None)"
proof (cases "a_select a")
  case None
  obtain p3 where "free_task_and_itask t k p = Some p3" "rel p3 a xss {} ({t} - {t}) ({k} - {k})"
    using rel_free_task_and_itask [OF r, of t k] by auto
  with None rel_select [OF r b] b show ?thesis by (auto intro: pool_relI)
next
  case (Some i)
  have i: "i < NUM_WORKERS" using a_select_Some(1) [OF Some] .
  note sel = rel_select [OF r b] Some
  obtain n a4 where a4: "malloc_n 1 a = (n, a4)" by (cases "malloc_n 1 a")
  have s4: "a_states a4 = a_states a" using a4 by (auto simp: malloc_n_def split: if_splits)
  show ?thesis
  proof (cases "n = NULL")
    case True
    have nok: "\<not> malloc_ok (pmem p) (calls (pmem p))"
      using True a4 relD(1-3) [OF r] ownsD(6) [OF rel_owns [OF r]]
      by (auto simp: malloc_n_def split: if_splits)
    let ?m4 = "(pmem p)\<lparr>calls := Suc (calls (pmem p))\<rparr>"
    have same: "set_worker i (workers p ! i) (p\<lparr>pmem := ?m4\<rparr>) = p\<lparr>pmem := ?m4\<rparr>"
      by (simp add: set_worker_def)
    have "malloc_n 1 (pmem p) = (NULL, ?m4)" using nok by (simp add: malloc_n_def)
    then have r4: "rel (p\<lparr>pmem := ?m4\<rparr>) a4 xss {} {t} {k}"
      using rel_malloc [OF r, of 1 NULL ?m4] a4 True by auto
    obtain p5 where "free_task_and_itask t k (p\<lparr>pmem := ?m4\<rparr>) = Some p5"
        "rel p5 a4 xss {} ({t} - {t}) ({k} - {k})"
      using rel_free_task_and_itask [OF r4, of t k] by auto
    with sel a4 True worker_queue_push_fail [OF nok] b s4 same show ?thesis
      by (auto intro: pool_relI)
  next
    case False
    obtain m' w xss' where push: "worker_queue_push (pmem p) (workers p ! i) t = Some (True, m', w)"
      "rel (set_worker i w (p\<lparr>pmem := m'\<rparr>)) (a_enqueue i [atask_of it] a4) xss' {} ({t} - {t}) ({k} - {k})"
      "worker_idx w = i"
      by (rule rel_push [OF r i _ _ tk a4 False]) auto
    obtain ok a5 where c: "a_count q 1 i NULL NULL (a_enqueue i [atask_of it] a4) = (ok, a5)"
      by (cases "a_count q 1 i NULL NULL (a_enqueue i [atask_of it] a4)")
    obtain p' where "update_batch_context (set_worker i w (p\<lparr>pmem := m'\<rparr>)) q i 1 NULL NULL = Some (ok, p')"
      "rel p' a5 xss' {} ({t} - {t}) ({k} - {k})"
      "a_states a5 = a_states (a_enqueue i [atask_of it] a4)"
      by (rule rel_update_batch_context [OF push(2) i c])
    then show ?thesis
      using sel a4 False push(1,3) c b s4
      by (auto simp: submit_update_context_batch a_enqueue_def intro: pool_relI)
  qed
qed

lemma submit_refine:
  assumes "pool_rel p a"
  shows "rel_option (rel_prod (=) pool_rel)
    (thread_pool_submit_task p q func arg cb data) (a_submit q func arg cb data a)"
proof -
  obtain xss where r: "rel p a xss {} {} {}" and b: "WORKER_STATE_BUSY \<notin> set (a_states a)"
    using assms by (auto simp: pool_rel_def)
  show ?thesis
  proof (cases "func = None \<or> \<not> a_running a")
    case True
    then show ?thesis
      using assms relD(5) [OF r]
      by (cases func) (auto simp: thread_pool_submit_task_def a_submit_def)
  next
    case False
    then obtain fn where fn: "func = Some fn" and run: "a_running a" "is_running p"
      using relD(5) [OF r] by auto
    obtain k m1 where m1: "malloc_n 1 (pmem p) = (k, m1)" by (cases "malloc_n 1 (pmem p)")
    obtain a1 where a1: "malloc_n 1 a = (k, a1)" "rel (p\<lparr>pmem := m1\<rparr>) a1 xss {} {} {}"
      "k \<noteq> NULL \<Longrightarrow> unused m1 k" "a1 = a\<lparr>brk := brk a1, calls := calls a1\<rparr>"
      using rel_malloc [OF r m1] by blast
    have s1: "a_states a1 = a_states a" by (subst a1(4)) simp
    show ?thesis
    proof (cases "k = NULL")
      case True
      then show ?thesis
        using a1(2) b s1 fn run m1 a1(1)
        by (auto simp: thread_pool_submit_task_def a_submit_def intro: pool_relI)
    next
      case k: False
      let ?it0 = "new_itask fn arg cb data 0 q"
      let ?m1 = "m1\<lparr>itasks := (itasks m1)(k \<mapsto> ?it0)\<rparr>"
      have u1: "unused (pmem (p\<lparr>pmem := m1\<rparr>)) k" using a1(3) k by simp
      have r1: "rel (p\<lparr>pmem := ?m1\<rparr>) a1 xss {} {} {k}"
        using rel_write_itask [OF a1(2), of k ?it0] u1 unused_not_cell(3) [OF a1(2) u1]
        by (simp add: unused_def)
      obtain t m2 where m2: "malloc_n 1 ?m1 = (t, m2)" by (cases "malloc_n 1 ?m1")
      obtain a2 where a2: "malloc_n 1 a1 = (t, a2)" "rel (p\<lparr>pmem := m2\<rparr>) a2 xss {} {} {k}"
        "t \<noteq> NULL \<Longrightarrow> unused m2 t" "a2 = a1\<lparr>brk := brk a2, calls := calls a2\<rparr>"
        using rel_malloc [OF r1, of 1 t m2] m2 by auto
      have s2: "a_states a2 = a_states a" by (subst a2(4)) (simp add: s1)
      show ?thesis
      proof (cases "t = NULL")
        case True
        obtain m3 where "free_itask k m2 = Some m3" "rel (p\<lparr>pmem := m3\<rparr>) a2 xss {} {} ({k} - {k})"
          using rel_free_itask [OF a2(2), of k] by auto
        then show ?thesis
          using True fn run m1 a1(1) k m2 a2(1) b s2
          by (auto simp: thread_pool_submit_task_def a_submit_def intro: pool_relI)
      next
        case t: False
        let ?id = "a_next a2" and ?a3 = "a2\<lparr>a_next := a_next a2 + 1\<rparr>"
        let ?it = "new_itask fn arg cb data ?id q" and ?tk = "new_task ?id q k"
        let ?p1 = "p\<lparr>pmem := m2, next_task_id := ?id + 1\<rparr>"
        let ?m3 = "m2\<lparr>tasks := (tasks m2)(t \<mapsto> ?tk), itasks := (itasks m2)(k \<mapsto> ?it)\<rparr>"
        have gen: "generate_task_id (p\<lparr>pmem := m2\<rparr>) = (?id, ?p1)"
          using relD(7) [OF a2(2)] by (simp add: generate_task_id_def)
        then have r3: "rel ?p1 ?a3 xss {} {} {k}"
          using rel_gen_id [OF a2(2), of ?p1] relD(7) [OF a2(2)] by simp
        have r4: "rel (?p1\<lparr>pmem := ?m3\<rparr>) ?a3 xss {} {t} {k}"
          using rel_fill_task [OF r3, of k t ?it ?tk] a2(3) t by simp
        have "task_ok ?m3 t k" "itasks ?m3 k = Some ?it" "?id = it_task_id ?it"
          by (simp_all add: task_ok_def new_task_def new_itask_def)
        moreover have at: "atask_of ?it = \<lparr>at_id = ?id, at_req = q, at_fn = fn, at_arg = arg, at_cb = cb,
            at_data = data\<rparr>" by (simp add: atask_of_def new_itask_def)
        ultimately show ?thesis
          using submit_dispatch_refine [OF r4, of ?it ?id q, unfolded at] b s2 fn run m1 a1(1) k m2 a2(1) t gen
          by (simp add: thread_pool_submit_task_def a_submit_def Let_def cong: option.case_cong prod.case_cong if_cong)
      qed
    qed
  qed
qed

section \<open>Submission of a batch\<close>

text \<open>The objects in hand are as they were.\<close>

definition hand_frame :: "mem \<Rightarrow> mem \<Rightarrow> ptr set \<Rightarrow> ptr set \<Rightarrow> ptr set \<Rightarrow> bool" where
  "hand_frame m m' N T K \<longleftrightarrow>
     (\<forall>x \<in> N. nodes m' x = nodes m x) \<and> (\<forall>x \<in> T. tasks m' x = tasks m x) \<and>
     (\<forall>x \<in> K. itasks m' x = itasks m x)"

lemma malloc_arrays:
  "malloc_n n (a\<lparr>a_arrays := X\<rparr>) = map_prod id (\<lambda>a. a\<lparr>a_arrays := X\<rparr>) (malloc_n n a)"
  by (simp add: malloc_n_def)

lemma a_new_task_arrays:
  "a_new_task src q cb data (a\<lparr>a_arrays := X\<rparr>)
     = map_prod id (\<lambda>a. a\<lparr>a_arrays := X\<rparr>) (a_new_task src q cb data a)"
  by (simp add: a_new_task_def malloc_n_def)

lemma a_build_arrays:
  "a_build srcs q cb data (a\<lparr>a_arrays := X\<rparr>) acc
     = map_prod id (\<lambda>a. a\<lparr>a_arrays := X\<rparr>) (a_build srcs q cb data a acc)"
  by (induction srcs arbitrary: a acc)
    (auto simp: a_new_task_arrays split: prod.splits option.splits)

lemma a_new_task_keeps:
  assumes "a_new_task src q cb data a = (res, a')"
  shows "a' = a\<lparr>brk := brk a', calls := calls a', a_next := a_next a'\<rparr>"
  using assms by (auto simp: a_new_task_def malloc_n_def split: if_splits)

lemma a_build_keeps:
  assumes "a_build srcs q cb data a acc = (res, a')"
  shows "a' = a\<lparr>brk := brk a', calls := calls a', a_next := a_next a'\<rparr>"
  using assms
proof (induction srcs arbitrary: a acc)
  case (Cons src srcs)
  obtain x a1 where x: "a_new_task src q cb data a = (x, a1)" by (cases "a_new_task src q cb data a")
  note k = a_new_task_keeps [OF x]
  show ?case
  proof (cases x)
    case None
    with Cons.prems x k show ?thesis by simp
  next
    case (Some t)
    with Cons.prems x have "a' = a1\<lparr>brk := brk a', calls := calls a', a_next := a_next a'\<rparr>"
      by (intro Cons.IH) simp
    with k show ?thesis by (cases a; cases a1; cases a') simp
  qed
qed simp

lemma create_batch_node_refine:
  assumes r: "rel p a xss N T K" and arr: "a_arrays a arr = Some ids" "i < length ids"
    and c: "a_new_task src q cb data a = (res, a')"
  obtains (fail) p' ids' where "res = None" "create_batch_node p src q cb data arr i = Some (NULL, p')"
      "rel p' (a'\<lparr>a_arrays := (a_arrays a)(arr \<mapsto> ids')\<rparr>) xss N T K"
      "hand_frame (pmem p) (pmem p') N T K"
  | (ok) n t k p' where
      "res = Some (cell_atask (pmem p') (n, t, k))"
      "create_batch_node p src q cb data arr i = Some (n, p')" "n \<noteq> NULL"
      "rel p' (a'\<lparr>a_arrays := (a_arrays a)(arr \<mapsto> ids[i := at_id (cell_atask (pmem p') (n, t, k))])\<rparr>)
         xss (insert n N) (insert t T) (insert k K)"
      "hand_frame (pmem p) (pmem p') N T K" "n \<notin> N" "t \<notin> T" "k \<notin> K"
      "cell_ok (pmem p') (n, t, k)" "tn_nxt (pmem p') n = Some NULL"
proof -
  obtain k m1 where m1: "malloc_n 1 (pmem p) = (k, m1)" by (cases "malloc_n 1 (pmem p)")
  obtain a1 where a1: "malloc_n 1 a = (k, a1)" "rel (p\<lparr>pmem := m1\<rparr>) a1 xss N T K"
    "k \<noteq> NULL \<Longrightarrow> unused m1 k" "a1 = a\<lparr>brk := brk a1, calls := calls a1\<rparr>"
    "m1 = (pmem p)\<lparr>brk := brk m1, calls := calls m1\<rparr>"
    using rel_malloc [OF r m1] by blast
  have k1: "a_arrays a1 = a_arrays a" by (subst a1(4)) simp
  have n1: "nodes m1 = nodes (pmem p)" "tasks m1 = tasks (pmem p)" "itasks m1 = itasks (pmem p)"
    by (subst a1(5), simp)+
  have same: "x\<lparr>a_arrays := (a_arrays a)(arr \<mapsto> ids)\<rparr> = x" if "a_arrays x = a_arrays a" for x :: apool
    using that arr(1) by (simp add: fun_upd_idem flip: that)
  note defs = create_batch_node_def a_new_task_def
  show thesis
  proof (cases "k = NULL")
    case True
    with m1 a1(1,2) c n1 same [OF k1] show thesis
      by (intro fail [of "p\<lparr>pmem := m1\<rparr>" ids]) (auto simp: defs hand_frame_def)
  next
    case k: False
    let ?it0 = "new_itask (task_func src) (task_arg src) cb data 0 q"
    let ?m1 = "m1\<lparr>itasks := (itasks m1)(k \<mapsto> ?it0)\<rparr>"
    have u1: "unused (pmem (p\<lparr>pmem := m1\<rparr>)) k" using a1(3) k by simp
    have kK: "k \<notin> K" using unused_not_cell(6) [OF a1(2) u1] .
    have r1: "rel (p\<lparr>pmem := ?m1\<rparr>) a1 xss N T (insert k K)"
      using rel_write_itask [OF a1(2), of k ?it0] u1 unused_not_cell(3) [OF a1(2) u1]
      by (simp add: unused_def)
    obtain t m2 where m2: "malloc_n 1 ?m1 = (t, m2)" by (cases "malloc_n 1 ?m1")
    obtain a2 where a2: "malloc_n 1 a1 = (t, a2)" "rel (p\<lparr>pmem := m2\<rparr>) a2 xss N T (insert k K)"
      "t \<noteq> NULL \<Longrightarrow> unused m2 t" "a2 = a1\<lparr>brk := brk a2, calls := calls a2\<rparr>"
      "m2 = ?m1\<lparr>brk := brk m2, calls := calls m2\<rparr>"
      using rel_malloc [OF r1, of 1 t m2] m2 by auto
    have k2: "a_arrays a2 = a_arrays a" by (subst a2(4)) (simp add: k1)
    have n2: "nodes m2 = nodes m1" "tasks m2 = tasks m1" "itasks m2 = (itasks m1)(k \<mapsto> ?it0)"
      by (subst a2(5), simp)+
    show thesis
    proof (cases "t = NULL")
      case True
      obtain m3 where m3: "free_itask k m2 = Some m3" "rel (p\<lparr>pmem := m3\<rparr>) a2 xss N T (insert k K - {k})"
          "m3 = m2\<lparr>itasks := (itasks m2)(k := None)\<rparr>"
        using rel_free_itask [OF a2(2), of k] by auto
      have "hand_frame (pmem p) m3 N T K"
        using kK n1 n2 by (auto simp: hand_frame_def m3(3))
      with True m1 a1(1) k m2 a2(1) c m3(1,2) kK same [OF k2] show thesis
        by (intro fail [of "p\<lparr>pmem := m3\<rparr>" ids]) (auto simp: defs)
    next
      case t: False
      let ?id = "a_next a2" and ?a3 = "a2\<lparr>a_next := a_next a2 + 1\<rparr>"
      let ?it = "new_itask (task_func src) (task_arg src) cb data ?id q" and ?tk = "new_task ?id q k"
      let ?p1 = "p\<lparr>pmem := m2, next_task_id := ?id + 1\<rparr>"
      let ?m3 = "m2\<lparr>tasks := (tasks m2)(t \<mapsto> ?tk), itasks := (itasks m2)(k \<mapsto> ?it)\<rparr>"
      let ?ids = "ids[i := ?id]"
      let ?m4 = "?m3\<lparr>id_arrays := (id_arrays ?m3)(arr \<mapsto> ?ids)\<rparr>"
      let ?X = "(a_arrays a)(arr \<mapsto> ?ids)"
      have gen: "generate_task_id (p\<lparr>pmem := m2\<rparr>) = (?id, ?p1)"
        using relD(7) [OF a2(2)] by (simp add: generate_task_id_def)
      then have r2: "rel ?p1 ?a3 xss N T (insert k K)"
        using rel_gen_id [OF a2(2), of ?p1] relD(7) [OF a2(2)] by simp
      have ut: "unused (pmem ?p1) t" using a2(3) t by simp
      have tT: "t \<notin> T" using unused_not_cell(5) [OF r2 ut] .
      have r3: "rel (?p1\<lparr>pmem := ?m3\<rparr>) ?a3 xss N (insert t T) (insert k K)"
        using rel_fill_task [OF r2, of k t ?it ?tk] ut by simp
      have live: "id_arrays m2 arr = Some ids" "0 < arr" "arr < brk m2"
        using relD(4) [OF r3] k2 arr(1) ownsD(7,8) [OF rel_owns [OF r3], of arr] by auto
      have r4: "rel (?p1\<lparr>pmem := ?m4\<rparr>) (?a3\<lparr>a_arrays := ?X\<rparr>) xss N (insert t T) (insert k K)"
        using rel_write_ids [OF r3, of arr ?ids] live k2 by simp
      have set_id: "set_id arr i ?id ?m3 = Some ?m4" using live arr(2) by (simp add: set_id_def)
      obtain n m5 where m5: "malloc_n 1 ?m4 = (n, m5)" by (cases "malloc_n 1 ?m4")
      obtain a5 where a5: "malloc_n 1 (?a3\<lparr>a_arrays := ?X\<rparr>) = (n, a5)"
        "rel (?p1\<lparr>pmem := m5\<rparr>) a5 xss N (insert t T) (insert k K)"
        "n \<noteq> NULL \<Longrightarrow> unused m5 n" "m5 = ?m4\<lparr>brk := brk m5, calls := calls m5\<rparr>"
        using rel_malloc [OF r4, of 1 n m5] m5 by auto
      obtain a3 where a3: "malloc_n 1 ?a3 = (n, a3)" "a5 = a3\<lparr>a_arrays := ?X\<rparr>"
        using a5(1) unfolding malloc_arrays by (auto simp: map_prod_def split: prod.splits)
      have n5: "nodes m5 = nodes m2" "tasks m5 = (tasks m2)(t \<mapsto> ?tk)"
          "itasks m5 = (itasks m2)(k \<mapsto> ?it)"
        by (subst a5(4), simp)+
      have frame: "hand_frame (pmem p) m5 N T K"
        using kK tT by (auto simp: hand_frame_def n5 n2 n1)
      note runs = m1 a1(1) k m2 a2(1) t gen set_id m5 a3(1)
      show thesis
      proof (cases "n = NULL")
        case True
        obtain m6 where m6: "free_task t m5 = Some m6"
            "rel (?p1\<lparr>pmem := m6\<rparr>) a5 xss N (insert t T - {t}) (insert k K)"
            "m6 = m5\<lparr>tasks := (tasks m5)(t := None)\<rparr>"
          using rel_free_task [OF a5(2), of t] by auto
        obtain m7 where m7: "free_itask k m6 = Some m7"
            "rel (?p1\<lparr>pmem := m7\<rparr>) a5 xss N (insert t T - {t}) (insert k K - {k})"
            "m7 = m6\<lparr>itasks := (itasks m6)(k := None)\<rparr>"
          using rel_free_itask [OF m6(2), of k] by auto
        have "hand_frame (pmem p) m7 N T K"
          using frame kK tT by (auto simp: hand_frame_def m7(3) m6(3))
        moreover have "rel (?p1\<lparr>pmem := m7\<rparr>) (a3\<lparr>a_arrays := ?X\<rparr>) xss N T K"
          using m7(2) kK tT a3(2) by simp
        moreover have "res = None" "a' = a3" using True c runs by (simp_all add: a_new_task_def)
        moreover have "create_batch_node p src q cb data arr i = Some (NULL, ?p1\<lparr>pmem := m7\<rparr>)"
          using True m6(1) m7(1) runs
          by (simp add: create_batch_node_def Let_def cong: if_cong)
        ultimately show thesis by (intro fail [of "?p1\<lparr>pmem := m7\<rparr>" ?ids]) simp_all
      next
        case False
        let ?m6 = "m5\<lparr>nodes := (nodes m5)(n \<mapsto> \<lparr>tn_task = t, tn_next = NULL\<rparr>)\<rparr>"
        have un: "unused (pmem (?p1\<lparr>pmem := m5\<rparr>)) n" using a5(3) False by simp
        have nN: "n \<notin> N" using unused_not_cell(4) [OF a5(2) un] .
        have r6: "rel (?p1\<lparr>pmem := ?m6\<rparr>) a5 xss (insert n N) (insert t T) (insert k K)"
          using rel_write_node [OF a5(2), of n "\<lparr>tn_task = t, tn_next = NULL\<rparr>"] un
            unused_not_cell(1) [OF a5(2) un] by (simp add: unused_def)
        have at: "cell_atask ?m6 (n, t, k) = \<lparr>at_id = ?id, at_req = q, at_fn = task_func src,
            at_arg = task_arg src, at_cb = cb, at_data = data\<rparr>"
          by (simp add: cell_atask_def n5 atask_of_def new_itask_def)
        have "cell_ok ?m6 (n, t, k)" "tn_nxt ?m6 n = Some NULL"
          by (simp_all add: cell_ok_def task_ok_def n5 new_task_def new_itask_def tn_nxt_def)
        moreover have "hand_frame (pmem p) ?m6 N T K" using frame nN by (auto simp: hand_frame_def)
        moreover have "res = Some (cell_atask ?m6 (n, t, k))" "a' = a3"
          unfolding at using False c runs by (simp_all add: a_new_task_def)
        moreover have "create_batch_node p src q cb data arr i = Some (n, ?p1\<lparr>pmem := ?m6\<rparr>)"
          using False runs by (simp add: create_batch_node_def Let_def cong: if_cong)
        ultimately show thesis
          using False r6 a3(2) nN tT kK at
          by (intro ok [of "?p1\<lparr>pmem := ?m6\<rparr>" n t k]) simp_all
      qed
    qed
  qed
qed

text \<open>A chain of cells in hand, not yet in any queue.\<close>

definition cell_chain :: "mem \<Rightarrow> cell list \<Rightarrow> bool" where
  "cell_chain m zs \<longleftrightarrow>
     lseg (tn_nxt m) (hd_or_null (map cell_node zs)) (map cell_node zs) NULL \<and>
     (\<forall>z \<in> set zs. cell_ok m z) \<and> distinct (map cell_task zs) \<and> distinct (map cell_itask zs)"

abbreviation "hand_rel p a xss zs \<equiv>
  rel p a xss (cell_node ` set zs) (cell_task ` set zs) (cell_itask ` set zs)"

lemma rel_destroy_chain:
  assumes r: "hand_rel p a xss zs" and c: "cell_chain (pmem p) zs"
  obtains m where "destroy_worker_loop (pmem p) (hd_or_null (map cell_node zs)) = Some m"
    "rel (p\<lparr>pmem := m\<rparr>) a xss {} {} {}"
proof -
  have nn: "NULL \<notin> cell_task ` set zs" "NULL \<notin> cell_itask ` set zs"
    using rel_in_hand(2,3) [OF r] by blast+
  obtain m where m: "destroy_worker_loop (pmem p) (hd_or_null (map cell_node zs)) = Some m"
    "qstep (pmem p) m (cell_node ` set zs) (cell_task ` set zs) (cell_itask ` set zs) {}"
    using destroy_worker_loop_spec [of "pmem p" "hd_or_null (map cell_node zs)" zs] c nn
    by (auto simp: cell_chain_def)
  have out: "cell_node z \<notin> cell_node ` set zs" "cell_task z \<notin> cell_task ` set zs"
    "cell_itask z \<notin> cell_itask ` set zs" if "z \<in> set (concat xss)" for z
    using rel_disjoint [OF r] that by blast+
  have eq: "(X \<union> Y) - Y = X \<union> {}" if "Y \<inter> X = {}" for X Y :: "ptr set" using that by blast
  have "rel (p\<lparr>pmem := m\<rparr>) a xss {} {} {}"
  proof (rule rel_mem_simple [OF r])
    show "nodes m (cell_node z) = nodes (pmem p) (cell_node z)" if "z \<in> set (concat xss)" for z
      using m(2) out(1) [OF that] by (simp add: qstep_def)
    show "owns m (cell_node ` set (concat xss) \<union> {}) (cell_task ` set (concat xss) \<union> {})
       (cell_itask ` set (concat xss) \<union> {}) (dom (ctxs m)) (dom (id_arrays m))"
      using qstep_owns [OF m(2) rel_owns [OF r]]
      unfolding eq [OF rel_disjoint(1) [OF r]] eq [OF rel_disjoint(2) [OF r]]
        eq [OF rel_disjoint(3) [OF r]] by (simp add: qstep_fields [OF m(2)])
  qed (use out in \<open>simp_all add: qstep_fields [OF m(2)]\<close>)
  with m(1) show thesis by (rule that)
qed

lemma cell_chain_frame:
  assumes "cell_chain m zs"
    and "hand_frame m m1 (cell_node ` set zs) (cell_task ` set zs) (cell_itask ` set zs)"
  shows "cell_chain m1 zs"
proof -
  have f: "nodes m1 (cell_node y) = nodes m (cell_node y)" "tasks m1 (cell_task y) = tasks m (cell_task y)"
    "itasks m1 (cell_itask y) = itasks m (cell_itask y)" if "y \<in> set zs" for y
    using assms(2) that by (auto simp: hand_frame_def)
  have "lseg (tn_nxt m1) h (map cell_node zs) NULL = lseg (tn_nxt m) h (map cell_node zs) NULL" for h
    by (rule lseg_cong) (use f(1) in \<open>force simp: tn_nxt_def\<close>)
  moreover have "cell_ok m1 y = cell_ok m y" if "y \<in> set zs" for y
    using f [OF that] by (intro cell_ok_cong) simp_all
  ultimately show ?thesis using assms(1) by (simp add: cell_chain_def)
qed

lemma hd_or_null_append: "ns \<noteq> [] \<Longrightarrow> hd_or_null (ns @ ms) = hd_or_null ns"
  by (simp add: hd_or_null_def)

text \<open>Appending a fresh cell to a chain.\<close>

lemma cell_chain_snoc:
  assumes c: "cell_chain m zs"
    and f: "hand_frame m m1 (cell_node ` set zs) (cell_task ` set zs) (cell_itask ` set zs)"
    and z: "n \<notin> cell_node ` set zs" "t \<notin> cell_task ` set zs" "k \<notin> cell_itask ` set zs" "n \<noteq> NULL"
      "cell_ok m1 (n, t, k)" "tn_nxt m1 n = Some NULL"
  obtains m2 where
    "(if zs = [] then Some m1 else set_tn_next (last_or_null (map cell_node zs)) n m1) = Some m2"
    "cell_chain m2 (zs @ [(n, t, k)])"
    "map (cell_atask m2) (zs @ [(n, t, k)]) = map (cell_atask m) zs @ [cell_atask m1 (n, t, k)]"
    "zs = [] \<Longrightarrow> m2 = m1"
    "zs \<noteq> [] \<Longrightarrow> \<exists>nd. m2 = m1\<lparr>nodes := (nodes m1)(last_or_null (map cell_node zs) \<mapsto> nd)\<rparr>"
proof (cases zs rule: rev_cases)
  case Nil
  with z show thesis by (intro that [of m1]) (auto simp: cell_chain_def)
next
  case (snoc ws l)
  have f: "nodes m1 (cell_node y) = nodes m (cell_node y)" "tasks m1 (cell_task y) = tasks m (cell_task y)"
    "itasks m1 (cell_itask y) = itasks m (cell_itask y)" if "y \<in> set zs" for y
    using f that by (auto simp: hand_frame_def)
  have seg: "lseg (tn_nxt m) (hd_or_null (map cell_node zs)) (map cell_node ws @ [cell_node l]) NULL"
    using c by (simp add: cell_chain_def snoc)
  have d: "cell_node l \<notin> set (map cell_node ws)" "cell_node l \<noteq> n"
    using lseg_distinct [OF seg] z(1) by (auto simp: snoc)
  obtain nd where nd: "nodes m1 (cell_node l) = Some nd"
    using lseg_dom [OF seg, of "cell_node l"] f(1) [of l] by (auto simp: snoc tn_nxt_def)
  let ?m2 = "m1\<lparr>nodes := (nodes m1)(cell_node l \<mapsto> nd\<lparr>tn_next := n\<rparr>)\<rparr>"
  have link: "set_tn_next (last_or_null (map cell_node zs)) n m1 = Some ?m2"
    by (simp add: snoc set_tn_next_def nd)
  have "lseg (tn_nxt ?m2) (hd_or_null (map cell_node zs)) (map cell_node ws @ [cell_node l]) n"
  proof (rule lseg_relink_last [OF seg d(1)])
    fix b assume b: "b \<in> set (map cell_node ws)"
    then have "b \<noteq> cell_node l" using d(1) by metis
    moreover obtain y where "y \<in> set ws" "b = cell_node y" using b by auto
    ultimately show "tn_nxt ?m2 b = tn_nxt m b" using f(1) [of y] snoc by (simp add: tn_nxt_def)
  qed (simp add: tn_nxt_def)
  moreover have "tn_nxt ?m2 n = Some NULL" using z(6) d(2) by (simp add: tn_nxt_def)
  moreover have "hd_or_null (map cell_node (zs @ [(n, t, k)])) = hd_or_null (map cell_node zs)"
    using hd_or_null_append [of "map cell_node zs"] by (simp add: snoc)
  ultimately have 1: "lseg (tn_nxt ?m2) (hd_or_null (map cell_node (zs @ [(n, t, k)])))
      (map cell_node (zs @ [(n, t, k)])) NULL"
    using z(4) lseg_append [of "tn_nxt ?m2" _ "map cell_node zs" "[n]" NULL] by (simp add: snoc)
  have same: "cell_ok ?m2 y = cell_ok m1 y" "cell_atask ?m2 y = cell_atask m1 y" for y
    by (rule cell_ok_cong) (auto simp: nd cell_atask_def)
  have old: "cell_ok m1 y \<and> cell_atask m1 y = cell_atask m y" if "y \<in> set zs" for y
    using c f [OF that] that cell_ok_cong [of m1 y m] by (simp add: cell_chain_def cell_atask_def)
  have "cell_chain ?m2 (zs @ [(n, t, k)])"
    using 1 c z old unfolding cell_chain_def same by auto
  moreover have "map (cell_atask ?m2) (zs @ [(n, t, k)]) = map (cell_atask m) zs @ [cell_atask m1 (n, t, k)]"
    using old by (simp add: same)
  ultimately show thesis using link snoc by (intro that [of ?m2]) auto
qed

lemma build_batch_loop_refine:
  assumes "hand_rel p a xss zs" "cell_chain (pmem p) zs"
    and "a_arrays a arr = Some ids" "i + length srcs = length ids"
    and "acc = map (cell_atask (pmem p)) zs" "take i ids = map at_id acc"
    and "a_build srcs q cb data a acc = (res, a')"
  shows "case res of
      None \<Rightarrow> \<exists>p' cr ids'. build_batch_loop p srcs i q cb data arr (hd_or_null (map cell_node zs))
          (last_or_null (map cell_node zs)) (of_nat (length zs)) = Some (NULL, cr, p') \<and>
        rel p' (a'\<lparr>a_arrays := (a_arrays a)(arr \<mapsto> ids')\<rparr>) xss {} {} {}
    | Some new \<Rightarrow> \<exists>p' ys. build_batch_loop p srcs i q cb data arr (hd_or_null (map cell_node zs))
          (last_or_null (map cell_node zs)) (of_nat (length zs))
          = Some (hd_or_null (map cell_node ys), of_nat (length ys), p') \<and>
        hand_rel p' (a'\<lparr>a_arrays := (a_arrays a)(arr \<mapsto> map at_id new)\<rparr>) xss ys \<and>
        cell_chain (pmem p') ys \<and> map (cell_atask (pmem p')) ys = new \<and>
        length ys = length zs + length srcs"
  using assms
proof (induction srcs arbitrary: p a a' ids i acc zs)
  case Nil
  have "(a_arrays a)(arr \<mapsto> map at_id acc) = a_arrays a"
    using Nil.prems(3,4,6) by (simp add: fun_upd_idem)
  with Nil show ?case by auto
next
  case (Cons src srcs)
  let ?X = "\<lambda>ids. (a_arrays a)(arr \<mapsto> ids)"
  obtain x a1 where x: "a_new_task src q cb data a = (x, a1)" by (cases "a_new_task src q cb data a")
  have i: "i < length ids" using Cons.prems(4) by simp
  from Cons.prems(1,3) i x show ?case
  proof (cases rule: create_batch_node_refine)
    case (fail p1 ids1)
    have "cell_chain (pmem p1) zs"
      using cell_chain_frame [OF Cons.prems(2) fail(4)] by simp
    from rel_destroy_chain [OF fail(3) this] obtain m where
      "destroy_worker_loop (pmem p1) (hd_or_null (map cell_node zs)) = Some m"
      "rel (p1\<lparr>pmem := m\<rparr>) (a1\<lparr>a_arrays := ?X ids1\<rparr>) xss {} {} {}" by auto
    moreover have "res = None" "a' = a1" using Cons.prems(7) x fail(1) by simp_all
    ultimately show ?thesis using fail(2) by auto
  next
    case (ok n t k p1)
    let ?z = "(n, t, k)" and ?ids1 = "ids[i := at_id (cell_atask (pmem p1) (n, t, k))]"
    let ?a1 = "a1\<lparr>a_arrays := ?X ?ids1\<rparr>"
    obtain m2 where m2: "(if zs = [] then Some (pmem p1)
          else set_tn_next (last_or_null (map cell_node zs)) n (pmem p1)) = Some m2"
      "cell_chain m2 (zs @ [?z])"
      "map (cell_atask m2) (zs @ [?z]) = map (cell_atask (pmem p)) zs @ [cell_atask (pmem p1) ?z]"
      "zs = [] \<Longrightarrow> m2 = pmem p1"
      "zs \<noteq> [] \<Longrightarrow> \<exists>nd. m2 = (pmem p1)\<lparr>nodes := (nodes (pmem p1))(last_or_null (map cell_node zs) \<mapsto> nd)\<rparr>"
      using cell_chain_snoc [OF Cons.prems(2) ok(5-8,3,9,10)] by blast
    have hr: "hand_rel (p1\<lparr>pmem := m2\<rparr>) ?a1 xss (zs @ [?z])"
    proof (cases "zs = []")
      case True
      with m2(4) ok(4) show ?thesis by simp
    next
      case False
      then have l: "last_or_null (map cell_node zs) \<in> insert n (cell_node ` set zs)"
        by (simp add: last_or_null_def last_map)
      obtain nd where nd: "m2 = (pmem p1)\<lparr>nodes := (nodes (pmem p1))(last_or_null (map cell_node zs) \<mapsto> nd)\<rparr>"
        using m2(5) False by blast
      show ?thesis
        using rel_write_node [OF ok(4), of "last_or_null (map cell_node zs)" nd] l
          rel_in_hand(1) [OF ok(4) l] rel_disjoint(1) [OF ok(4)]
        by (auto simp: nd insert_absorb simp del: set_concat)
    qed
    have rec: "a_build srcs q cb data ?a1 (acc @ [cell_atask (pmem p1) ?z])
        = (res, a'\<lparr>a_arrays := ?X ?ids1\<rparr>)"
      using Cons.prems(7) x ok(1) by (simp add: a_build_arrays)
    have step: "build_batch_loop p (src # srcs) i q cb data arr (hd_or_null (map cell_node zs))
          (last_or_null (map cell_node zs)) (of_nat (length zs))
        = build_batch_loop (p1\<lparr>pmem := m2\<rparr>) srcs (Suc i) q cb data arr
            (hd_or_null (map cell_node (zs @ [?z]))) (last_or_null (map cell_node (zs @ [?z])))
            (of_nat (length (zs @ [?z])))"
    proof (cases "zs = []")
      case True
      with ok(2,3) m2(4) show ?thesis by (simp add: last_or_null_def)
    next
      case False
      then have "last_or_null (map cell_node zs) \<noteq> NULL"
        using rel_in_hand(1) [OF Cons.prems(1), of "last_or_null (map cell_node zs)"]
        by (simp add: last_or_null_def last_map)
      moreover have "hd_or_null (map cell_node (zs @ [?z])) = hd_or_null (map cell_node zs)"
        using False hd_or_null_append [of "map cell_node zs"] by simp
      ultimately show ?thesis using ok(2,3) m2(1) False by (simp add: add.commute)
    qed
    have "take (Suc i) ?ids1 = map at_id (acc @ [cell_atask (pmem p1) ?z])"
      using Cons.prems(6) i by (simp add: take_Suc_conv_app_nth)
    with Cons.IH [OF hr _ _ _ _ _ rec, of ?ids1 "Suc i"] m2(2,3) Cons.prems(4,5) show ?thesis
      unfolding step by (simp split: option.splits) (auto simp: fun_upd_def)
  qed
qed

lemma tail_loop_spec:
  "lseg (tn_nxt m) h ns NULL \<Longrightarrow> ns \<noteq> [] \<Longrightarrow> tail_loop m h = Some (last ns)"
proof (induction ns arbitrary: h)
  case (Cons n ns)
  then obtain nd where nd: "nodes m n = Some nd" by (auto simp: tn_nxt_def split: option.splits)
  with Cons.prems(1) have n: "h = n" "nodes m n = Some nd" "lseg (tn_nxt m) (tn_next nd) ns NULL"
    by (simp_all add: tn_nxt_Some)
  show ?case
  proof (cases ns)
    case Nil
    with n show ?thesis by (simp add: tail_loop.simps [of m n])
  next
    case (Cons b bs)
    with n have "tn_next nd \<noteq> NULL" by auto
    with n Cons.IH [OF n(3)] Cons show ?thesis by (simp add: tail_loop.simps [of m n])
  qed
qed simp

text \<open>A batch that was built: handing it to the worker.\<close>

lemma batch_attach_refine:
  assumes hr: "hand_rel p a xss ys" and b: "WORKER_STATE_BUSY \<notin> set (a_states a)"
    and c: "cell_chain (pmem p) ys" and ys: "ys \<noteq> []" and i: "i < NUM_WORKERS"
  obtains m w p' where
    "tail_loop (pmem p) (hd_or_null (map cell_node ys)) = Some (last (map cell_node ys))"
    "attach_nodes_to_worker (pmem p) (workers p ! i) (hd_or_null (map cell_node ys))
       (last (map cell_node ys)) (of_nat (length ys)) = Some (m, w)"
    "update_batch_context (set_worker i w (p\<lparr>pmem := m\<rparr>)) q (worker_idx w) n cb data
       = Some (fst (a_count q n i cb data (a_enqueue i (map (cell_atask (pmem p)) ys) a)), p')"
    "pool_rel p' (snd (a_count q n i cb data (a_enqueue i (map (cell_atask (pmem p)) ys) a)))"
proof -
  let ?e = "a_enqueue i (map (cell_atask (pmem p)) ys) a"
  have ch: "lseg (tn_nxt (pmem p)) (hd_or_null (map cell_node ys)) (map cell_node ys) NULL"
    "\<forall>z \<in> set ys. cell_ok (pmem p) z" "distinct (map cell_task ys)" "distinct (map cell_itask ys)"
    using c by (simp_all add: cell_chain_def)
  have tail: "tail_loop (pmem p) (hd_or_null (map cell_node ys)) = Some (last (map cell_node ys))"
    by (rule tail_loop_spec [OF ch(1)]) (use ys in simp)
  obtain m w xss' where att: "attach_nodes_to_worker (pmem p) (workers p ! i)
      (hd_or_null (map cell_node ys)) (cell_node (last ys)) (of_nat (length ys)) = Some (m, w)"
    "rel (set_worker i w (p\<lparr>pmem := m\<rparr>)) ?e xss'
       (cell_node ` set ys - cell_node ` set ys) (cell_task ` set ys - cell_task ` set ys)
       (cell_itask ` set ys - cell_itask ` set ys)" "worker_idx w = i"
    by (rule rel_attach [OF hr i ch(1) ys ch(2-4) subset_refl subset_refl subset_refl])
  have r: "rel (set_worker i w (p\<lparr>pmem := m\<rparr>)) ?e xss' {} {} {}" using att(2) by simp
  obtain ok a' where cnt: "a_count q n i cb data ?e = (ok, a')" by (cases "a_count q n i cb data ?e")
  obtain p' where "update_batch_context (set_worker i w (p\<lparr>pmem := m\<rparr>)) q i n cb data = Some (ok, p')"
    "rel p' a' xss' {} {} {}" "a_states a' = a_states ?e"
    by (rule rel_update_batch_context [OF r i cnt])
  with tail att(1,3) cnt b ys show thesis
    by (intro that) (auto simp: a_enqueue_def last_map intro: pool_relI)
qed

lemma batch_refine:
  assumes "pool_rel p a"
  shows "rel_option (rel_prod (=) pool_rel)
    (thread_pool_submit_batch_tasks p ts cb data bcb bdata) (Some (a_batch ts cb data bcb bdata a))"
proof -
  obtain xss where r: "rel p a xss {} {} {}" and b: "WORKER_STATE_BUSY \<notin> set (a_states a)"
    using assms by (auto simp: pool_rel_def)
  let ?q = "request_id (hd ts)"
  note defs = thread_pool_submit_batch_tasks_def validate_and_select_worker_def
  show ?thesis
  proof (cases "ts = [] \<or> \<not> a_running a \<or> (\<exists>t \<in> set (tl ts). request_id t \<noteq> ?q)")
    case True
    then show ?thesis using assms relD(5) [OF r] by (auto simp: defs a_batch_def Let_def)
  next
    case valid: False
    then have run: "is_running p" using relD(5) [OF r] by simp
    obtain arr m1 where m1: "malloc_n (length ts) (pmem p) = (arr, m1)"
      by (cases "malloc_n (length ts) (pmem p)")
    obtain a1 where a1: "malloc_n (length ts) a = (arr, a1)" "rel (p\<lparr>pmem := m1\<rparr>) a1 xss {} {} {}"
      "arr \<noteq> NULL \<Longrightarrow> unused m1 arr" "a1 = a\<lparr>brk := brk a1, calls := calls a1\<rparr>"
      using rel_malloc [OF r m1] by blast
    have s1: "a_states a1 = a_states a" by (subst a1(4)) simp
    show ?thesis
    proof (cases "arr = NULL")
      case True
      with valid run m1 a1 b s1 show ?thesis
        by (auto simp: defs a_batch_def Let_def intro: pool_relI)
    next
      case False
      let ?ids = "replicate (length ts) (0 :: u64)"
      let ?a1 = "a1\<lparr>a_arrays := (a_arrays a1)(arr \<mapsto> ?ids)\<rparr>"
      let ?p1 = "p\<lparr>pmem := m1\<lparr>id_arrays := (id_arrays m1)(arr \<mapsto> ?ids)\<rparr>\<rparr>"
      have u: "id_arrays m1 arr = None" "0 < arr" "arr < brk m1"
        using a1(3) False by (simp_all add: unused_def)
      have r1: "rel ?p1 ?a1 xss {} {} {}" using rel_write_ids [OF a1(2), of arr ?ids] u by simp
      have fresh: "(a_arrays a1)(arr := None) = a_arrays a1"
        using u(1) relD(4) [OF a1(2)] by (simp add: fun_upd_idem)
      have b1: "WORKER_STATE_BUSY \<notin> set (a_states ?a1)" using b s1 by simp
      have sel: "select_best_worker ?p1 = a_select a1"
        using rel_select [OF r1 b1] a_select_cong [of ?a1 a1] by simp
      show ?thesis
      proof (cases "a_select a1")
        case None
        obtain m2 where "free_id_array arr (pmem ?p1) = Some m2"
            "rel (?p1\<lparr>pmem := m2\<rparr>) (?a1\<lparr>a_arrays := (a_arrays ?a1)(arr := None)\<rparr>) xss {} {} {}"
          using rel_free_ids [OF r1, of arr ?ids] by auto
        with None valid run m1 a1(1) False sel b s1 fresh show ?thesis
          by (auto simp: defs a_batch_def Let_def intro: pool_relI)
      next
        case (Some i)
        have i: "i < NUM_WORKERS" using a_select_Some(1) [OF Some] .
        obtain res a2 where bd: "a_build ts ?q cb data a1 [] = (res, a2)"
          by (cases "a_build ts ?q cb data a1 []")
        have k2: "a_arrays a2 = a_arrays a1" "a_states a2 = a_states a"
          using a_build_keeps [OF bd] s1 by (cases a1; cases a2; simp)+
        have val: "validate_and_select_worker p ts = Some (Some (?q, i, arr), ?p1)"
          using valid run m1 False sel Some by (simp add: validate_and_select_worker_def Let_def)
        have abs: "a_batch ts cb data bcb bdata a = (case res of None \<Rightarrow> (NULL, a2) | Some new \<Rightarrow>
            (arr, snd (a_count ?q (of_nat (length ts)) i bcb bdata
                   ((a_enqueue i new a2)\<lparr>a_arrays := (a_arrays a2)(arr \<mapsto> map at_id new)\<rparr>))))"
          using valid a1(1) False Some bd by (simp add: a_batch_def split: option.splits)
        have bd': "a_build ts ?q cb data ?a1 [] = (res, a2\<lparr>a_arrays := a_arrays ?a1\<rparr>)"
          using bd by (simp add: a_build_arrays)
        have h0: "hand_rel ?p1 ?a1 xss []" using r1 by simp
        have c0: "cell_chain (pmem ?p1) []" by (simp add: cell_chain_def)
        note loop = build_batch_loop_refine [OF h0 c0 _ _ _ _ bd', of arr ?ids 0]
        show ?thesis
        proof (cases res)
          case None
          then obtain p2 cr ids' where bl: "build_batch_nodes ?p1 ts ?q cb data arr = Some (NULL, cr, p2)"
            "rel p2 (a2\<lparr>a_arrays := (a_arrays a1)(arr \<mapsto> ids')\<rparr>) xss {} {} {}"
            using loop by (auto simp: build_batch_nodes_def)
          obtain m3 where "free_id_array arr (pmem p2) = Some m3"
              "rel (p2\<lparr>pmem := m3\<rparr>) (a2\<lparr>a_arrays := (a_arrays a1)(arr := None)\<rparr>) xss {} {} {}"
            using rel_free_ids [OF bl(2), of arr ids'] by auto
          moreover have "a2\<lparr>a_arrays := (a_arrays a1)(arr := None)\<rparr> = a2"
            unfolding fresh using k2(1) by (simp flip: k2(1))
          ultimately show ?thesis
            using None abs val bl(1) b k2
            by (auto simp: thread_pool_submit_batch_tasks_def intro: pool_relI)
        next
          case (Some new)
          then obtain p2 ys where bl: "build_batch_nodes ?p1 ts ?q cb data arr
              = Some (hd_or_null (map cell_node ys), of_nat (length ys), p2)"
            "hand_rel p2 (a2\<lparr>a_arrays := (a_arrays a1)(arr \<mapsto> map at_id new)\<rparr>) xss ys"
            "cell_chain (pmem p2) ys" "map (cell_atask (pmem p2)) ys = new" "length ys = length ts"
            using loop by (auto simp: build_batch_nodes_def)
          have ys: "ys \<noteq> []" using bl(5) valid by auto
          then have hd: "hd_or_null (map cell_node ys) \<noteq> NULL"
            using rel_in_hand(1) [OF bl(2), of "hd_or_null (map cell_node ys)"]
            by (simp add: hd_or_null_def hd_map)
          let ?a3 = "a2\<lparr>a_arrays := (a_arrays a1)(arr \<mapsto> map at_id new)\<rparr>"
          have b3: "WORKER_STATE_BUSY \<notin> set (a_states ?a3)" using b k2 by simp
          have eq: "(a_enqueue i new a2)\<lparr>a_arrays := (a_arrays a2)(arr \<mapsto> map at_id new)\<rparr>
              = a_enqueue i new ?a3" by (simp add: a_enqueue_def k2)
          obtain m w p' where "tail_loop (pmem p2) (hd_or_null (map cell_node ys))
              = Some (last (map cell_node ys))"
            "attach_nodes_to_worker (pmem p2) (workers p2 ! i) (hd_or_null (map cell_node ys))
               (last (map cell_node ys)) (of_nat (length ys)) = Some (m, w)"
            "update_batch_context (set_worker i w (p2\<lparr>pmem := m\<rparr>)) ?q (worker_idx w)
               (of_nat (length ts)) bcb bdata
               = Some (fst (a_count ?q (of_nat (length ts)) i bcb bdata (a_enqueue i new ?a3)), p')"
            "pool_rel p' (snd (a_count ?q (of_nat (length ts)) i bcb bdata (a_enqueue i new ?a3)))"
            using batch_attach_refine [OF bl(2) b3 bl(3) ys i, of ?q "of_nat (length ts)" bcb bdata]
            unfolding bl(4) by blast
          with Some abs [unfolded Some option.case eq] val bl(1) hd show ?thesis
            by (simp add: thread_pool_submit_batch_tasks_def Let_def)
        qed
      qed
    qed
  qed
qed

section \<open>Cancellation and wake-up\<close>

lemma rel_set_pending:
  assumes r: "rel p a xss N T K" and c: "a_ctx a q = Some c"
    and f: "ctxs (pmem p) x = Some cx" "rc_request_id cx = q" "actx_of cx = c"
    and n: "n \<noteq> 0"
  shows "rel (p\<lparr>pmem := (pmem p)\<lparr>ctxs := (ctxs (pmem p))(x \<mapsto> cx\<lparr>rc_pending_count := n\<rparr>)\<rparr>\<rparr>)
    (a_set_pending q c n a) xss N T K"
  using rel_ctx_write [OF r f(1), of "cx\<lparr>rc_pending_count := n\<rparr>"] n f(2,3)
  by (auto simp: a_set_pending_def actx_of_def)

lemma rel_drop_pending:
  assumes r: "rel p a xss N T K" and c: "a_ctx a q = Some c"
    and f: "ctxs (pmem p) x = Some cx" "rc_request_id cx = q"
  obtains m hash where
    "remove_req_context ((pmem p)\<lparr>ctxs := (ctxs (pmem p))(x \<mapsto> cx\<lparr>rc_pending_count := 0\<rparr>)\<rparr>)
       (req_hash p) q = Some (m, hash)"
    "rel (p\<lparr>pmem := m, req_hash := hash\<rparr>) (a_set_pending q c 0 a) xss N T K"
proof -
  let ?cx = "cx\<lparr>rc_pending_count := 0\<rparr>"
  let ?p = "p\<lparr>pmem := (pmem p)\<lparr>ctxs := (ctxs (pmem p))(x \<mapsto> ?cx)\<rparr>\<rparr>"
  have "rel ?p (a\<lparr>a_ctx := (a_ctx a)(q \<mapsto> actx_of ?cx)\<rparr>) xss N T K"
    using rel_ctx_write [OF r f(1), of ?cx] f(2) by simp
  from rel_ctx_remove [OF this, of q] obtain m hash where
    "remove_req_context (pmem ?p) (req_hash ?p) q = Some (m, hash)"
    "rel (p\<lparr>pmem := m, req_hash := hash\<rparr>) (a\<lparr>a_ctx := (a_ctx a)(q := None)\<rparr>) xss N T K"
    by auto
  then show thesis by (intro that) (simp_all add: a_set_pending_def)
qed

lemma cancel_refine:
  assumes "pool_rel p a"
  shows "rel_option (rel_prod (=) pool_rel) (thread_pool_cancel_tasks_by_req p q) (Some (a_cancel q a))"
proof -
  obtain xss where r: "rel p a xss {} {} {}" and b: "WORKER_STATE_BUSY \<notin> set (a_states a)"
    using assms by (auto simp: pool_rel_def)
  note defs = thread_pool_cancel_tasks_by_req_def a_cancel_def
  show ?thesis
  proof (cases "a_running a")
    case False
    then show ?thesis using assms relD(5) [OF r] by (simp add: defs)
  next
    case True
    then have run: "is_running p" using relD(5) [OF r] by simp
    show ?thesis
    proof (cases "a_ctx a q")
      case None
      with True run assms rel_find_none [OF r None] show ?thesis by (simp add: defs)
    next
      case (Some c)
      obtain x cx where f: "find_req_context (pmem p) (req_hash p) q = Some x" "x \<noteq> NULL"
        "ctxs (pmem p) x = Some cx" "rc_request_id cx = q" "actx_of cx = c"
        "rc_worker_idx cx = ac_worker c" "rc_pending_count cx = ac_pending c"
        "ac_worker c < NUM_WORKERS"
        by (rule rel_find_some [OF r Some])
      let ?i = "ac_worker c"
      let ?Q = "a_queues a ! ?i"
      let ?n = "of_nat (length (filter (\<lambda>t. at_req t = q) ?Q)) :: u32"
      let ?a1 = "a\<lparr>a_queues := (a_queues a)[?i := filter (\<lambda>t. at_req t \<noteq> q) ?Q]\<rparr>"
      obtain m w xss' where can: "cancel_in_worker_queue (pmem p) (workers p ! ?i) q = Some (?n, m, w)"
        "rel (set_worker ?i w (p\<lparr>pmem := m\<rparr>)) ?a1 xss' {} {} {}"
        "ctxs m = ctxs (pmem p)"
        by (rule rel_cancel [OF r f(8)])
      let ?p1 = "set_worker ?i w (p\<lparr>pmem := m\<rparr>)"
      have b1: "WORKER_STATE_BUSY \<notin> set (a_states ?a1)" using b by simp
      have c1: "a_ctx ?a1 q = Some c" using Some by simp
      have abs: "a_cancel q a = (sint ?n,
          if ?n > 0 then a_set_pending q c (ac_pending c - ?n) ?a1 else ?a1)"
        using True Some by (simp add: a_cancel_def Let_def)
      have f1: "ctxs (pmem ?p1) x = Some cx" using f(3) can(3) by (simp add: set_worker_def)
      have cut: "thread_pool_cancel_tasks_by_req p q =
          (if ?n > 0 then update_context_after_cancel ?p1 x q ?n else Some ?p1) \<bind>
             (\<lambda>p2. Some (sint ?n, p2))"
        using run f(1,2,3,6) can(1) by (simp add: thread_pool_cancel_tasks_by_req_def Let_def)
      show ?thesis
      proof (cases "?n > 0")
        case False
        with cut abs can(2) b1 show ?thesis by (auto intro: pool_relI)
      next
        case n: True
        show ?thesis
        proof (cases "ac_pending c - ?n = 0")
          case True
          obtain m2 hash where "remove_req_context ((pmem ?p1)\<lparr>ctxs :=
              (ctxs (pmem ?p1))(x \<mapsto> cx\<lparr>rc_pending_count := 0\<rparr>)\<rparr>) (req_hash ?p1) q = Some (m2, hash)"
            "rel (?p1\<lparr>pmem := m2, req_hash := hash\<rparr>) (a_set_pending q c 0 ?a1) xss' {} {} {}"
            by (rule rel_drop_pending [OF can(2) c1 f1 f(4)])
          with n cut abs True f1 f(7) b1 show ?thesis
            by (auto simp: update_context_after_cancel_def remove_req_context_def Let_def
                a_set_pending_def intro!: pool_relI)
        next
          case False
          from rel_set_pending [OF can(2) c1 f1 f(4,5) False] n cut abs False f1 f(7) b1
          show ?thesis
            by (auto simp: update_context_after_cancel_def Let_def a_set_pending_def intro!: pool_relI)
        qed
      qed
    qed
  qed
qed

lemma wake_refine:
  assumes "pool_rel p a"
  shows "rel_option (rel_prod (=) pool_rel) (thread_pool_wake_up_worker_by_req_id p q) (Some (a_wake q a))"
proof -
  obtain xss where r: "rel p a xss {} {} {}" and b: "WORKER_STATE_BUSY \<notin> set (a_states a)"
    using assms by (auto simp: pool_rel_def)
  note defs = thread_pool_wake_up_worker_by_req_id_def a_wake_def
  show ?thesis
  proof (cases "a_ctx a q")
    case None
    with assms rel_find_none [OF r None] show ?thesis by (simp add: defs)
  next
    case (Some c)
    obtain x cx where f: "find_req_context (pmem p) (req_hash p) q = Some x" "x \<noteq> NULL"
      "ctxs (pmem p) x = Some cx" "rc_worker_idx cx = ac_worker c" "ac_worker c < NUM_WORKERS"
      by (rule rel_find_some [OF r Some])
    note rel_pending [OF r f(5), of q]
    with Some f b show ?thesis by (auto simp: defs Let_def intro: pool_relI)
  qed
qed

section \<open>A turn of a worker\<close>

lemma rel_finish:
  assumes r: "rel p a xss N T K"
  shows "rel_option (\<lambda>(p', s') (a', s''). rel p' a' xss N T K \<and> a_states a' = a_states a \<and> s' = s'')
    (worker_finish_context env q (p, s)) (a_finish env q (a, s))"
proof (cases "a_ctx a q")
  case None
  with r rel_find_none [OF r None] show ?thesis by (simp add: worker_finish_context_def a_finish_def)
next
  case (Some c)
  obtain x cx where f: "find_req_context (pmem p) (req_hash p) q = Some x" "x \<noteq> NULL"
    "ctxs (pmem p) x = Some cx" "rc_request_id cx = q" "actx_of cx = c"
    "rc_pending_count cx = ac_pending c" "rc_batch_cb cx = ac_cb c" "rc_batch_user_data cx = ac_data c"
    by (rule rel_find_some [OF r Some])
  show ?thesis
  proof (cases "ac_pending c - 1 = 0")
    case True
    obtain m hash where rm: "remove_req_context ((pmem p)\<lparr>ctxs :=
        (ctxs (pmem p))(x \<mapsto> cx\<lparr>rc_pending_count := 0\<rparr>)\<rparr>) (req_hash p) q = Some (m, hash)"
      "rel (p\<lparr>pmem := m, req_hash := hash\<rparr>) (a_set_pending q c 0 a) xss N T K"
      by (rule rel_drop_pending [OF r Some f(3,4)])
    show ?thesis
      by (cases "call_cb env (ac_cb c) 0 True (ac_data c) s")
        (use rm f True Some in \<open>simp_all add: worker_finish_context_def a_finish_def Let_def
          a_set_pending_def\<close>)
  next
    case False
    from rel_set_pending [OF r Some f(3,4,5) False] f False Some show ?thesis
      by (simp add: worker_finish_context_def a_finish_def Let_def a_set_pending_def)
  qed
qed

lemma a_finish_states:
  "a_finish env q (a\<lparr>a_states := S\<rparr>, s)
     = map_option (map_prod (\<lambda>a. a\<lparr>a_states := S\<rparr>) id) (a_finish env q (a, s))"
  by (auto simp: a_finish_def a_set_pending_def split: option.splits Option.bind_splits)

text \<open>Running a task in hand.\<close>

lemma process_refine:
  assumes r: "rel p a xss {} {t} {k}" and i: "i < NUM_WORKERS"
    and tk: "task_ok (pmem p) t k" "itasks (pmem p) k = Some it"
    and b: "WORKER_STATE_BUSY \<notin> set (a_states a)"
  shows "rel_option (rel_prod pool_rel (=)) (worker_process_task env i t q (p, s))
    (do {
       s1 \<leftarrow> a_run_task env (atask_of it) s;
       (a2, s2) \<leftarrow> a_finish env q (a, s1);
       Some (a2\<lparr>a_states := (a_states a2)[i := WORKER_STATE_IDLE]\<rparr>, s2)
     })"
proof -
  let ?S = "(a_states a)[i := WORKER_STATE_BUSY]" and ?w = "(workers p ! i)\<lparr>state := WORKER_STATE_BUSY\<rparr>"
  let ?p1 = "set_worker i ?w p"
  have r1: "rel ?p1 (a\<lparr>a_states := ?S\<rparr>) xss {} {t} {k}" by (rule rel_state [OF r i])
  have m1: "pmem ?p1 = pmem p" by (simp add: set_worker_def)
  obtain tk where t: "tasks (pmem p) t = Some tk" "task_func tk = internal_task_wrapper_fn"
    "task_arg tk = k" "it_success it"
    using tk by (auto simp: task_ok_def split: option.splits)
  obtain m2 where m2: "free_itask k (pmem p) = Some m2" "rel (?p1\<lparr>pmem := m2\<rparr>) (a\<lparr>a_states := ?S\<rparr>) xss {} {t} {}"
    "m2 = (pmem p)\<lparr>itasks := (itasks (pmem p))(k := None)\<rparr>"
    using rel_free_itask [OF r1, of k] by (auto simp: m1)
  have t2: "tasks m2 t = Some tk" using t(1) m2(3) by simp
  let ?m3 = "m2\<lparr>tasks := (tasks m2)(t \<mapsto> tk\<lparr>is_completed := True\<rparr>)\<rparr>"
  let ?p3 = "?p1\<lparr>pmem := ?m3\<rparr>"
  have r3: "rel ?p3 (a\<lparr>a_states := ?S\<rparr>) xss {} {t} {}"
    using rel_write_task [OF m2(2), of t "tk\<lparr>is_completed := True\<rparr>"] rel_in_hand(2) [OF m2(2), of t]
      rel_disjoint(2) [OF m2(2)] by simp
  have call: "call_task_func env (task_func tk) (task_arg tk) (pmem p, s) =
      (case exec env (it_user_func it) (it_user_arg it) s of None \<Rightarrow> None
       | Some (ret, s1) \<Rightarrow>
           (case call_cb env (it_complete_cb it) (it_task_id it) True (it_user_data it) s1 of None \<Rightarrow> None
            | Some s2 \<Rightarrow> Some (ret, m2, s2)))"
    using tk(2) t(2,3,4) m2(1)
    by (auto simp: call_task_func_def internal_task_wrapper_def split: option.splits prod.splits
        Option.bind_splits)
  show ?thesis
  proof (cases "a_run_task env (atask_of it) s")
    case None
    then have "call_task_func env (task_func tk) (task_arg tk) (pmem p, s) = None"
      unfolding call by (auto simp: a_run_task_def atask_of_def split: option.splits prod.splits
          Option.bind_splits)
    with None t(1) m1 show ?thesis by (simp add: worker_process_task_def Let_def)
  next
    case (Some s1)
    then obtain ret where "call_task_func env (task_func tk) (task_arg tk) (pmem p, s) = Some (ret, m2, s1)"
      unfolding call by (auto simp: a_run_task_def atask_of_def split: option.splits prod.splits
          Option.bind_splits)
    then have conc: "worker_process_task env i t q (p, s) =
      do {
        (p2, s2) \<leftarrow> worker_finish_context env q (?p3, s1);
        m3 \<leftarrow> free_task t (pmem p2);
        let p3 = p2\<lparr>pmem := m3\<rparr>;
        Some (set_worker i ((workers p3 ! i)\<lparr>state := WORKER_STATE_IDLE\<rparr>) p3, s2)
      }"
      using t(1) t2 m1 by (simp add: worker_process_task_def Let_def)
    note fin = rel_finish [OF r3, of env q s1, unfolded a_finish_states]
    show ?thesis
    proof (cases "a_finish env q (a, s1)")
      case None
      with fin conc Some show ?thesis by (auto elim: option.rel_cases)
    next
      case fs: (Some as)
      obtain a2 s2 where as: "as = (a2, s2)" by (cases as)
      with fs fin obtain p2 where p2: "worker_finish_context env q (?p3, s1) = Some (p2, s2)"
        "rel p2 (a2\<lparr>a_states := ?S\<rparr>) xss {} {t} {}"
        by (auto simp: option_rel_Some2)
      obtain m3 where m3: "free_task t (pmem p2) = Some m3"
        "rel (p2\<lparr>pmem := m3\<rparr>) (a2\<lparr>a_states := ?S\<rparr>) xss {} {} {}"
        using rel_free_task [OF p2(2), of t] by auto
      have "a_states a2 = a_states a"
        using fs as by (auto simp: a_finish_def a_set_pending_def split: option.splits
            Option.bind_splits)
      with rel_state [OF m3(2) i, of WORKER_STATE_IDLE]
      have "rel (set_worker i ((workers p2 ! i)\<lparr>state := WORKER_STATE_IDLE\<rparr>) (p2\<lparr>pmem := m3\<rparr>))
          (a2\<lparr>a_states := (a_states a2)[i := WORKER_STATE_IDLE]\<rparr>) xss {} {} {}" by simp
      moreover have "WORKER_STATE_BUSY \<notin> set ((a_states a2)[i := WORKER_STATE_IDLE])"
        using b \<open>a_states a2 = a_states a\<close> set_update_subset_insert [of "a_states a2" i] by auto
      ultimately show ?thesis
        using conc Some fs as p2(1) m3(1) by (auto simp: Let_def intro: pool_relI)
    qed
  qed
qed

lemma turn_refine:
  assumes "pool_rel p a" and i: "i < NUM_WORKERS"
  shows "rel_option (rel_prod pool_rel (=)) (worker_turn env i (p, s)) (a_turn env i (a, s))"
proof -
  obtain xss where r: "rel p a xss {} {} {}" and b: "WORKER_STATE_BUSY \<notin> set (a_states a)"
    using assms(1) by (auto simp: pool_rel_def)
  note eqs = rel_nth(1,2) [OF r i] relD(6) [OF r]
  let ?w = "workers p ! i" let ?q = "pending_req ?w"
  show ?thesis
  proof (cases "state ?w = WORKER_STATE_INIT \<or> state ?w = WORKER_STATE_EXIT \<or> ?q = 0")
    case True
    have "pool_rel (set_worker i (?w\<lparr>state := WORKER_STATE_EXIT\<rparr>) p)
        (a\<lparr>a_states := (a_states a)[i := WORKER_STATE_EXIT]\<rparr>)"
      by (rule pool_relI [OF rel_state [OF r i]])
        (use b set_update_subset_insert [of "a_states a" i] in auto)
    with True assms(1) show ?thesis by (auto simp: worker_turn_def a_turn_def Let_def eqs)
  next
    case False
    let ?a1 = "a\<lparr>a_pend := (a_pend a)[i := 0]\<rparr>" and ?w1 = "?w\<lparr>pending_req := 0\<rparr>"
    let ?p1 = "set_worker i ?w1 p"
    have r1: "rel ?p1 ?a1 xss {} {} {}" by (rule rel_pending [OF r i])
    have w1: "workers ?p1 ! i = ?w1" "pmem ?p1 = pmem p"
      using rel_lengths(1) [OF r] i by (simp_all add: set_worker_def)
    have sw: "set_worker i w (?p1\<lparr>pmem := m\<rparr>) = set_worker i w (p\<lparr>pmem := m\<rparr>)" for w m
      by (simp add: set_worker_def)
    have conc: "worker_turn env i (p, s) =
       do {
         (task, m, w2) \<leftarrow> worker_queue_pop_by_req (pmem p) ?w1 ?q;
         let p1 = set_worker i w2 (p\<lparr>pmem := m\<rparr>);
         if task \<noteq> NULL then worker_process_task env i task ?q (p1, s) else Some (p1, s)
       }"
      using False by (auto simp: worker_turn_def Let_def eqs)
    show ?thesis
    proof (cases "List.extract (\<lambda>t. at_req t = ?q) (a_queues a ! i)")
      case None
      from rel_pop_none [OF r1 i, of ?q] None
      have "worker_queue_pop_by_req (pmem p) ?w1 ?q = Some (NULL, pmem p, ?w1)" by (simp add: w1)
      with conc have "worker_turn env i (p, s) = Some (?p1, s)" by (simp add: set_worker_def)
      moreover have "a_turn env i (a, s) = Some (?a1, s)"
        using False None by (simp add: a_turn_def Let_def eqs)
      ultimately show ?thesis using r1 b by (auto intro: pool_relI)
    next
      case (Some x)
      obtain bs at cs where x: "x = (bs, at, cs)" by (cases x)
      have ex: "List.extract (\<lambda>t. at_req t = ?q) (a_queues ?a1 ! i) = Some (bs, at, cs)"
        using Some x by simp
      let ?a2 = "?a1\<lparr>a_queues := (a_queues ?a1)[i := bs @ cs]\<rparr>"
      obtain t k it m w xss' where pop:
        "worker_queue_pop_by_req (pmem ?p1) (workers ?p1 ! i) ?q = Some (t, m, w)"
        "rel (set_worker i w (?p1\<lparr>pmem := m\<rparr>)) ?a2 xss' {} (insert t {}) (insert k {})"
        "t \<noteq> NULL" "task_ok m t k" "itasks m k = Some it" "atask_of it = at"
        by (rule rel_pop_some [OF r1 i ex])
      let ?p2 = "set_worker i w (p\<lparr>pmem := m\<rparr>)"
      have r2: "rel ?p2 ?a2 xss' {} {t} {k}" using pop(2) unfolding sw .
      have m2: "pmem ?p2 = m" by (simp add: set_worker_def)
      have b2: "WORKER_STATE_BUSY \<notin> set (a_states ?a2)" using b by simp
      have "worker_turn env i (p, s) = worker_process_task env i t ?q (?p2, s)"
        using conc pop(1,3) by (simp add: w1)
      moreover have "a_turn env i (a, s) = do {
          s1 \<leftarrow> a_run_task env (atask_of it) s;
          (a2, s2) \<leftarrow> a_finish env ?q (?a2, s1);
          Some (a2\<lparr>a_states := (a_states a2)[i := WORKER_STATE_IDLE]\<rparr>, s2)
        }"
        using False Some x pop(6) by (simp add: a_turn_def Let_def eqs)
      ultimately show ?thesis
        using process_refine [OF r2 i _ _ b2, of it env ?q s] pop(4,5) by (simp add: m2)
    qed
  qed
qed

end
