(* ===== verification/PoolLife.thy ===== *)
theory PoolLife
  imports PoolRefine
begin

text \<open>
  The life of a pool: what \<open>thread_pool_init\<close> hands out, start and shutdown, the join of a
  worker (which ends after at most two turns), and \<open>thread_pool_destroy\<close>, which gives back
  every object the pool owns.
\<close>

section \<open>Start\<close>

definition a_start :: "apool \<Rightarrow> int \<times> apool" where
  "a_start a = (if a_running a then (- 1, a) else (0, a\<lparr>a_running := True\<rparr>))"

lemma start_refine:
  assumes "pool_rel p a"
  shows "rel_prod (=) pool_rel (thread_pool_start p) (a_start a)"
proof -
  obtain xss where r: "rel p a xss {} {} {}" and b: "WORKER_STATE_BUSY \<notin> set (a_states a)"
    using assms by (auto simp: pool_rel_def)
  from rel_flags(1) [OF r, of True] b have "pool_rel (p\<lparr>is_running := True\<rparr>) (a\<lparr>a_running := True\<rparr>)"
    by (auto intro: pool_relI)
  with assms relD(5) [OF r] show ?thesis by (simp add: thread_pool_start_def a_start_def)
qed

lemma shutdown_refine:
  assumes "pool_rel p a"
  shows "pool_rel (shutdown_threads p) (a\<lparr>a_destroying := True\<rparr>)"
proof -
  obtain xss where r: "rel p a xss {} {} {}" and b: "WORKER_STATE_BUSY \<notin> set (a_states a)"
    using assms by (auto simp: pool_rel_def)
  from rel_flags(2) [OF r, of True] b show ?thesis
    unfolding shutdown_threads_def by (auto intro: pool_relI)
qed

section \<open>Creation of the workers\<close>

definition started :: "(nat \<Rightarrow> int \<times> u64) \<Rightarrow> nat set \<Rightarrow> WorkerThread list \<Rightarrow> WorkerThread list" where
  "started pc I ws = map (\<lambda>i. if i \<in> I
     then (ws ! i)\<lparr>tid := snd (pc i), state := WORKER_STATE_IDLE\<rparr> else ws ! i) [0..<length ws]"

lemma create_workers_loop_ok:
  assumes "\<forall>i \<in> set is. fst (pc i) = 0" "distinct is" "\<forall>i \<in> set is. i < length (workers p)"
  shows "create_workers_loop pc is p = (True, p\<lparr>workers := started pc (set is) (workers p)\<rparr>)"
  using assms
proof (induction "is" arbitrary: p)
  case Nil
  then show ?case by (simp add: started_def map_nth)
next
  case (Cons i "is")
  let ?p1 = "set_worker i ((workers p ! i)\<lparr>tid := snd (pc i), state := WORKER_STATE_IDLE\<rparr>) p"
  have "create_worker pc i p = (True, ?p1)"
    using Cons.prems(1) by (auto simp: create_worker_def Let_def split: prod.splits)
  moreover have "started pc (set is) (workers ?p1) = started pc (set (i # is)) (workers p)"
    by (rule nth_equalityI)
      (use Cons.prems(2,3) in \<open>auto simp: started_def set_worker_def nth_list_update\<close>)
  ultimately show ?case
    using Cons.IH [of ?p1] Cons.prems by (simp add: set_worker_def)
qed

lemma create_workers_loop_append:
  "create_workers_loop pc (xs @ ys) p =
     (let (ok, p1) = create_workers_loop pc xs p in
      if ok then create_workers_loop pc ys p1 else (False, p1))"
  by (induction xs arbitrary: p) (auto split: prod.splits)

text \<open>The abstract state of a new pool, with idle workers for the ids in I.\<close>

definition a_fresh :: "(nat \<Rightarrow> int \<times> u64) \<Rightarrow> nat set \<Rightarrow> mem \<Rightarrow> apool" where
  "a_fresh pc I m =
     \<lparr>brk = brk m, calls = calls m, malloc_ok = malloc_ok m, a_running = False,
      a_destroying = False, a_next = 1, a_queues = replicate NUM_WORKERS [],
      a_states = map (\<lambda>i. if i \<in> I then WORKER_STATE_IDLE else WORKER_STATE_INIT) [0..<NUM_WORKERS],
      a_pend = replicate NUM_WORKERS 0, a_ctx = Map.empty, a_arrays = id_arrays m,
      a_tids = map (\<lambda>i. if i \<in> I then snd (pc i) else 0) [0..<NUM_WORKERS]\<rparr>"

text \<open>A heap without objects of the pool.\<close>

definition no_objects :: "mem \<Rightarrow> bool" where
  "no_objects m \<longleftrightarrow> owns m {} {} {} {} (dom (id_arrays m))"

lemma concat_replicate_Nil: "concat (replicate n []) = []"
  by (induction n) auto

lemma fresh_rel:
  assumes "no_objects m"
  shows "pool_rel ((fresh_pool m)\<lparr>workers := started pc I init_workers_basic\<rparr>) (a_fresh pc I m)"
proof -
  let ?ws = "started pc I init_workers_basic" and ?xss = "replicate NUM_WORKERS ([] :: cell list)"
  have empty: "ctxs m = Map.empty" using assms by (auto simp: no_objects_def owns_def)
  have len: "length init_workers_basic = NUM_WORKERS" by (simp add: init_workers_basic_def)
  have nth: "init_workers_basic ! i = \<lparr>tid = 0, state = WORKER_STATE_INIT, worker_idx = i,
      queue_head = NULL, queue_tail = NULL, queue_size = 0, pending_req = 0\<rparr>" if "i < NUM_WORKERS" for i
    using that by (simp add: init_workers_basic_def)
  have ws: "map f ?ws = map (\<lambda>i. f (?ws ! i)) [0..<NUM_WORKERS]" for f :: "WorkerThread \<Rightarrow> 'b"
    by (rule nth_equalityI) (simp_all add: started_def len)
  have at: "?ws ! i = (if i \<in> I then (init_workers_basic ! i)\<lparr>tid := snd (pc i), state := WORKER_STATE_IDLE\<rparr>
      else init_workers_basic ! i)" if "i < NUM_WORKERS" for i
    using that by (simp add: started_def len)
  have "wq m (?ws ! i) []" if "i < NUM_WORKERS" for i
    using that by (simp add: at nth wq_def wq_shape_def)
  then have hi: "heap_inv m ?ws ?xss {} {} {}"
    using assms unfolding heap_inv_def no_objects_def
    by (simp add: concat_replicate_Nil started_def len empty)
  have "bucket_ok m (\<lambda>_. NULL) h" for h by (auto simp: bucket_ok_def empty intro!: exI [of _ "[]"])
  then have ht0: "ht m (\<lambda>_. NULL) Map.empty" by (simp add: ht_def empty)
  have f: "map state ?ws = a_states (a_fresh pc I m)" "map pending_req ?ws = a_pend (a_fresh pc I m)"
    "map worker_idx ?ws = [0..<NUM_WORKERS]" "map tid ?ws = a_tids (a_fresh pc I m)"
    unfolding ws by (auto simp: a_fresh_def at nth intro!: nth_equalityI)
  have "rel ((fresh_pool m)\<lparr>workers := ?ws\<rparr>) (a_fresh pc I m) ?xss {} {} {}"
    unfolding rel_def using f hi ht0 by (simp add: fresh_pool_def) (simp add: a_fresh_def)
  then show ?thesis by (auto simp: pool_rel_def a_fresh_def)
qed

lemma init_ok:
  assumes "no_objects m" "\<And>i. i < NUM_WORKERS \<Longrightarrow> fst (pc i) = 0"
  obtains p where "thread_pool_init env pc True m s = Some (Inr p, s)"
    "pool_rel p (a_fresh pc {..<NUM_WORKERS} m)"
proof -
  have w: "workers (fresh_pool m) = init_workers_basic" "length init_workers_basic = NUM_WORKERS"
    by (simp_all add: fresh_pool_def init_workers_basic_def)
  have "create_all_workers pc (fresh_pool m)
      = (True, (fresh_pool m)\<lparr>workers := started pc (set [0..<NUM_WORKERS]) init_workers_basic\<rparr>)"
    unfolding create_all_workers_def
    by (subst create_workers_loop_ok) (use assms(2) w in auto)
  moreover have "set [0..<NUM_WORKERS] = {..<NUM_WORKERS}" by auto
  ultimately show thesis
    using fresh_rel [OF assms(1), of pc "{..<NUM_WORKERS}"]
    by (intro that [of "(fresh_pool m)\<lparr>workers := started pc {..<NUM_WORKERS} init_workers_basic\<rparr>"])
      (simp_all add: thread_pool_init_def)
qed

section \<open>Joining the workers\<close>

lemma a_turn_keeps:
  assumes "a_turn env i (a, s) = Some (a', s')"
  shows "a_destroying a' = a_destroying a" "a_tids a' = a_tids a" "a_arrays a' = a_arrays a"
    "j \<noteq> i \<Longrightarrow> a_states a' ! j = a_states a ! j"
    "length (a_states a') = length (a_states a)" "length (a_pend a') = length (a_pend a)"
  using assms
  by (auto simp: a_turn_def a_finish_def a_set_pending_def Let_def
      split: if_splits option.splits prod.splits Option.bind_splits)

text \<open>In a pool that is being destroyed a turn ends the worker or clears its pending request.\<close>

lemma a_turn_destroying:
  assumes "a_turn env i (a, s) = Some (a', s')" "a_destroying a" "i < length (a_states a)"
    "i < length (a_pend a)" "a_states a ! i \<noteq> WORKER_STATE_INIT"
  shows "a_states a' ! i = WORKER_STATE_EXIT \<or>
    a_pend a' ! i = 0 \<and> a_states a' ! i \<noteq> WORKER_STATE_INIT"
  using assms
  by (auto simp: a_turn_def a_finish_def a_set_pending_def Let_def
      split: if_splits option.splits prod.splits Option.bind_splits)

text \<open>Joining: at most two turns.\<close>

definition a_join :: "'w env \<Rightarrow> nat \<Rightarrow> apool \<times> 'w \<Rightarrow> (apool \<times> 'w) option" where
  "a_join env i as =
     (if a_states (fst as) ! i = WORKER_STATE_EXIT then Some as
      else do {
        (a1, s1) \<leftarrow> a_turn env i as;
        Some (a1\<lparr>a_states := (a_states a1)[i := WORKER_STATE_EXIT]\<rparr>, s1)
      })"

lemma join_worker_refine:
  assumes "pool_rel p a" "i < NUM_WORKERS" "a_destroying a" "a_states a ! i \<noteq> WORKER_STATE_INIT"
  shows "rel_option (rel_prod pool_rel (=)) (join_worker env i (p, s)) (a_join env i (a, s))"
proof -
  have st: "a_states b ! i = state (workers q ! i)" "i < length (a_states b)" "i < length (a_pend b)"
    if "pool_rel q b" for q b
    using that rel_nth(1) rel_lengths(3,4) assms(2) by (auto simp: pool_rel_def)
  show ?thesis
  proof (cases "a_states a ! i = WORKER_STATE_EXIT")
    case True
    with assms st [OF assms(1)] show ?thesis
      by (simp add: a_join_def join_worker.simps [of env i "(p, s)"])
  next
    case False
    note t = turn_refine [OF assms(1,2), of env s]
    have unf: "join_worker env i (p, s) = worker_turn env i (p, s) \<bind> join_worker env i"
      using False assms(4) st(1) [OF assms(1)] by (simp add: join_worker.simps [of env i "(p, s)"])
    show ?thesis
    proof (cases "a_turn env i (a, s)")
      case None
      with t unf False show ?thesis by (auto simp: a_join_def)
    next
      case (Some as)
      obtain a1 s1 where as: "as = (a1, s1)" by (cases as)
      with t Some obtain p1 where p1: "worker_turn env i (p, s) = Some (p1, s1)" "pool_rel p1 a1"
        by (auto simp: option_rel_Some2)
      note Some = Some [unfolded as]
      have abs: "a_join env i (a, s) = Some (a1\<lparr>a_states := (a_states a1)[i := WORKER_STATE_EXIT]\<rparr>, s1)"
        using False Some by (simp add: a_join_def)
      show ?thesis
      proof (cases "a_states a1 ! i = WORKER_STATE_EXIT")
        case True
        then have "a1\<lparr>a_states := (a_states a1)[i := WORKER_STATE_EXIT]\<rparr> = a1"
          using list_update_id [of "a_states a1" i] by simp
        with True unf p1 abs st [OF p1(2)] show ?thesis
          by (simp add: join_worker.simps [of env i "(p1, s1)"])
      next
        case ne: False
        then have z: "a_pend a1 ! i = 0" "a_states a1 ! i \<noteq> WORKER_STATE_INIT" "a_destroying a1"
          using a_turn_destroying [OF Some assms(3) st(2,3) [OF assms(1)] assms(4)]
            a_turn_keeps(1) [OF Some] assms(3) by auto
        let ?a2 = "a1\<lparr>a_states := (a_states a1)[i := WORKER_STATE_EXIT]\<rparr>"
        have "a_turn env i (a1, s1) = Some (?a2, s1)" using z ne by (simp add: a_turn_def)
        with turn_refine [OF p1(2) assms(2), of env s1] obtain p2 where
          p2: "worker_turn env i (p1, s1) = Some (p2, s1)" "pool_rel p2 ?a2"
          by (auto simp: option_rel_Some2)
        have "state (workers p2 ! i) = WORKER_STATE_EXIT"
          using st(1) [OF p2(2)] st(2) [OF p1(2)] by simp
        then have "join_worker env i (p1, s1) = Some (p2, s1)"
          using p2(1) z(2) ne st(1) [OF p1(2)]
          by (simp add: join_worker.simps [of env i "(p1, s1)"] join_worker.simps [of env i "(p2, s1)"])
        with unf p1(1) abs p2(2) show ?thesis by simp
      qed
    qed
  qed
qed

fun a_join_loop :: "'w env \<Rightarrow> nat list \<Rightarrow> apool \<times> 'w \<Rightarrow> (apool \<times> 'w) option" where
  "a_join_loop env [] as = Some as"
| "a_join_loop env (i # is) as =
     do {
       as1 \<leftarrow> (if a_tids (fst as) ! i \<noteq> 0 then a_join env i as else Some as);
       a_join_loop env is as1
     }"

text \<open>
  The pool joins a worker when its thread id is not 0; that is right when the workers with an
  id are exactly those whose thread has started.
\<close>

definition joinable :: "apool \<Rightarrow> bool" where
  "joinable a \<longleftrightarrow>
     (\<forall>i < NUM_WORKERS. a_tids a ! i = 0 \<longleftrightarrow> a_states a ! i = WORKER_STATE_INIT)"

lemma a_join_keeps:
  assumes "a_join env i (a, s) = Some (a', s')" "joinable a" "i < NUM_WORKERS"
    "length (a_states a) = NUM_WORKERS" "a_states a ! i \<noteq> WORKER_STATE_INIT"
  shows "a_destroying a' = a_destroying a" "joinable a'" "a_arrays a' = a_arrays a"
  using assms a_turn_keeps [of env i a s] unfolding joinable_def a_join_def
  by (auto simp: nth_list_update split: if_splits Option.bind_splits)

lemma join_loop_refine:
  assumes "pool_rel p a" "a_destroying a" "joinable a" "\<forall>i \<in> set is. i < NUM_WORKERS"
  shows "rel_option (rel_prod pool_rel (=)) (join_loop env is (p, s)) (a_join_loop env is (a, s))"
  using assms
proof (induction "is" arbitrary: p a s)
  case (Cons i "is")
  have i: "i < NUM_WORKERS" using Cons.prems(4) by simp
  obtain xss where r: "rel p a xss {} {} {}" using Cons.prems(1) by (auto simp: pool_rel_def)
  have tid: "tid (workers p ! i) = a_tids a ! i"
    using relD(15) [OF r] rel_lengths(1) [OF r] i by (metis nth_map)
  show ?case
  proof (cases "a_tids a ! i = 0")
    case True
    with Cons.IH [OF Cons.prems(1-3), of s] Cons.prems(4) tid show ?thesis by simp
  next
    case False
    then have st: "a_states a ! i \<noteq> WORKER_STATE_INIT" using Cons.prems(3) i by (auto simp: joinable_def)
    note j = join_worker_refine [OF Cons.prems(1) i Cons.prems(2) st, of env s]
    show ?thesis
    proof (cases "a_join env i (a, s)")
      case None
      with j False tid show ?thesis by simp
    next
      case (Some as)
      obtain a1 s1 where as: "as = (a1, s1)" by (cases as)
      with j Some obtain p1 where p1: "join_worker env i (p, s) = Some (p1, s1)" "pool_rel p1 a1"
        by (auto simp: option_rel_Some2)
      note k = a_join_keeps [OF Some [unfolded as] Cons.prems(3) i rel_lengths(3) [OF r] st]
      from Cons.IH [OF p1(2) _ k(2), of s1] k(1) Cons.prems(2,4) p1(1) Some as False tid
      show ?thesis by simp
    qed
  qed
qed simp

section \<open>Destruction\<close>

lemma disjoint_sub: "A \<subseteq> B \<Longrightarrow> C \<inter> B = {} \<Longrightarrow> A \<inter> C = {}"
  by blast

lemma destroy_all_workers_spec:
  assumes "list_all2 (wq m) ws xss"
    and "distinct (map cell_node (concat xss))" "distinct (map cell_task (concat xss))"
      "distinct (map cell_itask (concat xss))"
    and "NULL \<notin> cell_task ` set (concat xss)" "NULL \<notin> cell_itask ` set (concat xss)"
  shows "\<exists>m1. destroy_all_workers m ws = Some m1 \<and>
    qstep m m1 (cell_node ` set (concat xss)) (cell_task ` set (concat xss))
      (cell_itask ` set (concat xss)) {}"
  using assms
proof (induction ws arbitrary: m xss)
  case Nil
  then show ?case by (simp add: qstep_refl)
next
  case (Cons w ws)
  then obtain zs yss where xss: "xss = zs # yss" and hyps: "wq m w zs" "list_all2 (wq m) ws yss"
    by (auto simp: list_all2_Cons1)
  note prems = Cons.prems(2-) [unfolded xss]
  have nz: "NULL \<notin> cell_task ` set zs" "NULL \<notin> cell_itask ` set zs"
    using prems(4,5) by auto
  obtain m1 where m1: "destroy_worker m w = Some m1"
    "qstep m m1 (cell_node ` set zs) (cell_task ` set zs) (cell_itask ` set zs) {}"
    using destroy_worker_spec [OF hyps(1) nz] by blast
  have "wq m1 w' zs' = wq m w' zs'" if "zs' \<in> set yss" for w' zs'
  proof (rule qstep_wq_frame(1) [OF m1(2)])
    have sub: "set zs' \<subseteq> set (concat yss)" using that by auto
    have d: "cell_node ` set zs \<inter> cell_node ` set (concat yss) = {}"
      "cell_task ` set zs \<inter> cell_task ` set (concat yss) = {}"
      "cell_itask ` set zs \<inter> cell_itask ` set (concat yss) = {}"
      using prems(1-3) by (simp_all del: set_concat)
    note dj = disjoint_sub [OF image_mono [OF sub]]
    show "cell_node ` set zs' \<inter> ({} \<union> cell_node ` set zs) = {}"
      using dj [OF d(1)] by simp
    show "cell_task ` set zs' \<inter> cell_task ` set zs = {}" by (rule dj [OF d(2)])
    show "cell_itask ` set zs' \<inter> cell_itask ` set zs = {}" by (rule dj [OF d(3)])
  qed
  with hyps(2) have "list_all2 (wq m1) ws yss"
    by (auto simp: list_all2_conv_all_nth)
  with Cons.IH [of m1 yss] prems obtain m2 where m2: "destroy_all_workers m1 ws = Some m2"
    "qstep m1 m2 (cell_node ` set (concat yss)) (cell_task ` set (concat yss))
      (cell_itask ` set (concat yss)) {}" by auto
  from qstep_trans [OF m1(2) m2(2)] m1(1) m2(1) show ?case
    unfolding xss by (simp add: image_Un del: set_concat)
qed

lemma free_ctx_chain_spec:
  assumes "lseg (rc_nxt m) h cs NULL"
  shows "free_ctx_chain m h = Some (m\<lparr>ctxs := ctxs m |` (- set cs)\<rparr>)"
  using assms
proof (induction cs arbitrary: m h)
  case Nil
  then show ?case by (simp add: free_ctx_chain.simps)
next
  case (Cons c cs)
  obtain cx where c: "c \<noteq> NULL" "ctxs m c = Some cx"
    using lseg_dom [OF Cons.prems, of c] by (auto simp: rc_nxt_def)
  with Cons.prems have seg: "h = c" "lseg (rc_nxt m) (rc_next cx) cs NULL" "c \<notin> set cs"
    using rc_nxt_Some [OF c(2)] lseg_hd_notin [OF Cons.prems] by simp_all
  let ?m1 = "m\<lparr>ctxs := (ctxs m)(c := None)\<rparr>"
  have "lseg (rc_nxt ?m1) (rc_next cx) cs NULL"
    by (rule rc_lseg_frame [OF seg(2)]) (use seg(3) in auto)
  from Cons.IH [OF this] c seg(1) have "free_ctx_chain m h
      = Some (m\<lparr>ctxs := ((ctxs m)(c := None)) |` (- set cs)\<rparr>)"
    by (simp add: free_ctx_chain.simps [of m c] free_ctx_def restrict_map_def fun_upd_def)
  moreover have "((ctxs m)(c := None)) |` (- set cs) = ctxs m |` (- set (c # cs))"
    by (auto simp: restrict_map_def fun_eq_iff)
  ultimately show ?case by (simp only:)
qed

text \<open>The contexts whose bucket is in H.\<close>

definition in_buckets :: "mem \<Rightarrow> nat set \<Rightarrow> ptr set" where
  "in_buckets m H = {c. \<exists>cx. ctxs m c = Some cx \<and> bucket (rc_request_id cx) \<in> H}"

lemma destroy_hash_loop_spec:
  assumes "\<forall>h \<in> set hs. bucket_ok m hash h" "distinct hs"
  shows "destroy_hash_loop m hash hs = Some (m\<lparr>ctxs := ctxs m |` (- in_buckets m (set hs))\<rparr>)"
  using assms
proof (induction hs arbitrary: m)
  case Nil
  then show ?case by (simp add: in_buckets_def)
next
  case (Cons h hs)
  obtain cs where cs: "lseg (rc_nxt m) (hash h) cs NULL" "set cs = in_buckets m {h}"
    using Cons.prems(1) by (auto simp: bucket_ok_def in_buckets_def)
  let ?m1 = "m\<lparr>ctxs := ctxs m |` (- set cs)\<rparr>"
  have out: "in_buckets m H \<inter> set cs = {}" if "h \<notin> H" for H
    using that by (auto simp: cs(2) in_buckets_def)
  have same: "in_buckets ?m1 H = in_buckets m H" if "h \<notin> H" for H
    using out [OF that] by (auto simp: in_buckets_def restrict_map_def)
  have "bucket_ok ?m1 hash h'" if h': "h' \<in> set hs" for h'
  proof -
    have ne: "h \<notin> {h'}" using h' Cons.prems(2) by auto
    obtain ds where ds: "lseg (rc_nxt m) (hash h') ds NULL" "set ds = in_buckets m {h'}"
      using bspec [OF Cons.prems(1) list.set_intros(2) [OF h']]
      by (auto simp: bucket_ok_def in_buckets_def)
    have "lseg (rc_nxt ?m1) (hash h') ds NULL"
      by (rule rc_lseg_frame [OF ds(1)]) (use out [OF ne] in \<open>auto simp: ds(2) restrict_map_def\<close>)
    moreover have "set ds = in_buckets ?m1 {h'}" using same [OF ne] ds(2) by simp
    ultimately show ?thesis by (auto simp: bucket_ok_def in_buckets_def)
  qed
  with Cons.IH [of ?m1] Cons.prems(2)
  have "destroy_hash_loop ?m1 hash hs = Some (?m1\<lparr>ctxs := ctxs ?m1 |` (- in_buckets ?m1 (set hs))\<rparr>)"
    by simp
  moreover have "in_buckets ?m1 (set hs) = in_buckets m (set hs)"
    using Cons.prems(2) by (intro same) simp
  moreover have "- set cs \<inter> - in_buckets m (set hs) = - in_buckets m (set (h # hs))"
    by (auto simp: cs(2) in_buckets_def)
  ultimately show ?case by (simp add: free_ctx_chain_spec [OF cs(1)])
qed

lemma destroy_hash_table_spec:
  assumes "ht m hash A"
  shows "destroy_hash_table m hash = Some (m\<lparr>ctxs := Map.empty\<rparr>)"
proof -
  have "ctxs m |` (- in_buckets m (set [0..<REQ_HASH_SIZE])) = Map.empty"
    using bucket_lt by (auto simp: restrict_map_def fun_eq_iff in_buckets_def)
  then show ?thesis
    using destroy_hash_loop_spec [of "[0..<REQ_HASH_SIZE]" m hash] htD(1) [OF assms]
    by (simp add: destroy_hash_table_def)
qed

text \<open>
  Destruction runs the workers' remaining turns and then leaves a heap without any object of the
  pool; the arrays of ids belong to the application.
\<close>

lemma destroy_refine:
  assumes "pool_rel p a" "joinable a"
  shows "rel_option (\<lambda>(m, s') (a', s''). no_objects m \<and> id_arrays m = a_arrays a' \<and> s' = s'')
    (thread_pool_destroy env (p, s))
    (a_join_loop env [0..<NUM_WORKERS] (a\<lparr>a_destroying := True\<rparr>, s))"
proof -
  let ?a = "a\<lparr>a_destroying := True\<rparr>"
  have jl: "joinable ?a" using assms(2) by (simp add: joinable_def)
  have j: "rel_option (rel_prod pool_rel (=)) (join_loop env [0..<NUM_WORKERS] (shutdown_threads p, s))
      (a_join_loop env [0..<NUM_WORKERS] (?a, s))"
    by (rule join_loop_refine [OF shutdown_refine [OF assms(1)] _ jl]) auto
  show ?thesis
  proof (cases "a_join_loop env [0..<NUM_WORKERS] (?a, s)")
    case None
    with j show ?thesis by (simp add: thread_pool_destroy_def)
  next
    case (Some as)
    obtain a1 s1 where as: "as = (a1, s1)" by (cases as)
    with j Some obtain p1 where p1: "join_loop env [0..<NUM_WORKERS] (shutdown_threads p, s) = Some (p1, s1)"
      "pool_rel p1 a1" by (auto simp: option_rel_Some2)
    then obtain xss where r: "rel p1 a1 xss {} {} {}" by (auto simp: pool_rel_def)
    note h = heap_invD [OF relD(11) [OF r]]
    have nn: "NULL \<notin> cell_task ` set (concat xss)" "NULL \<notin> cell_itask ` set (concat xss)"
      using ownsD(7) [OF h(4), of NULL] by blast+
    have "list_all2 (wq (pmem p1)) (workers p1) xss"
      using h(1-3) by (simp add: list_all2_conv_all_nth)
    with h(5-7) nn obtain m1 where m1: "destroy_all_workers (pmem p1) (workers p1) = Some m1"
      "qstep (pmem p1) m1 (cell_node ` set (concat xss)) (cell_task ` set (concat xss))
        (cell_itask ` set (concat xss)) {}"
      using destroy_all_workers_spec by blast
    have "ht m1 (req_hash p1) (a_ctx a1)"
      using relD(13) [OF r] ht_cong [OF qstep_fields(3) [OF m1(2)]] by simp
    note dt = destroy_hash_table_spec [OF this]
    have "owns m1 {} {} {} (dom (ctxs m1)) (dom (id_arrays m1))"
      using qstep_owns [OF m1(2) h(4)] by (simp add: qstep_fields [OF m1(2)] del: set_concat)
    then have "no_objects (m1\<lparr>ctxs := Map.empty\<rparr>)" by (auto simp: no_objects_def owns_def)
    moreover have "id_arrays m1 = a_arrays a1"
      using relD(4) [OF r] qstep_fields(4) [OF m1(2)] by simp
    ultimately show ?thesis
      using Some as p1(1) m1(1) dt by (simp add: thread_pool_destroy_def)
  qed
qed

end
