(* ===== verification/Contracts.thy ===== *)
theory Contracts
  imports OstPrelude
begin

text \<open>
  The contracts the components are proved against, each a locale with the operations it speaks
  of, the laws a provider owes, and what a client may conclude from them: a step function that
  simulates another one, a dictionary, and queues.  The component theories interpret them on the
  model of the code.
\<close>

section \<open>Runs and simulation\<close>

fun run :: "('l \<Rightarrow> 's \<Rightarrow> ('v \<times> 's) option) \<Rightarrow> 'l list \<Rightarrow> 's \<Rightarrow> ('v list \<times> 's) option" where
  "run step [] s = Some ([], s)"
| "run step (l # ls) s =
     do { (v, s1) \<leftarrow> step l s; (vs, s2) \<leftarrow> run step ls s1; Some (v # vs, s2) }"

lemma run_append:
  "run step (ls @ ls') s =
     do { (vs, s1) \<leftarrow> run step ls s; (vs', s2) \<leftarrow> run step ls' s1; Some (vs @ vs', s2) }"
  by (induction ls arbitrary: s) (auto split: Option.bind_splits)

locale simulation =
  fixes cstep :: "'l \<Rightarrow> 'c \<Rightarrow> ('v \<times> 'c) option" and astep :: "'l \<Rightarrow> 'a \<Rightarrow> ('v \<times> 'a) option"
    and R :: "'c \<Rightarrow> 'a \<Rightarrow> bool"
  assumes sim: "R c a \<Longrightarrow> rel_option (rel_prod (=) R) (cstep l c) (astep l a)"
begin

lemma sim_Some: "R c a \<Longrightarrow> astep l a = Some (v, a') \<Longrightarrow> \<exists>c'. cstep l c = Some (v, c') \<and> R c' a'"
  using sim [of c a l] by (auto simp: option_rel_Some2)

lemma sim_back: "R c a \<Longrightarrow> cstep l c = Some (v, c') \<Longrightarrow> \<exists>a'. astep l a = Some (v, a') \<and> R c' a'"
  using sim [of c a l] by (auto simp: option_rel_Some1)

lemma sim_None: "R c a \<Longrightarrow> cstep l c = None \<longleftrightarrow> astep l a = None"
  using sim [of c a l] by (cases "astep l a") (auto simp: option_rel_Some2)

lemma run_sim: "R c a \<Longrightarrow> rel_option (rel_prod (=) R) (run cstep ls c) (run astep ls a)"
proof (induction ls arbitrary: c a)
  case (Cons l ls)
  show ?case
  proof (cases "astep l a")
    case None
    then have "cstep l c = None" using sim_None [OF Cons.prems] by simp
    with None show ?thesis by simp
  next
    case (Some x)
    obtain v a1 where x: "x = (v, a1)" by (cases x)
    with Some sim_Some [OF Cons.prems, of l v a1] obtain c1 where c1: "cstep l c = Some (v, c1)" "R c1 a1"
      by auto
    from Cons.IH [OF c1(2)] Some c1(1) x show ?thesis
      by (cases "run cstep ls c1"; cases "run astep ls a1") auto
  qed
qed simp

end

text \<open>An invariant of the abstract steps holds, through the relation, along every concrete run.\<close>

locale invariant_simulation = simulation cstep astep R
  for cstep :: "'l \<Rightarrow> 'c \<Rightarrow> ('v \<times> 'c) option" and astep :: "'l \<Rightarrow> 'a \<Rightarrow> ('v \<times> 'a) option"
    and R :: "'c \<Rightarrow> 'a \<Rightarrow> bool" +
  fixes I :: "'a \<Rightarrow> bool"
  assumes step_inv: "I a \<Longrightarrow> astep l a = Some (v, a') \<Longrightarrow> I a'"
begin

lemma abstract_run_inv: "I a \<Longrightarrow> run astep ls a = Some (vs, a') \<Longrightarrow> I a'"
proof (induction ls arbitrary: a vs)
  case (Cons l ls)
  then obtain v a1 us where "astep l a = Some (v, a1)" "run astep ls a1 = Some (us, a')"
    by (auto split: Option.bind_splits)
  with Cons.IH step_inv Cons.prems(1) show ?case by blast
qed simp

lemma run_inv:
  assumes "R c a" "I a" "run cstep ls c = Some (vs, c')"
  shows "\<exists>a'. R c' a' \<and> I a'"
proof -
  from run_sim [OF assms(1), of ls] assms(3) obtain a' where "run astep ls a = Some (vs, a')" "R c' a'"
    by (auto simp: option_rel_Some1)
  with abstract_run_inv [OF assms(2)] show ?thesis by blast
qed

end

section \<open>Folding an operation over a list\<close>

fun fold_opt :: "('x \<Rightarrow> 's \<Rightarrow> 's option) \<Rightarrow> 'x list \<Rightarrow> 's \<Rightarrow> 's option" where
  "fold_opt f [] s = Some s"
| "fold_opt f (x # xs) s = do { s1 \<leftarrow> f x s; fold_opt f xs s1 }"

lemma fold_opt_append: "fold_opt f (xs @ ys) s = do { s1 \<leftarrow> fold_opt f xs s; fold_opt f ys s1 }"
  by (induction xs arbitrary: s) (auto split: Option.bind_splits)

text \<open>Taking n times, and what was taken.\<close>

fun take_times :: "('s \<Rightarrow> ('x option \<times> 's) option) \<Rightarrow> nat \<Rightarrow> 's \<Rightarrow> ('x option list \<times> 's) option" where
  "take_times t 0 s = Some ([], s)"
| "take_times t (Suc n) s = do { (x, s1) \<leftarrow> t s; (xs, s2) \<leftarrow> take_times t n s1; Some (x # xs, s2) }"

section \<open>Dictionaries\<close>

text \<open>
  A state that holds a finite map: a lookup returns what the map says, a new key can be put, any
  key deleted.
\<close>

locale dictionary =
  fixes rep :: "'s \<Rightarrow> ('k \<Rightarrow> 'v option) \<Rightarrow> bool"
    and look :: "'k \<Rightarrow> 's \<Rightarrow> 'v option option"
    and put :: "'k \<times> 'v \<Rightarrow> 's \<Rightarrow> 's option"
    and del :: "'k \<Rightarrow> 's \<Rightarrow> 's option"
  assumes look: "rep s A \<Longrightarrow> look k s = Some (A k)"
    and put: "rep s A \<Longrightarrow> A k = None \<Longrightarrow> \<exists>s'. put (k, v) s = Some s' \<and> rep s' (A(k \<mapsto> v))"
    and del: "rep s A \<Longrightarrow> \<exists>s'. del k s = Some s' \<and> rep s' (A(k := None))"
begin

lemma put_all:
  assumes "rep s A" "distinct (map fst kvs)" "\<forall>k \<in> fst ` set kvs. A k = None"
  shows "\<exists>s'. fold_opt put kvs s = Some s' \<and> rep s' (A ++ map_of kvs)"
  using assms
proof (induction kvs arbitrary: s A)
  case (Cons kv kvs)
  obtain k v where kv: "kv = (k, v)" by (cases kv)
  with put [of s A k v] Cons.prems obtain s1 where 1: "put kv s = Some s1" "rep s1 (A(k \<mapsto> v))" by auto
  have "\<forall>k' \<in> fst ` set kvs. (A(k \<mapsto> v)) k' = None" using Cons.prems(2,3) kv by auto
  moreover have "distinct (map fst kvs)" using Cons.prems(2) by simp
  ultimately obtain s2 where 2: "fold_opt put kvs s1 = Some s2" "rep s2 (A(k \<mapsto> v) ++ map_of kvs)"
    using Cons.IH [OF 1(2)] by blast
  have "map_of kvs k = None" using Cons.prems(2) kv by (simp add: map_of_eq_None_iff)
  then have "A(k \<mapsto> v) ++ map_of kvs = A ++ map_of (kv # kvs)"
    by (intro ext) (auto simp: kv map_add_def split: option.splits)
  with 2(2) have "rep s2 (A ++ map_of (kv # kvs))" by (simp only:)
  with 1(1) 2(1) show ?case by (simp only: fold_opt.simps bind.bind_lunit) blast
qed simp

lemma del_all: "rep s A \<Longrightarrow> \<exists>s'. fold_opt del ks s = Some s' \<and> rep s' (A |` (- set ks))"
proof (induction ks arbitrary: s A)
  case (Cons k ks)
  from del [OF Cons.prems, of k] obtain s1 where 1: "del k s = Some s1" "rep s1 (A(k := None))" by auto
  have eq: "(A(k := None)) |` (- set ks) = A |` (- set (k # ks))"
    by (intro ext) (auto simp: restrict_map_def)
  obtain s2 where "fold_opt del ks s1 = Some s2" "rep s2 (A |` (- set (k # ks)))"
    using Cons.IH [OF 1(2)] unfolding eq by blast
  with 1(1) show ?case by (simp only: fold_opt.simps bind.bind_lunit) blast
qed simp

text \<open>What was put is found, nothing else is, and deleting it again restores the map.\<close>

lemma put_look_del:
  assumes "rep s A" "distinct (map fst kvs)" "\<forall>k \<in> fst ` set kvs. A k = None"
  obtains s1 s2 where "fold_opt put kvs s = Some s1" "\<And>k. look k s1 = Some ((A ++ map_of kvs) k)"
    "fold_opt del (map fst kvs) s1 = Some s2" "rep s2 A"
proof -
  obtain s1 where 1: "fold_opt put kvs s = Some s1" "rep s1 (A ++ map_of kvs)" using put_all [OF assms] by auto
  obtain s2 where 2: "fold_opt del (map fst kvs) s1 = Some s2"
    "rep s2 ((A ++ map_of kvs) |` (- set (map fst kvs)))" using del_all [OF 1(2)] by blast
  have "(A ++ map_of kvs) |` (- set (map fst kvs)) = A"
  proof
    fix k
    have "k \<notin> set (map fst kvs) \<Longrightarrow> map_of kvs k = None" by (simp add: map_of_eq_None_iff)
    then show "((A ++ map_of kvs) |` (- set (map fst kvs))) k = A k"
      using assms(3) by (auto simp: restrict_map_def map_add_def)
  qed
  with 1 2 look [OF 1(2)] show thesis by (intro that) simp_all
qed

end

section \<open>Queues\<close>

text \<open>A state that holds a list, to whose end a client may add, up to a bound.\<close>

locale appendable =
  fixes rep :: "'s \<Rightarrow> 'x list \<Rightarrow> bool" and add :: "'x \<Rightarrow> 's \<Rightarrow> 's option" and bound :: nat
  assumes add: "rep s xs \<Longrightarrow> length xs < bound \<Longrightarrow> \<exists>s'. add x s = Some s' \<and> rep s' (xs @ [x])"
begin

lemma add_all:
  assumes "rep s xs" "length xs + length ys \<le> bound"
  shows "\<exists>s'. fold_opt add ys s = Some s' \<and> rep s' (xs @ ys)"
  using assms
proof (induction ys arbitrary: s xs)
  case (Cons y ys)
  then obtain s1 where 1: "add y s = Some s1" "rep s1 (xs @ [y])" using add [of s xs y] by auto
  with Cons.IH [OF 1(2)] Cons.prems(2) show ?case by auto
qed simp

end

text \<open>A sequence of additions and removals, on a state and on a list; the results of the removals.\<close>

datatype 'x queue_op = Add 'x | Take

fun queue_ops ::
    "('x \<Rightarrow> 's \<Rightarrow> 's option) \<Rightarrow> ('s \<Rightarrow> ('x option \<times> 's) option) \<Rightarrow> 'x queue_op list \<Rightarrow> 's \<Rightarrow>
      ('x option list \<times> 's) option" where
  "queue_ops a t [] s = Some ([], s)"
| "queue_ops a t (Add x # ops) s = do { s1 \<leftarrow> a x s; queue_ops a t ops s1 }"
| "queue_ops a t (Take # ops) s =
     do { (r, s1) \<leftarrow> t s; (rs, s2) \<leftarrow> queue_ops a t ops s1; Some (r # rs, s2) }"

fun list_ops :: "'x queue_op list \<Rightarrow> 'x list \<Rightarrow> 'x option list \<times> 'x list" where
  "list_ops [] xs = ([], xs)"
| "list_ops (Add x # ops) xs = list_ops ops (xs @ [x])"
| "list_ops (Take # ops) [] = (let (rs, ys) = list_ops ops [] in (None # rs, ys))"
| "list_ops (Take # ops) (x # xs) = (let (rs, ys) = list_ops ops xs in (Some x # rs, ys))"

text \<open>First in, first out.\<close>

locale fifo = appendable rep add bound
  for rep :: "'s \<Rightarrow> 'x list \<Rightarrow> bool" and add :: "'x \<Rightarrow> 's \<Rightarrow> 's option" and bound :: nat +
  fixes take :: "'s \<Rightarrow> ('x option \<times> 's) option"
  assumes take_Nil: "rep s [] \<Longrightarrow> take s = Some (None, s)"
    and take_Cons: "rep s (x # xs) \<Longrightarrow> \<exists>s'. take s = Some (Some x, s') \<and> rep s' xs"
begin

lemma take_all:
  "rep s (xs @ ys) \<Longrightarrow> \<exists>s'. take_times take (length xs) s = Some (map Some xs, s') \<and> rep s' ys"
proof (induction xs arbitrary: s)
  case (Cons x xs)
  then obtain s1 where 1: "take s = Some (Some x, s1)" "rep s1 (xs @ ys)" using take_Cons [of s x "xs @ ys"] by auto
  with Cons.IH [OF 1(2)] show ?case by auto
qed simp

lemma first_in_first_out:
  assumes "rep s xs" "length xs + length ys \<le> bound"
  obtains s1 s2 where "fold_opt add ys s = Some s1"
    "take_times take (length (xs @ ys)) s1 = Some (map Some (xs @ ys), s2)" "rep s2 []"
    "take s2 = Some (None, s2)"
proof -
  obtain s1 where 1: "fold_opt add ys s = Some s1" "rep s1 (xs @ ys)" using add_all [OF assms] by auto
  obtain s2 where 2: "take_times take (length (xs @ ys)) s1 = Some (map Some (xs @ ys), s2)" "rep s2 []"
    using take_all [of s1 "xs @ ys" "[]"] 1(2) by auto
  from 1(1) 2 take_Nil [OF 2(2)] show thesis by (rule that)
qed

text \<open>Any interleaving behaves as the list does.\<close>

lemma ops_spec:
  "rep s xs \<Longrightarrow> length xs + length ops \<le> bound \<Longrightarrow>
    \<exists>s'. queue_ops add take ops s = Some (fst (list_ops ops xs), s') \<and> rep s' (snd (list_ops ops xs))"
proof (induction ops xs arbitrary: s rule: list_ops.induct)
  case (2 x ops xs)
  then obtain s1 where 1: "add x s = Some s1" "rep s1 (xs @ [x])" using add [of s xs x] by auto
  with "2.IH" [OF 1(2)] "2.prems"(2) show ?case by simp
next
  case (3 ops)
  then obtain s' where "queue_ops add take ops s = Some (fst (list_ops ops []), s')" "rep s' (snd (list_ops ops []))"
    using "3.IH" [of s] by auto
  with take_Nil [OF "3.prems"(1)] show ?case by (auto simp: split_def Let_def)
next
  case (4 ops x xs)
  then obtain s1 where 1: "take s = Some (Some x, s1)" "rep s1 xs" using take_Cons [of s x xs] by auto
  with "4.IH" [OF 1(2)] "4.prems"(2) show ?case by (auto simp: split_def Let_def)
qed simp

end

text \<open>A queue taken by key: the first element with the key; and all of a key dropped at once.\<close>

locale keyed_fifo = appendable rep add bound
  for rep :: "'s \<Rightarrow> 'x list \<Rightarrow> bool" and add :: "'x \<Rightarrow> 's \<Rightarrow> 's option" and bound :: nat +
  fixes key :: "'x \<Rightarrow> 'k" and take :: "'k \<Rightarrow> 's \<Rightarrow> ('x option \<times> 's) option"
    and drop_key :: "'k \<Rightarrow> 's \<Rightarrow> (nat \<times> 's) option"
  assumes take_none: "rep s xs \<Longrightarrow> k \<notin> key ` set xs \<Longrightarrow> take k s = Some (None, s)"
    and take_some: "rep s (ys @ x # zs) \<Longrightarrow> key x = k \<Longrightarrow> k \<notin> key ` set ys \<Longrightarrow>
      \<exists>s'. take k s = Some (Some x, s') \<and> rep s' (ys @ zs)"
    and drop_key: "rep s xs \<Longrightarrow> \<exists>s'. drop_key k s = Some (length (filter (\<lambda>x. key x = k) xs), s') \<and>
      rep s' (filter (\<lambda>x. key x \<noteq> k) xs)"
begin

lemma take_all:
  assumes "rep s xs" "n = length (filter (\<lambda>x. key x = k) xs)"
  shows "\<exists>s'. take_times (take k) n s = Some (map Some (filter (\<lambda>x. key x = k) xs), s') \<and>
    rep s' (filter (\<lambda>x. key x \<noteq> k) xs)"
  using assms
proof (induction n arbitrary: s xs)
  case 0
  then have "filter (\<lambda>x. key x \<noteq> k) xs = xs" "filter (\<lambda>x. key x = k) xs = []"
    by (auto simp: filter_id_conv filter_empty_conv)
  with 0 show ?case by simp
next
  case (Suc n)
  then obtain x rest where f: "filter (\<lambda>x. key x = k) xs = x # rest" by (metis length_Suc_conv)
  from filter_eq_ConsD [OF this] obtain ys zs where xs: "xs = ys @ x # zs" "\<forall>y \<in> set ys. key y \<noteq> k" "key x = k"
    "rest = filter (\<lambda>x. key x = k) zs" by auto
  then have ys: "filter (\<lambda>x. key x = k) ys = []" "filter (\<lambda>x. key x \<noteq> k) ys = ys" "k \<notin> key ` set ys"
    by (auto simp: filter_id_conv filter_empty_conv)
  obtain s1 where 1: "take k s = Some (Some x, s1)" "rep s1 (ys @ zs)"
    using take_some [of s ys x zs k] Suc.prems(1) xs(1,3) ys(3) by auto
  have "n = length (filter (\<lambda>x. key x = k) (ys @ zs))" using Suc.prems(2) f xs(4) ys(1) by simp
  from Suc.IH [OF 1(2) this] 1(1) show ?case using xs ys(1,2) by auto
qed

text \<open>Taking a key to the end and dropping it leave the same list; other keys keep their order.\<close>

lemma keyed_order:
  assumes "rep s xs" "length xs + length ys \<le> bound"
  obtains s1 s2 s3 where "fold_opt add ys s = Some s1"
    "take_times (take k) (length (filter (\<lambda>x. key x = k) (xs @ ys))) s1
       = Some (map Some (filter (\<lambda>x. key x = k) (xs @ ys)), s2)"
    "rep s2 (filter (\<lambda>x. key x \<noteq> k) (xs @ ys))" "take k s2 = Some (None, s2)"
    "drop_key k s1 = Some (length (filter (\<lambda>x. key x = k) (xs @ ys)), s3)"
    "rep s3 (filter (\<lambda>x. key x \<noteq> k) (xs @ ys))"
proof -
  obtain s1 where 1: "fold_opt add ys s = Some s1" "rep s1 (xs @ ys)" using add_all [OF assms] by auto
  obtain s2 where 2: "take_times (take k) (length (filter (\<lambda>x. key x = k) (xs @ ys))) s1
       = Some (map Some (filter (\<lambda>x. key x = k) (xs @ ys)), s2)"
    "rep s2 (filter (\<lambda>x. key x \<noteq> k) (xs @ ys))" using take_all [OF 1(2) refl] by blast
  have 3: "take k s2 = Some (None, s2)" by (rule take_none [OF 2(2)]) auto
  obtain s3 where "drop_key k s1 = Some (length (filter (\<lambda>x. key x = k) (xs @ ys)), s3)"
    "rep s3 (filter (\<lambda>x. key x \<noteq> k) (xs @ ys))" using drop_key [OF 1(2)] by blast
  with 1(1) 2 3 show thesis by (rule that)
qed

end

end
