(* ===== verification/PoolRun.thy ===== *)
theory PoolRun
  imports PoolLife Contracts
begin

text \<open>
  Runs of the pool: the operations as labels, their interleaving as a list of labels (an API call
  or a turn of a worker at a time), and the simulation that carries properties of the abstract
  pool over to the pointer-level one.
\<close>

section \<open>The operations of the pool\<close>

datatype pool_op =
    Start
  | Submit u32 "task_fn option" ptr ptr ptr
  | Batch "ThreadPoolTask list" ptr ptr ptr ptr
  | Cancel u32
  | Wake u32
  | Turn nat

datatype pool_val = Int_val int | Id_val u64 | Ids_val ptr | Turn_done

fun pool_do :: "'w env \<Rightarrow> pool_op \<Rightarrow> pool \<times> 'w \<Rightarrow> (pool_val \<times> pool \<times> 'w) option" where
  "pool_do env Start (p, s) = (let (v, p') = thread_pool_start p in Some (Int_val v, p', s))"
| "pool_do env (Submit q func arg cb data) (p, s) =
     map_option (\<lambda>(v, p'). (Id_val v, p', s)) (thread_pool_submit_task p q func arg cb data)"
| "pool_do env (Batch ts cb data bcb bdata) (p, s) =
     map_option (\<lambda>(v, p'). (Ids_val v, p', s)) (thread_pool_submit_batch_tasks p ts cb data bcb bdata)"
| "pool_do env (Cancel q) (p, s) =
     map_option (\<lambda>(v, p'). (Int_val v, p', s)) (thread_pool_cancel_tasks_by_req p q)"
| "pool_do env (Wake q) (p, s) =
     map_option (\<lambda>(v, p'). (Int_val v, p', s)) (thread_pool_wake_up_worker_by_req_id p q)"
| "pool_do env (Turn i) (p, s) =
     (if i < NUM_WORKERS then map_option (\<lambda>ps. (Turn_done, ps)) (worker_turn env i (p, s))
      else Some (Turn_done, p, s))"

fun a_do :: "'w env \<Rightarrow> pool_op \<Rightarrow> apool \<times> 'w \<Rightarrow> (pool_val \<times> apool \<times> 'w) option" where
  "a_do env Start (a, s) = (let (v, a') = a_start a in Some (Int_val v, a', s))"
| "a_do env (Submit q func arg cb data) (a, s) =
     map_option (\<lambda>(v, a'). (Id_val v, a', s)) (a_submit q func arg cb data a)"
| "a_do env (Batch ts cb data bcb bdata) (a, s) =
     (let (v, a') = a_batch ts cb data bcb bdata a in Some (Ids_val v, a', s))"
| "a_do env (Cancel q) (a, s) = (let (v, a') = a_cancel q a in Some (Int_val v, a', s))"
| "a_do env (Wake q) (a, s) = (let (v, a') = a_wake q a in Some (Int_val v, a', s))"
| "a_do env (Turn i) (a, s) =
     (if i < NUM_WORKERS then map_option (\<lambda>as. (Turn_done, as)) (a_turn env i (a, s))
      else Some (Turn_done, a, s))"

definition state_rel :: "pool \<times> 'w \<Rightarrow> apool \<times> 'w \<Rightarrow> bool" where
  "state_rel = rel_prod pool_rel (=)"

lemma rel_option_map_both:
  assumes "rel_option (rel_prod (=) pool_rel) x y"
  shows "rel_option (rel_prod (=) state_rel) (map_option (\<lambda>(v, p). (f v, p, s)) x)
    (map_option (\<lambda>(v, a). (f v, a, s)) y)"
  using assms by (cases x; cases y) (auto simp: state_rel_def)

lemma pool_do_refine:
  assumes "state_rel ps as"
  shows "rel_option (rel_prod (=) state_rel) (pool_do env l ps) (a_do env l as)"
proof -
  obtain p a s where ps: "ps = (p, s)" "as = (a, s)" "pool_rel p a"
    using assms by (cases ps; cases as) (auto simp: state_rel_def)
  show ?thesis
  proof (cases l)
    case Start
    with start_refine [OF ps(3)] ps show ?thesis
      by (cases "thread_pool_start p"; cases "a_start a") (simp add: state_rel_def)
  next
    case (Submit q func arg cb data)
    with rel_option_map_both [OF submit_refine [OF ps(3)], of Id_val s] show ?thesis by (simp add: ps)
  next
    case (Batch ts cb data bcb bdata)
    with rel_option_map_both [OF batch_refine [OF ps(3)], of Ids_val s] show ?thesis
      by (simp add: ps split_def Let_def)
  next
    case (Cancel q)
    with rel_option_map_both [OF cancel_refine [OF ps(3)], of Int_val s] show ?thesis
      by (simp add: ps split_def Let_def)
  next
    case (Wake q)
    with rel_option_map_both [OF wake_refine [OF ps(3)], of Int_val s] show ?thesis
      by (simp add: ps split_def Let_def)
  next
    case (Turn i)
    with turn_refine [OF ps(3), of i env s] ps show ?thesis
      by (cases "worker_turn env i (p, s)"; cases "a_turn env i (a, s)") (auto simp: state_rel_def)
  qed
qed

interpretation pool_sim: simulation "pool_do env" "a_do env" state_rel for env
  by unfold_locales (rule pool_do_refine)

end
