(* ===== verification/PoolInv.thy ===== *)
theory PoolInv
  imports PoolRun
begin

text \<open>
  Invariants of the abstract pool along a run: the pending count of a request is the number of
  its queued tasks (\<open>count_ok\<close>), and the ids of queued tasks are distinct and below the next
  id (\<open>ids_ok\<close>).
\<close>

section \<open>Counting\<close>

definition queued :: "apool \<Rightarrow> u32 \<Rightarrow> nat" where
  "queued a r = length (filter (\<lambda>t. at_req t = r) (concat (a_queues a)))"

definition n_tasks :: "apool \<Rightarrow> nat" where
  "n_tasks a = length (concat (a_queues a))"

definition count_ok :: "apool \<Rightarrow> bool" where
  "count_ok a \<longleftrightarrow> length (a_queues a) = NUM_WORKERS \<and>
     (\<forall>r. case a_ctx a r of
        None \<Rightarrow> queued a r = 0
      | Some c \<Rightarrow> ac_worker c < NUM_WORKERS \<and> unat (ac_pending c) = queued a r \<and> 0 < queued a r)"

lemma filter_concat_update:
  "i < length xss \<Longrightarrow> length (filter P (concat (xss[i := ys]))) + length (filter P (xss ! i))
     = length (filter P (concat xss)) + length (filter P ys)"
  using concat_split(1) [of i xss] concat_split(2) [of i xss ys] by simp

lemma length_concat_update:
  "i < length xss \<Longrightarrow> length (concat (xss[i := ys])) + length (xss ! i)
     = length (concat xss) + length ys"
  using filter_concat_update [of i xss "\<lambda>_. True" ys] by simp

lemma queued_le_n_tasks: "queued a r \<le> n_tasks a"
  by (simp add: queued_def n_tasks_def)

lemma count_okD:
  assumes "count_ok a"
  shows "length (a_queues a) = NUM_WORKERS" "a_ctx a r = None \<Longrightarrow> queued a r = 0"
    "a_ctx a r = Some c \<Longrightarrow> ac_worker c < NUM_WORKERS \<and> unat (ac_pending c) = queued a r \<and> 0 < queued a r"
  using assms by (auto simp: count_ok_def split: option.splits dest: spec [of _ r])

lemma count_ok_cong:
  assumes "a_queues a' = a_queues a" "a_ctx a' = a_ctx a"
  shows "count_ok a' = count_ok a"
proof -
  have "queued a' r = queued a r" for r using assms(1) by (simp add: queued_def)
  with assms show ?thesis by (simp add: count_ok_def cong: option.case_cong)
qed

lemma queued_ctx [simp]: "queued (a\<lparr>a_ctx := C\<rparr>) r = queued a r"
  by (simp add: queued_def)

lemma queued_cong: "a_queues a' = a_queues a \<Longrightarrow> queued a' r = queued a r"
  by (simp add: queued_def)

lemma count_okI:
  assumes "length (a_queues a) = NUM_WORKERS"
    and "\<And>r. a_ctx a r = None \<Longrightarrow> queued a r = 0"
    and "\<And>r c. a_ctx a r = Some c \<Longrightarrow>
      ac_worker c < NUM_WORKERS \<and> unat (ac_pending c) = queued a r \<and> 0 < queued a r"
  shows "count_ok a"
  using assms by (auto simp: count_ok_def split: option.splits)

text \<open>Queueing n tasks of request q and counting them.\<close>

lemma count_enqueue:
  assumes c: "count_ok a" and i: "i < NUM_WORKERS" and new: "new \<noteq> []" "\<forall>t \<in> set new. at_req t = q"
    and bd: "n_tasks a + length new < 2 ^ 32" and mk: "\<forall>n. malloc_ok a n" "0 < brk a"
    and an: "a_count q (of_nat (length new)) i cb data (a_enqueue i new a) = (ok, a')"
  shows "ok" "count_ok a'" "n_tasks a' = n_tasks a + length new" "malloc_ok a' = malloc_ok a" "0 < brk a'"
proof -
  let ?e = "a_enqueue i new a" and ?n = "of_nat (length new) :: u32"
  have len: "length (a_queues a) = NUM_WORKERS" by (rule count_okD(1) [OF c])
  have q: "queued ?e r = queued a r + (if r = q then length new else 0)" for r
    using filter_concat_update [of i "a_queues a" "\<lambda>t. at_req t = r" "a_queues a ! i @ new"] new(2) i len
    by (auto simp: queued_def a_enqueue_def filter_empty_conv)
  have t: "n_tasks ?e = n_tasks a + length new"
    using length_concat_update [of i "a_queues a" "a_queues a ! i @ new"] i len
    by (simp add: n_tasks_def a_enqueue_def)
  have n: "unat ?n = length new" using bd by (simp add: unat_of_nat)
  have e: "a_ctx ?e = a_ctx a" "length (a_queues ?e) = NUM_WORKERS" "malloc_ok ?e = malloc_ok a"
      "brk ?e = brk a"
    using len by (simp_all add: a_enqueue_def)
  have "ok \<and> count_ok a' \<and> a_queues a' = a_queues ?e \<and> malloc_ok a' = malloc_ok a \<and> 0 < brk a'"
  proof (cases "a_ctx a q")
    case (Some cx)
    then have a': "ok" "a' = ?e\<lparr>a_ctx := (a_ctx ?e)(q \<mapsto> cx\<lparr>ac_pending := ac_pending cx + ?n\<rparr>)\<rparr>"
      using an e by (auto simp: a_count_def)
    have cx: "ac_worker cx < NUM_WORKERS" "unat (ac_pending cx) = queued a q"
      using count_okD(3) [OF c Some] by auto
    have "queued a q + length new < 2 ^ 32" using bd queued_le_n_tasks [of a q] by linarith
    then have "unat (ac_pending cx + ?n) = queued a q + length new"
      using n cx(2) by (subst unat_add_lem [THEN iffD1]) simp_all
    then have "count_ok a'"
      unfolding a'(2)
      by (intro count_okI) (use count_okD [OF c] q cx(1) new(1) e in \<open>auto split: if_splits\<close>)
    with a' e mk show ?thesis by simp
  next
    case None
    let ?cx = "\<lparr>ac_worker = i, ac_pending = ?n, ac_cb = cb, ac_data = data\<rparr>"
    obtain b where b: "malloc_n 1 ?e = (brk ?e, b)" "a_queues b = a_queues ?e" "a_ctx b = a_ctx ?e"
        "malloc_ok b = malloc_ok a" "0 < brk b"
      using mk e by (simp add: malloc_n_def)
    then have a': "ok" "a' = b\<lparr>a_ctx := (a_ctx b)(q \<mapsto> ?cx)\<rparr>"
      using an e None mk(2) by (auto simp: a_count_def)
    have "count_ok a'"
      unfolding a'(2)
      by (intro count_okI)
        (use count_okD [OF c] q i n new(1) e b(2,3) queued_cong [OF b(2)] None in
          \<open>auto split: if_splits\<close>)
    with a' b show ?thesis by simp
  qed
  then show "ok" "count_ok a'" "malloc_ok a' = malloc_ok a" "0 < brk a'" "n_tasks a' = n_tasks a + length new"
    using t by (simp_all add: n_tasks_def)
qed

text \<open>Taking tasks of request q out of queue i, and counting them off.\<close>

lemma queued_remove:
  assumes "i < length (a_queues a)"
    and "\<And>r. r \<noteq> q \<Longrightarrow> filter (\<lambda>t. at_req t = r) ys = filter (\<lambda>t. at_req t = r) (a_queues a ! i)"
    and "n + length (filter (\<lambda>t. at_req t = q) ys) = length (filter (\<lambda>t. at_req t = q) (a_queues a ! i))"
  shows "queued (a\<lparr>a_queues := (a_queues a)[i := ys]\<rparr>) r = queued a r - (if r = q then n else 0)"
    and "n \<le> queued a q"
proof -
  let ?P = "\<lambda>r t. at_req t = r"
  note u = filter_concat_update [OF assms(1), of "?P r" ys]
  show "queued (a\<lparr>a_queues := (a_queues a)[i := ys]\<rparr>) r = queued a r - (if r = q then n else 0)"
    using u assms(2) [of r] assms(3) by (cases "r = q") (simp_all add: queued_def)
  show "n \<le> queued a q"
    using filter_concat_update [OF assms(1), of "?P q" ys] assms(3) by (simp add: queued_def)
qed

lemma count_remove:
  assumes c: "count_ok a" and i: "i < NUM_WORKERS"
    and other: "\<And>r. r \<noteq> q \<Longrightarrow> filter (\<lambda>t. at_req t = r) ys = filter (\<lambda>t. at_req t = r) (a_queues a ! i)"
    and n: "n + length (filter (\<lambda>t. at_req t = q) ys) = length (filter (\<lambda>t. at_req t = q) (a_queues a ! i))"
    and cx: "a_ctx a q = Some cx"
  shows "count_ok (a_set_pending q cx (ac_pending cx - of_nat n) (a\<lparr>a_queues := (a_queues a)[i := ys]\<rparr>))"
proof -
  have len: "i < length (a_queues a)" using count_okD(1) [OF c] i by simp
  note rm = queued_remove [OF len other n]
  have p: "ac_worker cx < NUM_WORKERS" "unat (ac_pending cx) = queued a q" "0 < queued a q"
    using count_okD(3) [OF c cx] by auto
  have "n < 2 ^ 32" using rm(2) p(2) unsigned_less [where 'a = nat, of "ac_pending cx"] by simp
  then have un: "unat (of_nat n :: u32) = n" by (simp add: unat_of_nat)
  have "(of_nat n :: u32) \<le> ac_pending cx" using rm(2) p(2) by (simp add: word_le_nat_alt un)
  then have d: "unat (ac_pending cx - of_nat n) = queued a q - n"
    using p(2) un by (simp add: unat_sub)
  have z: "ac_pending cx = of_nat n \<longleftrightarrow> queued a q = n"
  proof
    assume "queued a q = n"
    with p(2) un show "ac_pending cx = of_nat n" by (metis word_unat_eq_iff)
  qed (use p(2) un in simp)
  show ?thesis
    unfolding a_set_pending_def
    by (intro count_okI) (use count_okD [OF c] rm p(1) d len z in \<open>auto split: if_splits\<close>)
qed

lemma set_pending_fields [simp]:
  "a_queues (a_set_pending q c n a) = a_queues a" "malloc_ok (a_set_pending q c n a) = malloc_ok a"
  "brk (a_set_pending q c n a) = brk a" "a_next (a_set_pending q c n a) = a_next a"
  by (simp_all add: a_set_pending_def)

text \<open>How many tasks an operation may add.\<close>

fun weight :: "pool_op \<Rightarrow> nat" where
  "weight (Submit q func arg cb data) = 1"
| "weight (Batch ts cb data bcb bdata) = length ts"
| "weight _ = 0"

text \<open>The invariant of counting, with every allocation succeeding.\<close>

definition count_inv :: "apool \<Rightarrow> bool" where
  "count_inv a \<longleftrightarrow> count_ok a \<and> (\<forall>n. malloc_ok a n) \<and> 0 < brk a"

lemma a_new_task_Some:
  assumes "a_new_task src q cb data a = (Some t, a')"
  shows "at_req t = q" "at_fn t = task_func src" "at_arg t = task_arg src" "at_cb t = cb"
    "at_data t = data" "at_id t = a_next a" "a_next a' = a_next a + 1" "brk a \<le> brk a'"
  using assms by (auto simp: a_new_task_def malloc_n_def split: if_splits)

lemma a_build_all:
  assumes "a_build srcs q cb data a acc = (Some new, a')" "\<forall>t \<in> set acc. at_req t = q"
  shows "(\<forall>t \<in> set new. at_req t = q) \<and> length new = length acc + length srcs \<and> brk a \<le> brk a'"
  using assms
proof (induction srcs arbitrary: a acc)
  case (Cons src srcs)
  from Cons.prems obtain t a1 where t: "a_new_task src q cb data a = (Some t, a1)"
    "a_build srcs q cb data a1 (acc @ [t]) = (Some new, a')"
    by (auto split: prod.splits option.splits)
  note n = a_new_task_Some [OF t(1)]
  with Cons.IH [OF t(2)] Cons.prems(2) n show ?case by simp
qed simp_all

lemma a_build_brk: "a_build srcs q cb data a acc = (res, a') \<Longrightarrow> brk a \<le> brk a'"
proof (induction srcs arbitrary: a acc)
  case (Cons src srcs)
  obtain x a1 where x: "a_new_task src q cb data a = (x, a1)" by (cases "a_new_task src q cb data a")
  then have "brk a \<le> brk a1" by (auto simp: a_new_task_def malloc_n_def split: if_splits)
  with Cons x show ?case by (cases x) (auto dest: le_trans)
qed simp

lemma count_inv_alloc:
  assumes "count_inv a" "malloc_n n a = (x, a')"
  shows "count_inv a'" "x \<noteq> NULL" "n_tasks a' = n_tasks a"
proof -
  have "a' = a\<lparr>brk := brk a + max 1 n, calls := Suc (calls a)\<rparr>" "x = brk a"
    using assms by (auto simp: malloc_n_def count_inv_def split: if_splits)
  with assms(1) show "count_inv a'" "x \<noteq> NULL" "n_tasks a' = n_tasks a"
    using count_ok_cong [of a' a] by (auto simp: count_inv_def n_tasks_def)
qed

lemma count_inv_next: "count_inv a \<Longrightarrow> count_inv (a\<lparr>a_next := n\<rparr>)"
  using count_ok_cong [of "a\<lparr>a_next := n\<rparr>" a] by (simp add: count_inv_def)

lemma count_submit:
  assumes "count_inv a" "n_tasks a < 2 ^ 32 - 1" "a_submit q func arg cb data a = Some (v, a')"
  shows "count_inv a' \<and> n_tasks a' \<le> n_tasks a + 1"
proof (cases "func = None \<or> \<not> a_running a")
  case True
  with assms show ?thesis by (auto simp: a_submit_def split: option.splits)
next
  case False
  then obtain fn where fn: "func = Some fn" "a_running a" by auto
  obtain k a1 where 1: "malloc_n 1 a = (k, a1)" by (cases "malloc_n 1 a")
  note c1 = count_inv_alloc [OF assms(1) 1]
  obtain t a2 where 2: "malloc_n 1 a1 = (t, a2)" by (cases "malloc_n 1 a1")
  note c2 = count_inv_alloc [OF c1(1) 2]
  let ?a3 = "a2\<lparr>a_next := a_next a2 + 1\<rparr>"
  have c3: "count_inv ?a3" by (rule count_inv_next [OF c2(1)])
  have t3: "n_tasks ?a3 = n_tasks a" using c1(3) c2(3) by (simp add: n_tasks_def)
  show ?thesis
  proof (cases "a_select ?a3")
    case None
    with assms(3) fn 1 2 c1(2) c2(2) c3 t3 show ?thesis by (simp add: a_submit_def)
  next
    case (Some i)
    obtain n a4 where 4: "malloc_n 1 ?a3 = (n, a4)" by (cases "malloc_n 1 ?a3")
    note c4 = count_inv_alloc [OF c3 4]
    let ?new = "\<lparr>at_id = a_next a2, at_req = q, at_fn = fn, at_arg = arg, at_cb = cb, at_data = data\<rparr>"
    obtain ok a5 where 5: "a_count q 1 i NULL NULL (a_enqueue i [?new] a4) = (ok, a5)"
      by (cases "a_count q 1 i NULL NULL (a_enqueue i [?new] a4)")
    have "a' = a5" using assms(3) fn 1 2 4 5 c1(2) c2(2) c4(2) Some
      by (auto simp: a_submit_def Let_def split: if_splits)
    moreover have a4: "count_ok a4" "\<forall>n. malloc_ok a4 n" "0 < brk a4" "n_tasks a4 + 1 < 2 ^ 32"
      using c4(1,3) t3 assms(2) by (simp_all add: count_inv_def)
    have 6: "a_count q (of_nat (length [?new])) i NULL NULL (a_enqueue i [?new] a4) = (ok, a5)"
      using 5 by simp
    note count_enqueue(2-5) [OF a4(1) a_select_Some(1) [OF Some] _ _ _ a4(2,3) 6]
    ultimately show ?thesis using a4 c4(3) t3 by (simp add: count_inv_def)
  qed
qed

lemma count_batch:
  assumes "count_inv a" "n_tasks a + length ts < 2 ^ 32" "a_batch ts cb data bcb bdata a = (v, a')"
  shows "count_inv a' \<and> n_tasks a' \<le> n_tasks a + length ts"
proof (cases "ts = [] \<or> \<not> a_running a \<or> (\<exists>t \<in> set (tl ts). request_id t \<noteq> request_id (hd ts))")
  case True
  with assms show ?thesis by (auto simp: a_batch_def)
next
  case False
  let ?q = "request_id (hd ts)"
  obtain arr a1 where 1: "malloc_n (length ts) a = (arr, a1)" by (cases "malloc_n (length ts) a")
  note c1 = count_inv_alloc [OF assms(1) 1]
  have b: "a_batch ts cb data bcb bdata a = (case a_select a1 of None \<Rightarrow> (NULL, a1) | Some i \<Rightarrow>
      (case a_build ts ?q cb data a1 [] of
         (None, a2) \<Rightarrow> (NULL, a2)
       | (Some new, a2) \<Rightarrow>
           (arr, snd (a_count ?q (of_nat (length ts)) i bcb bdata
             ((a_enqueue i new a2)\<lparr>a_arrays := (a_arrays a2)(arr \<mapsto> map at_id new)\<rparr>)))))"
    using False 1 c1(2) by (simp add: a_batch_def Let_def)
  show ?thesis
  proof (cases "a_select a1")
    case None
    with b assms(3) c1 show ?thesis by simp
  next
    case (Some i)
    obtain res a2 where 2: "a_build ts ?q cb data a1 [] = (res, a2)"
      by (cases "a_build ts ?q cb data a1 []")
    note k = a_build_keeps [OF 2]
    have f2: "a_queues a2 = a_queues a1" "a_ctx a2 = a_ctx a1" "malloc_ok a2 = malloc_ok a1"
      by (subst k, simp)+
    have br: "brk a1 \<le> brk a2" using a_build_brk [OF 2] .
    have c2: "count_inv a2" "n_tasks a2 = n_tasks a"
      using c1 f2 br count_ok_cong [OF f2(1,2)] by (auto simp: count_inv_def n_tasks_def)
    show ?thesis
    proof (cases res)
      case None
      with b Some 2 assms(3) c2 show ?thesis by simp
    next
      case new: (Some new)
      let ?a3 = "a2\<lparr>a_arrays := (a_arrays a2)(arr \<mapsto> map at_id new)\<rparr>"
      have nw: "\<forall>t \<in> set new. at_req t = ?q" "length new = length ts" "new \<noteq> []"
        using a_build_all [OF 2 [unfolded new]] False by auto
      have eq: "(a_enqueue i new a2)\<lparr>a_arrays := (a_arrays a2)(arr \<mapsto> map at_id new)\<rparr>
          = a_enqueue i new ?a3" by (simp add: a_enqueue_def)
      have c3: "count_ok ?a3" "\<forall>n. malloc_ok ?a3 n" "0 < brk ?a3" "n_tasks ?a3 = n_tasks a"
        using c2 count_ok_cong [of ?a3 a2] by (simp_all add: count_inv_def n_tasks_def)
      obtain ok a4 where 4: "a_count ?q (of_nat (length ts)) i bcb bdata (a_enqueue i new ?a3) = (ok, a4)"
        by (cases "a_count ?q (of_nat (length ts)) i bcb bdata (a_enqueue i new ?a3)")
      have "n_tasks ?a3 + length new < 2 ^ 32" using assms(2) c3(4) nw(2) by simp
      note ce = count_enqueue [OF c3(1) a_select_Some(1) [OF Some] nw(3,1) this c3(2,3) 4 [folded nw(2)]]
      have "a' = a4" using b Some 2 new assms(3) 4 by (simp add: eq)
      with ce c3(2,4) nw(2) show ?thesis by (simp add: count_inv_def)
    qed
  qed
qed

lemma count_cancel:
  assumes "count_inv a" "a_cancel q a = (v, a')"
  shows "count_inv a' \<and> n_tasks a' \<le> n_tasks a"
proof (cases "a_running a \<and> a_ctx a q \<noteq> None")
  case False
  with assms show ?thesis by (auto simp: a_cancel_def split: if_splits)
next
  case True
  then obtain cx where cx: "a_ctx a q = Some cx" by auto
  let ?i = "ac_worker cx" let ?Q = "a_queues a ! ?i"
  let ?n = "length (filter (\<lambda>t. at_req t = q) ?Q)" and ?ys = "filter (\<lambda>t. at_req t \<noteq> q) ?Q"
  let ?a1 = "a\<lparr>a_queues := (a_queues a)[?i := ?ys]\<rparr>"
  have c: "count_ok a" "\<forall>n. malloc_ok a n" "0 < brk a" using assms(1) by (auto simp: count_inv_def)
  have i: "?i < NUM_WORKERS" using count_okD(3) [OF c(1) cx] by simp
  then have il: "?i < length (a_queues a)" using count_okD(1) [OF c(1)] by simp
  have other: "filter (\<lambda>t. at_req t = r) ?ys = filter (\<lambda>t. at_req t = r) ?Q" if "r \<noteq> q" for r
    using that by (auto intro!: filter_cong)
  have "filter (\<lambda>t. at_req t = q) ?ys = []" by (auto simp: filter_empty_conv)
  then have n: "?n + length (filter (\<lambda>t. at_req t = q) ?ys) = ?n" by simp
  note rm = count_remove [OF c(1) i other n cx]
  have t: "n_tasks ?a1 \<le> n_tasks a"
    using length_concat_update [OF il, of ?ys] length_filter_le [of "\<lambda>t. at_req t \<noteq> q" ?Q]
    unfolding n_tasks_def by (simp del: length_filter_le)
  have a': "a' = (if (of_nat ?n :: u32) > 0 then a_set_pending q cx (ac_pending cx - of_nat ?n) ?a1 else ?a1)"
    using assms(2) True cx by (simp add: a_cancel_def Let_def)
  have "?n \<le> queued a q" by (rule queued_remove(2) [OF il other n])
  then have small: "?n < 2 ^ 32"
    using count_okD(3) [OF c(1) cx] unsigned_less [where 'a = nat, of "ac_pending cx"] by simp
  show ?thesis
  proof (cases "?n = 0")
    case True
    then have "?ys = ?Q" by (auto simp: filter_empty_conv filter_id_conv)
    then have "?a1 = a" using list_update_id by simp
    with a' True assms(1) show ?thesis by simp
  next
    case False
    have "unat (of_nat ?n :: u32) = ?n" using small by (simp add: unat_of_nat)
    then have "(of_nat ?n :: u32) > 0" using False by (metis unat_0 word_gt_0)
    with a' rm c t show ?thesis by (simp add: count_inv_def n_tasks_def)
  qed
qed

lemma count_turn:
  assumes "count_inv a" "i < NUM_WORKERS" "a_turn env i (a, s) = Some (a', s')"
  shows "count_inv a' \<and> n_tasks a' \<le> n_tasks a"
proof -
  let ?q = "a_pend a ! i" and ?a1 = "a\<lparr>a_pend := (a_pend a)[i := 0]\<rparr>"
  have keep: "count_inv b \<and> n_tasks b \<le> n_tasks a"
    if "a_queues b = a_queues a" "a_ctx b = a_ctx a" "malloc_ok b = malloc_ok a" "brk b = brk a" for b
    using that assms(1) count_ok_cong [OF that(1,2)] by (simp add: count_inv_def n_tasks_def)
  show ?thesis
  proof (cases "a_states a ! i = WORKER_STATE_INIT \<or> a_states a ! i = WORKER_STATE_EXIT \<or> ?q = 0 \<or>
      List.extract (\<lambda>t. at_req t = ?q) (a_queues a ! i) = None")
    case True
    with assms(3) show ?thesis
      by (intro keep) (auto simp: a_turn_def Let_def split: if_splits)
  next
    case False
    then obtain bs t cs where ex: "List.extract (\<lambda>t. at_req t = ?q) (a_queues a ! i) = Some (bs, t, cs)"
      by auto
    have Q: "a_queues a ! i = bs @ t # cs" "at_req t = ?q" using extract_SomeD [OF ex] by auto
    have c: "count_ok a" "\<forall>n. malloc_ok a n" "0 < brk a" using assms(1) by (auto simp: count_inv_def)
    have il: "i < length (a_queues a)" using count_okD(1) [OF c(1)] assms(2) by simp
    let ?a2 = "?a1\<lparr>a_queues := (a_queues ?a1)[i := bs @ cs]\<rparr>"
    obtain s1 a3 where 1: "a_finish env ?q (?a2, s1) = Some (a3, s')"
      and a': "a' = a3\<lparr>a_states := (a_states a3)[i := WORKER_STATE_IDLE]\<rparr>"
      using assms(3) False ex by (auto simp: a_turn_def Let_def split: if_splits Option.bind_splits)
    have other: "filter (\<lambda>t. at_req t = r) (bs @ cs) = filter (\<lambda>t. at_req t = r) (a_queues a ! i)"
      if "r \<noteq> ?q" for r using that Q by simp
    have n: "1 + length (filter (\<lambda>t. at_req t = ?q) (bs @ cs))
        = length (filter (\<lambda>t. at_req t = ?q) (a_queues a ! i))" using Q by simp
    have "0 < queued a ?q" using queued_remove(2) [OF il other n] by simp
    then obtain cx where cx: "a_ctx a ?q = Some cx" using count_okD(2) [OF c(1), of ?q] by fastforce
    note rm = count_remove [OF c(1) assms(2) other n cx]
    have a3: "a3 = a_set_pending ?q cx (ac_pending cx - 1) ?a2"
      using 1 cx by (auto simp: a_finish_def split: Option.bind_splits)
    have "count_ok a' = count_ok (a_set_pending ?q cx (ac_pending cx - of_nat 1)
        (a\<lparr>a_queues := (a_queues a)[i := bs @ cs]\<rparr>))"
      unfolding a' a3 by (rule count_ok_cong) (simp_all add: a_set_pending_def)
    then have "count_ok a'" using rm by simp
    moreover have "n_tasks a' \<le> n_tasks a"
      using length_concat_update [OF il, of "bs @ cs"] Q by (simp add: n_tasks_def a' a3)
    ultimately show ?thesis using c by (simp add: count_inv_def a' a3)
  qed
qed

lemma count_do:
  assumes "count_inv a" "n_tasks a + weight l < 2 ^ 32" "a_do env l (a, s) = Some (v, a', s')"
  shows "count_inv a' \<and> n_tasks a' \<le> n_tasks a + weight l"
proof (cases l)
  case Start
  with assms(1,3) count_ok_cong [of a' a] show ?thesis
    by (auto simp: a_start_def count_inv_def n_tasks_def split: if_splits)
next
  case (Submit q func arg cb data)
  with assms count_submit [OF assms(1), of q func arg cb data] show ?thesis by auto
next
  case (Batch ts cb data bcb bdata)
  with assms count_batch [OF assms(1), of ts cb data bcb bdata] show ?thesis
    by (auto simp: Let_def split: prod.splits)
next
  case (Cancel q)
  with assms count_cancel [OF assms(1), of q] show ?thesis by (auto simp: Let_def split: prod.splits)
next
  case (Wake q)
  with assms(1,3) count_ok_cong [of a' a] show ?thesis
    by (auto simp: a_wake_def count_inv_def n_tasks_def split: option.splits)
next
  case (Turn i)
  with assms count_turn [OF assms(1), of i env s a' s'] show ?thesis by (auto split: if_splits)
qed

lemma count_run:
  assumes "count_inv a" "n_tasks a + sum_list (map weight ls) < 2 ^ 32"
    "run (a_do env) ls (a, s) = Some (vs, a', s')"
  shows "count_inv a'"
  using assms
proof (induction ls arbitrary: a s vs)
  case (Cons l ls)
  then obtain v a1 s1 us where 1: "a_do env l (a, s) = Some (v, a1, s1)"
    "run (a_do env) ls (a1, s1) = Some (us, a', s')"
    by (auto split: Option.bind_splits)
  with count_do [OF Cons.prems(1) _ 1(1)] Cons.prems(2) have "count_inv a1"
    "n_tasks a1 + sum_list (map weight ls) < 2 ^ 32" by auto
  with Cons.IH 1(2) show ?case by blast
qed simp

lemma count_inv_fresh:
  assumes "no_objects m" "\<And>n. malloc_ok m n"
  shows "count_inv (a_fresh pc I m)"
  using assms ownsD(6) [of m "{}" "{}" "{}" "{}" "dom (id_arrays m)"]
  by (auto simp: count_inv_def count_ok_def a_fresh_def queued_def concat_replicate_Nil no_objects_def)

lemma n_tasks_fresh: "n_tasks (a_fresh pc I m) = 0"
  by (simp add: n_tasks_def a_fresh_def concat_replicate_Nil)

section \<open>The ids of queued tasks\<close>

definition ids_ok :: "apool \<Rightarrow> bool" where
  "ids_ok a \<longleftrightarrow> distinct (map at_id (concat (a_queues a))) \<and>
     (\<forall>t \<in> set (concat (a_queues a)). 0 < at_id t \<and> at_id t < a_next a) \<and> 0 < a_next a"

lemma distinct_submset:
  assumes "mset xs \<subseteq># mset ys" "distinct ys" shows "distinct xs"
proof -
  obtain zs where "mset zs = mset ys - mset xs" using ex_mset by blast
  then have "mset ys = mset (xs @ zs)" using assms(1) by simp
  with assms(2) have "distinct (xs @ zs)" using mset_eq_imp_distinct_iff by blast
  then show ?thesis by simp
qed

lemma ids_ok_sub:
  assumes "ids_ok a" "mset (concat (a_queues a')) \<subseteq># mset (concat (a_queues a))"
    "a_next a \<le> a_next a'"
  shows "ids_ok a'"
proof -
  let ?Q = "a_queues a'"
  have sub: "set (concat ?Q) \<subseteq> set (concat (a_queues a))"
    using set_mset_mono [OF assms(2)] by simp
  have "mset (map at_id (concat ?Q)) \<subseteq># mset (map at_id (concat (a_queues a)))"
    using image_mset_subseteq_mono [OF assms(2), of at_id] by simp
  then have "distinct (map at_id (concat ?Q))"
    using assms(1) distinct_submset unfolding ids_ok_def by blast
  with assms(1,3) sub show ?thesis
    unfolding ids_ok_def by (simp del: set_concat) (meson less_le_trans subsetD)
qed

lemma ids_ok_add:
  assumes a: "ids_ok a" and i: "i < length (a_queues a)"
    and new: "distinct (map at_id new)" "\<forall>t \<in> set new. a_next a \<le> at_id t \<and> at_id t < a_next a'"
    and le: "a_next a \<le> a_next a'"
    and Q: "a_queues a' = (a_queues a)[i := a_queues a ! i @ new]"
  shows "ids_ok a'"
proof -
  have m: "mset (concat (a_queues a')) = mset (concat (a_queues a) @ new)"
    using mset_concat_update [OF i, of "a_queues a ! i @ new"] by (simp add: Q)
  have s: "set (concat (a_queues a')) = set (concat (a_queues a) @ new)"
    by (rule mset_eq_setD [OF m])
  have old: "\<forall>t \<in> set (concat (a_queues a)). 0 < at_id t \<and> at_id t < a_next a" "0 < a_next a"
    "distinct (map at_id (concat (a_queues a)))"
    using a by (auto simp: ids_ok_def simp del: set_concat)
  have "at_id ` set (concat (a_queues a)) \<inter> at_id ` set new = {}"
    using old(1) new(2) by (force simp del: set_concat)
  then have "distinct (map at_id (concat (a_queues a) @ new))"
    using old(3) new(1) by simp
  then have "distinct (map at_id (concat (a_queues a')))"
    using mset_eq_distinct_map [OF m, of at_id] by simp
  moreover have "0 < at_id t \<and> at_id t < a_next a'" if "t \<in> set (concat (a_queues a'))" for t
  proof (cases "t \<in> set new")
    case True
    with new(2) old(2) show ?thesis by (meson less_le_trans)
  next
    case False
    with that have "t \<in> set (concat (a_queues a))" unfolding s by simp
    with old(1) le show ?thesis by (meson less_le_trans)
  qed
  ultimately show ?thesis
    using old(2) le unfolding ids_ok_def by (auto simp del: set_concat)
qed

text \<open>The ids of a batch are consecutive.\<close>

lemma a_build_ids:
  assumes "a_build srcs q cb data a acc = (Some new, a')"
  shows "map at_id new = map at_id acc @ map (\<lambda>j. a_next a + of_nat j) [0..<length srcs]"
    and "a_next a' = a_next a + of_nat (length srcs)"
proof -
  have "map at_id new = map at_id acc @ map (\<lambda>j. a_next a + of_nat j) [0..<length srcs] \<and>
      a_next a' = a_next a + of_nat (length srcs)"
    using assms
  proof (induction srcs arbitrary: a acc)
    case (Cons src srcs)
    from Cons.prems obtain t a1 where t: "a_new_task src q cb data a = (Some t, a1)"
      "a_build srcs q cb data a1 (acc @ [t]) = (Some new, a')"
      by (auto split: prod.splits option.splits)
    have "map (\<lambda>j. a_next a + of_nat j) [0..<length (src # srcs)]
        = a_next a # map (\<lambda>j. a_next a + 1 + of_nat j) [0..<length srcs]"
      by (simp add: upt_conv_Cons map_Suc_upt [symmetric] comp_def algebra_simps del: upt_Suc)
    with Cons.IH [OF t(2)] a_new_task_Some(6,7) [OF t(1)] show ?case by (simp add: algebra_simps)
  qed simp
  then show "map at_id new = map at_id acc @ map (\<lambda>j. a_next a + of_nat j) [0..<length srcs]"
    and "a_next a' = a_next a + of_nat (length srcs)" by blast+
qed

lemma a_new_task_next:
  assumes "a_new_task src q cb data a = (x, a')"
  shows "a_next a' = a_next a \<or> a_next a' = a_next a + 1"
  using assms by (auto simp: a_new_task_def malloc_n_def split: if_splits)

lemma unat_add_small:
  fixes x :: "'a::len word"
  assumes "unat x + n < 2 ^ LENGTH('a)"
  shows "unat (x + of_nat n) = unat x + n"
proof -
  have n: "unat (of_nat n :: 'a word) = n" using assms by (simp add: unat_of_nat)
  then have "unat x + unat (of_nat n :: 'a word) < 2 ^ LENGTH('a)" using assms by simp
  from iffD1 [OF unat_add_lem this] n show ?thesis by simp
qed

lemma a_build_next:
  assumes "a_build srcs q cb data a acc = (res, a')" "unat (a_next a) + length srcs < 2 ^ 64"
  shows "unat (a_next a) \<le> unat (a_next a') \<and> unat (a_next a') \<le> unat (a_next a) + length srcs"
  using assms
proof (induction srcs arbitrary: a acc)
  case (Cons src srcs)
  obtain x a1 where x: "a_new_task src q cb data a = (x, a1)" by (cases "a_new_task src q cb data a")
  have "unat (a_next a + 1) = unat (a_next a) + 1"
    using unat_add_small [of "a_next a" 1] Cons.prems(2) by simp
  with a_new_task_next [OF x] have n: "unat (a_next a) \<le> unat (a_next a1)"
    "unat (a_next a1) \<le> unat (a_next a) + 1" by auto
  show ?case
  proof (cases x)
    case None
    with Cons.prems(1) x n show ?thesis by simp
  next
    case (Some t)
    with Cons.prems(1) x have "a_build srcs q cb data a1 (acc @ [t]) = (res, a')" by simp
    from Cons.IH [OF this] Cons.prems(2) n show ?thesis by simp
  qed
qed simp

section \<open>What a submission does\<close>

definition new_atask :: "u64 \<Rightarrow> u32 \<Rightarrow> task_fn \<Rightarrow> ptr \<Rightarrow> ptr \<Rightarrow> ptr \<Rightarrow> atask" where
  "new_atask n q fn arg cb data =
     \<lparr>at_id = n, at_req = q, at_fn = fn, at_arg = arg, at_cb = cb, at_data = data\<rparr>"

text \<open>What submissions, wake-ups and cancellations leave alone.\<close>

definition same_rest :: "apool \<Rightarrow> apool \<Rightarrow> bool" where
  "same_rest a a' \<longleftrightarrow> a_states a' = a_states a \<and> a_tids a' = a_tids a \<and> a_pend a' = a_pend a \<and>
     a_running a' = a_running a \<and> a_destroying a' = a_destroying a"

lemma malloc_keeps:
  assumes "malloc_n n a = (x, a')"
  shows "same_rest a a'" "a_queues a' = a_queues a" "a_next a' = a_next a" "a_states a' = a_states a"
    "a_ctx a' = a_ctx a" "a_arrays a' = a_arrays a" "a_running a' = a_running a"
    "a_pend a' = a_pend a" "a_destroying a' = a_destroying a" "malloc_ok a' = malloc_ok a"
    "a_tids a' = a_tids a"
  using assms by (auto simp: malloc_n_def same_rest_def split: if_splits)

lemma a_count_keeps:
  assumes "a_count q n i cb data a = (ok, a')"
  shows "a_queues a' = a_queues a" "a_next a' = a_next a" "a_states a' = a_states a"
    "a_arrays a' = a_arrays a" "a_running a' = a_running a" "a_pend a' = a_pend a"
    "a_destroying a' = a_destroying a" "a_tids a' = a_tids a"
  using assms by (auto simp: a_count_def malloc_n_def split: option.splits if_splits)

lemma a_submit_cases:
  assumes "a_submit q func arg cb data a = Some (v, a')"
  obtains (no) "v = 0" "a_queues a' = a_queues a" "a_next a' \<in> {a_next a, a_next a + 1}"
      "a_ctx a' = a_ctx a" "same_rest a a'"
  | (yes) fn i where "v = a_next a" "func = Some fn" "a_running a" "a_select a = Some i"
      "a_queues a' = (a_queues a)[i := a_queues a ! i @ [new_atask (a_next a) q fn arg cb data]]"
      "a_next a' = a_next a + 1" "same_rest a a'"
proof (cases "func = None \<or> \<not> a_running a")
  case True
  with assms show thesis
    by (intro no) (auto simp: a_submit_def same_rest_def split: option.splits)
next
  case False
  then obtain fn where fn: "func = Some fn" "a_running a" by auto
  obtain k a1 where 1: "malloc_n 1 a = (k, a1)" by (cases "malloc_n 1 a")
  obtain t a2 where 2: "malloc_n 1 a1 = (t, a2)" by (cases "malloc_n 1 a1")
  let ?a3 = "a2\<lparr>a_next := a_next a2 + 1\<rparr>"
  obtain n a4 where 4: "malloc_n 1 ?a3 = (n, a4)" by (cases "malloc_n 1 ?a3")
  note k = malloc_keeps [OF 1] malloc_keeps [OF 2] malloc_keeps [OF 4]
  have sel: "a_select ?a3 = a_select a" by (rule a_select_cong) (simp_all add: k)
  show thesis
  proof (cases "k = NULL \<or> t = NULL \<or> a_select a = None \<or> n = NULL")
    case True
    then have "(v, a') \<in> {(0, a1), (0, a2), (0, ?a3), (0, a4)}"
      using assms fn 1 2 4 sel by (auto simp: a_submit_def Let_def split: if_splits option.splits)
    with k show thesis by (intro no) (auto simp: same_rest_def)
  next
    case False
    then obtain i where i: "a_select a = Some i" by auto
    let ?new = "\<lparr>at_id = a_next a2, at_req = q, at_fn = fn, at_arg = arg, at_cb = cb, at_data = data\<rparr>"
    obtain ok a5 where 5: "a_count q 1 i NULL NULL (a_enqueue i [?new] a4) = (ok, a5)"
      by (cases "a_count q 1 i NULL NULL (a_enqueue i [?new] a4)")
    have "a' = a5" "v = a_next a2"
      using assms fn 1 2 4 5 False i sel by (auto simp: a_submit_def Let_def split: if_splits)
    with a_count_keeps [OF 5] k fn i show thesis
      by (intro yes) (auto simp: a_enqueue_def new_atask_def same_rest_def)
  qed
qed

text \<open>The tasks of a batch, from the array the application passes.\<close>

definition batch_tasks :: "ThreadPoolTask list \<Rightarrow> u64 \<Rightarrow> ptr \<Rightarrow> ptr \<Rightarrow> atask list" where
  "batch_tasks ts n cb data =
     map (\<lambda>j. new_atask (n + of_nat j) (request_id (hd ts)) (task_func (ts ! j)) (task_arg (ts ! j))
       cb data) [0..<length ts]"

lemma a_build_result:
  assumes "a_build srcs q cb data a acc = (Some new, a')"
  shows "new = acc @ map (\<lambda>j. new_atask (a_next a + of_nat j) q (task_func (srcs ! j))
    (task_arg (srcs ! j)) cb data) [0..<length srcs]"
  using assms
proof (induction srcs arbitrary: a acc)
  case (Cons src srcs)
  from Cons.prems obtain t a1 where t: "a_new_task src q cb data a = (Some t, a1)"
    "a_build srcs q cb data a1 (acc @ [t]) = (Some new, a')"
    by (auto split: prod.splits option.splits)
  note s = a_new_task_Some [OF t(1)]
  have "t = new_atask (a_next a) q (task_func src) (task_arg src) cb data"
    using s by (simp add: new_atask_def)
  moreover have "[0..<length (src # srcs)] = 0 # map Suc [0..<length srcs]"
    by (simp add: upt_conv_Cons map_Suc_upt del: upt_Suc)
  ultimately show ?case using Cons.IH [OF t(2)] s(7) by (simp add: comp_def algebra_simps)
qed simp

lemma a_batch_cases:
  assumes "a_batch ts cb data bcb bdata a = (v, a')"
  obtains (no) "v = NULL" "a_queues a' = a_queues a" "a_ctx a' = a_ctx a" "a_arrays a' = a_arrays a"
      "same_rest a a'"
      "unat (a_next a) + length ts < 2 ^ 64 \<Longrightarrow>
        unat (a_next a) \<le> unat (a_next a') \<and> unat (a_next a') \<le> unat (a_next a) + length ts"
  | (yes) i where "a_running a" "ts \<noteq> []" "\<forall>t \<in> set ts. request_id t = request_id (hd ts)"
      "v \<noteq> NULL" "a_select a = Some i"
      "a_queues a' = (a_queues a)[i := a_queues a ! i @ batch_tasks ts (a_next a) cb data]"
      "a_next a' = a_next a + of_nat (length ts)"
      "a_arrays a' = (a_arrays a)(v \<mapsto> map at_id (batch_tasks ts (a_next a) cb data))"
      "same_rest a a'"
proof (cases "ts = [] \<or> \<not> a_running a \<or> (\<exists>t \<in> set (tl ts). request_id t \<noteq> request_id (hd ts))")
  case True
  with assms show thesis by (intro no) (auto simp: a_batch_def same_rest_def)
next
  case False
  let ?q = "request_id (hd ts)"
  have same: "\<forall>t \<in> set ts. request_id t = ?q" using False by (cases ts) auto
  obtain arr a1 where 1: "malloc_n (length ts) a = (arr, a1)" by (cases "malloc_n (length ts) a")
  note k1 = malloc_keeps [OF 1]
  have sel: "a_select a1 = a_select a" by (rule a_select_cong) (simp_all add: k1)
  obtain res a2 where 2: "a_build ts ?q cb data a1 [] = (res, a2)"
    by (cases "a_build ts ?q cb data a1 []")
  have k2: "a_queues a2 = a_queues a" "a_ctx a2 = a_ctx a" "a_arrays a2 = a_arrays a"
    "same_rest a a2" "same_rest a a1"
    using k1 by (subst a_build_keeps [OF 2], simp add: same_rest_def)+ (simp add: k1)
  show thesis
  proof (cases "arr = NULL \<or> a_select a = None \<or> res = None")
    case True
    have "(v, a') \<in> {(NULL, a1), (NULL, a2)}"
      using True assms False 1 2 sel
      by (auto simp: a_batch_def Let_def split: option.splits if_splits)
    then show thesis using k1 k2 a_build_next [OF 2] by (intro no) auto
  next
    case ok: False
    then obtain i new where i: "a_select a = Some i" and new: "res = Some new" by auto
    have "new = batch_tasks ts (a_next a) cb data"
      using a_build_result [OF 2 [unfolded new]] k1 by (simp add: batch_tasks_def)
    moreover have "a_next a2 = a_next a + of_nat (length ts)"
      using a_build_ids(2) [OF 2 [unfolded new]] k1 by simp
    moreover obtain ok a4 where 4: "a_count ?q (of_nat (length ts)) i bcb bdata
        ((a_enqueue i new a2)\<lparr>a_arrays := (a_arrays a2)(arr \<mapsto> map at_id new)\<rparr>) = (ok, a4)"
      by (cases "a_count ?q (of_nat (length ts)) i bcb bdata
        ((a_enqueue i new a2)\<lparr>a_arrays := (a_arrays a2)(arr \<mapsto> map at_id new)\<rparr>)")
    moreover have "v = arr" "a' = a4"
      using assms False ok 1 2 4 sel i new by (auto simp: a_batch_def Let_def)
    moreover note a_count_keeps [OF 4]
    ultimately have "a_queues a' = (a_queues a)[i := a_queues a ! i @ batch_tasks ts (a_next a) cb data]"
      "a_next a' = a_next a + of_nat (length ts)"
      "a_arrays a' = (a_arrays a)(v \<mapsto> map at_id (batch_tasks ts (a_next a) cb data))" "v = arr"
      "same_rest a a'"
      using k2 by (simp_all add: a_enqueue_def same_rest_def)
    with ok False show thesis by (intro yes [OF _ _ same _ i]) simp_all
  qed
qed

lemma a_batch_address:
  assumes "a_batch ts cb data bcb bdata a = (v, a')" "v \<noteq> NULL"
  shows "v = brk a"
  using assms by (auto simp: a_batch_def malloc_n_def Let_def split: if_splits option.splits prod.splits)

lemma batch_tasks_ids: "map at_id (batch_tasks ts n cb data) = map (\<lambda>j. n + of_nat j) [0..<length ts]"
  by (simp add: batch_tasks_def new_atask_def)

section \<open>Ids along a run\<close>

definition ids_inv :: "apool \<Rightarrow> bool" where
  "ids_inv a \<longleftrightarrow> ids_ok a \<and> length (a_queues a) = NUM_WORKERS"

lemma mset_concat_sub:
  assumes "mset ys \<subseteq># mset (xss ! i)"
  shows "mset (concat (xss[i := ys])) \<subseteq># mset (concat xss)"
proof (cases "i < length xss")
  case True
  show ?thesis
    using concat_split(1) [OF True] concat_split(2) [OF True, of ys] assms
    by (simp add: subset_mset.add_mono)
qed (simp add: list_update_beyond)

lemma ids_inv_sub:
  assumes "ids_inv a" "a_queues a' = (a_queues a)[i := ys]" "mset ys \<subseteq># mset (a_queues a ! i)"
    "a_next a' = a_next a"
  shows "ids_inv a'"
  using assms ids_ok_sub [of a a'] mset_concat_sub [OF assms(3)] by (simp add: ids_inv_def)

lemma ids_inv_same:
  "ids_inv a \<Longrightarrow> a_queues a' = a_queues a \<Longrightarrow> a_next a \<le> a_next a' \<Longrightarrow> ids_inv a'"
  using ids_ok_sub [of a a'] by (simp add: ids_inv_def)

lemma a_turn_queues:
  assumes "a_turn env i (a, s) = Some (a', s')"
  shows "(a_queues a' = a_queues a \<or>
      (\<exists>bs t cs. a_queues a ! i = bs @ t # cs \<and> a_queues a' = (a_queues a)[i := bs @ cs])) \<and>
    a_next a' = a_next a"
proof (cases "List.extract (\<lambda>t. at_req t = a_pend a ! i) (a_queues a ! i)")
  case None
  with assms show ?thesis by (auto simp: a_turn_def Let_def split: if_splits)
next
  case (Some x)
  obtain bs t cs where x: "x = (bs, t, cs)" by (cases x)
  with Some have Q: "a_queues a ! i = bs @ t # cs" by (auto dest: extract_SomeD)
  have "a_queues a' \<in> {a_queues a, (a_queues a)[i := bs @ cs]} \<and> a_next a' = a_next a"
    using assms Some x
    by (auto simp: a_turn_def a_finish_def Let_def split: if_splits option.splits Option.bind_splits)
  with Q show ?thesis by blast
qed

lemma ids_do:
  assumes "ids_inv a" "unat (a_next a) + weight l < 2 ^ 64" "a_do env l (a, s) = Some (v, a', s')"
  shows "ids_inv a' \<and> unat (a_next a') \<le> unat (a_next a) + weight l"
proof (cases l)
  case Start
  with assms(1,3) ids_inv_same [OF assms(1), of a'] show ?thesis by (auto simp: a_start_def split: if_splits)
next
  case (Submit q func arg cb data)
  then obtain u where sub: "a_submit q func arg cb data a = Some (u, a')" using assms(3) by auto
  have n: "unat (a_next a + 1) = unat (a_next a) + 1"
    using unat_add_small [of "a_next a" 1] assms(2) Submit by simp
  then have le: "a_next a \<le> a_next a + 1" "a_next a < a_next a + 1"
    by (simp_all add: word_le_nat_alt word_less_nat_alt)
  from sub show ?thesis
  proof (cases rule: a_submit_cases)
    case no
    with ids_inv_same [OF assms(1), of a'] n le Submit show ?thesis by auto
  next
    case (yes fn i)
    have il: "i < length (a_queues a)"
      using a_select_Some(1) [OF yes(4)] assms(1) by (simp add: ids_inv_def)
    have "ids_ok a'"
    proof (rule ids_ok_add [OF _ il _ _ _ yes(5)])
      show "ids_ok a" using assms(1) by (simp add: ids_inv_def)
      show "a_next a \<le> a_next a'" unfolding yes(6) by (rule le(1))
      show "\<forall>t \<in> set [new_atask (a_next a) q fn arg cb data]. a_next a \<le> at_id t \<and> at_id t < a_next a'"
        unfolding yes(6) using le(2) by (simp add: new_atask_def del: less_eq_word_def)
    qed simp
    with yes(5,6) n assms(1) Submit show ?thesis by (simp add: ids_inv_def)
  qed
next
  case (Batch ts cb data bcb bdata)
  then have bd: "unat (a_next a) + length ts < 2 ^ 64" using assms(2) by simp
  obtain u where "a_batch ts cb data bcb bdata a = (u, a')"
    using assms(3) Batch by (auto simp: Let_def split: prod.splits)
  then show ?thesis
  proof (cases rule: a_batch_cases)
    case no
    with ids_inv_same [OF assms(1), of a'] bd Batch show ?thesis by (simp add: word_le_nat_alt)
  next
    case (yes i)
    have u: "unat (a_next a + of_nat j) = unat (a_next a) + j" if "j \<le> length ts" for j
      using unat_add_small [of "a_next a" j] bd that by simp
    have il: "i < length (a_queues a)"
      using a_select_Some(1) [OF yes(5)] assms(1) by (simp add: ids_inv_def)
    have "inj_on (\<lambda>j. a_next a + of_nat j) (set [0..<length ts])"
    proof (rule inj_onI)
      fix j k assume jk: "j \<in> set [0..<length ts]" "k \<in> set [0..<length ts]"
        "a_next a + of_nat j = a_next a + of_nat k"
      have "unat (a_next a) + j = unat (a_next a + of_nat j)" using jk(1) by (intro u [symmetric]) simp
      also have "\<dots> = unat (a_next a) + k" unfolding jk(3) using jk(2) by (intro u) simp
      finally show "j = k" by simp
    qed
    then have d: "distinct (map at_id (batch_tasks ts (a_next a) cb data))"
      unfolding batch_tasks_ids by (simp add: distinct_map)
    have "a_next a \<le> a_next a + of_nat j \<and> a_next a + of_nat j < a_next a'" if "j < length ts" for j
      unfolding yes(7) word_le_nat_alt word_less_nat_alt using u [of j] u [of "length ts"] that by simp
    then have r: "\<forall>t \<in> set (batch_tasks ts (a_next a) cb data). a_next a \<le> at_id t \<and> at_id t < a_next a'"
      by (auto simp: batch_tasks_def new_atask_def)
    have le: "a_next a \<le> a_next a'"
      unfolding yes(7) word_le_nat_alt using u [of "length ts"] by simp
    have "ids_ok a" using assms(1) by (simp add: ids_inv_def)
    from ids_ok_add [OF this il d r le yes(6)] have "ids_ok a'" .
    moreover have "unat (a_next a') = unat (a_next a) + length ts"
      unfolding yes(7) by (rule u) simp
    moreover have "length (a_queues a') = NUM_WORKERS"
      unfolding yes(6) using assms(1) by (simp add: ids_inv_def)
    ultimately show ?thesis by (simp add: ids_inv_def Batch)
  qed
next
  case (Cancel q)
  then have "a_queues a' = a_queues a \<or>
      (\<exists>i. a_queues a' = (a_queues a)[i := filter (\<lambda>t. at_req t \<noteq> q) (a_queues a ! i)])"
    and n: "a_next a' = a_next a"
    using assms(3) by (auto simp: a_cancel_def Let_def split: if_splits option.splits)
  with ids_inv_same [OF assms(1), of a'] ids_inv_sub [OF assms(1), of a']
  show ?thesis by (auto simp: multiset_filter_subset)
next
  case (Wake q)
  with assms(1,3) ids_inv_same [OF assms(1), of a'] show ?thesis
    by (auto simp: a_wake_def split: option.splits)
next
  case (Turn i)
  show ?thesis
  proof (cases "i < NUM_WORKERS")
    case True
    with Turn assms(3) have t: "a_turn env i (a, s) = Some (a', s')" by auto
    from a_turn_queues [OF t] ids_inv_same [OF assms(1), of a'] ids_inv_sub [OF assms(1), of a' i]
    show ?thesis by auto
  qed (use Turn assms in simp)
qed

lemma ids_run:
  assumes "ids_inv a" "unat (a_next a) + sum_list (map weight ls) < 2 ^ 64"
    "run (a_do env) ls (a, s) = Some (vs, a', s')"
  shows "ids_inv a'"
  using assms
proof (induction ls arbitrary: a s vs)
  case (Cons l ls)
  then obtain v a1 s1 us where 1: "a_do env l (a, s) = Some (v, a1, s1)"
    "run (a_do env) ls (a1, s1) = Some (us, a', s')"
    by (auto split: Option.bind_splits)
  with ids_do [OF Cons.prems(1) _ 1(1)] Cons.prems(2) have "ids_inv a1"
    "unat (a_next a1) + sum_list (map weight ls) < 2 ^ 64" by auto
  with Cons.IH 1(2) show ?case by blast
qed simp

lemma ids_inv_fresh: "ids_inv (a_fresh pc I m)"
  by (simp add: ids_inv_def ids_ok_def a_fresh_def concat_replicate_Nil)

end
