(* ===== verification/PoolFacts.thy ===== *)
theory PoolFacts
  imports PoolInv
begin

text \<open>
  Facts about runs of the abstract pool that the properties rest on: runs of a total
  environment are defined, workers stay joinable, what a wake-up followed by a turn does, and
  how a batch is worked off.
\<close>

section \<open>Runs are defined\<close>

text \<open>An environment whose functions and callbacks return.\<close>

definition total_env :: "'w env \<Rightarrow> bool" where
  "total_env env \<longleftrightarrow> (\<forall>fn arg s. exec env fn arg s \<noteq> None) \<and>
     (\<forall>cb n ok data s. callback env cb n ok data s \<noteq> None)"

lemma call_cb_total: "total_env env \<Longrightarrow> \<exists>s'. call_cb env cb n ok data s = Some s'"
  by (auto simp: total_env_def call_cb_def)

lemma a_run_task_total:
  assumes "total_env env" shows "\<exists>s'. a_run_task env t s = Some s'"
proof -
  obtain x s1 where "exec env (at_fn t) (at_arg t) s = Some (x, s1)"
    using assms unfolding total_env_def by fastforce
  with call_cb_total [OF assms, of "at_cb t" "at_id t" True "at_data t" s1] show ?thesis
    by (simp add: a_run_task_def)
qed

lemma a_turn_total:
  assumes "total_env env" shows "\<exists>x. a_turn env i (a, s) = Some x"
proof -
  have fin: "\<exists>x. a_finish env q (b, s1) = Some x" for q b s1
  proof (cases "a_ctx b q")
    case (Some c)
    with call_cb_total [OF assms, of "ac_cb c" 0 True "ac_data c" s1] show ?thesis
      by (auto simp: a_finish_def)
  qed (simp add: a_finish_def)
  show ?thesis
  proof (cases "List.extract (\<lambda>t. at_req t = a_pend a ! i) (a_queues a ! i)")
    case (Some x)
    obtain bs t cs where x: "x = (bs, t, cs)" by (cases x)
    obtain s1 where s1: "a_run_task env t s = Some s1" using a_run_task_total [OF assms] by blast
    let ?b = "a\<lparr>a_pend := (a_pend a)[i := 0], a_queues := (a_queues a)[i := bs @ cs]\<rparr>"
    obtain b2 s2 where "a_finish env (a_pend a ! i) (?b, s1) = Some (b2, s2)"
      using fin [of "a_pend a ! i" ?b s1] by auto
    with Some x s1 show ?thesis by (simp add: a_turn_def Let_def)
  qed (simp add: a_turn_def Let_def)
qed

lemma a_submit_total: "count_inv a \<Longrightarrow> \<exists>x. a_submit q func arg cb data a = Some x"
  by (auto simp: a_submit_def a_count_def a_enqueue_def malloc_n_def count_inv_def Let_def
      split: option.splits)

lemma a_do_total:
  assumes "count_inv a" "total_env env" shows "\<exists>x. a_do env l (a, s) = Some x"
proof (cases l)
  case (Submit q func arg cb data)
  with a_submit_total [OF assms(1), of q func arg cb data] show ?thesis by auto
next
  case (Turn i)
  with a_turn_total [OF assms(2), of i a s] show ?thesis by auto
qed (auto simp: Let_def split: prod.splits)

lemma a_run_total:
  assumes "count_inv a" "total_env env" "n_tasks a + sum_list (map weight ls) < 2 ^ 32"
  shows "\<exists>x. run (a_do env) ls (a, s) = Some x"
  using assms(1,3)
proof (induction ls arbitrary: a s)
  case (Cons l ls)
  obtain v a1 s1 where 1: "a_do env l (a, s) = Some (v, a1, s1)"
    using a_do_total [OF Cons.prems(1) assms(2), of l s] by auto
  with count_do [OF Cons.prems(1) _ 1] Cons.prems(2) have "count_inv a1"
    "n_tasks a1 + sum_list (map weight ls) < 2 ^ 32" by auto
  from Cons.IH [OF this, of s1] 1 show ?case by auto
qed simp

section \<open>Workers stay joinable\<close>

lemma joinable_fresh:
  "(\<And>i. i \<in> I \<Longrightarrow> i < NUM_WORKERS \<Longrightarrow> snd (pc i) \<noteq> 0) \<Longrightarrow> joinable (a_fresh pc I m)"
  by (auto simp: joinable_def a_fresh_def)

lemma joinable_turn:
  assumes "joinable a" "a_turn env i (a, s) = Some (a', s')" "i < length (a_states a)"
  shows "joinable a'"
proof -
  have "a_states a' ! j = WORKER_STATE_INIT \<longleftrightarrow> a_states a ! j = WORKER_STATE_INIT" for j
  proof (cases "j = i")
    case True
    with assms(2,3) show ?thesis
      by (auto simp: a_turn_def a_finish_def a_set_pending_def Let_def
          split: if_splits option.splits Option.bind_splits)
  qed (use a_turn_keeps(4) [OF assms(2)] in simp)
  with assms(1) a_turn_keeps(2) [OF assms(2)] show ?thesis by (simp add: joinable_def)
qed

lemma joinable_cong:
  "a_states a' = a_states a \<Longrightarrow> a_tids a' = a_tids a \<Longrightarrow> joinable a' = joinable a"
  by (simp add: joinable_def)

lemma joinable_do:
  assumes "joinable a" "length (a_states a) = NUM_WORKERS" "a_do env l (a, s) = Some (v, a', s')"
  shows "joinable a' \<and> length (a_states a') = NUM_WORKERS"
proof -
  have same: ?thesis if "same_rest a a'"
    using that assms(1,2) joinable_cong [of a' a] by (simp add: same_rest_def)
  show ?thesis
  proof (cases l)
    case (Submit q func arg cb data)
    then obtain u where "a_submit q func arg cb data a = Some (u, a')" using assms(3) by auto
    then show ?thesis by (cases rule: a_submit_cases) (simp_all add: same)
  next
    case (Batch ts cb data bcb bdata)
    then obtain u where "a_batch ts cb data bcb bdata a = (u, a')"
      using assms(3) by (auto simp: Let_def split: prod.splits)
    then show ?thesis by (cases rule: a_batch_cases) (simp_all add: same)
  next
    case (Turn i)
    with assms joinable_turn [OF assms(1), of env i s a' s'] a_turn_keeps(5) [of env i a s a' s']
    show ?thesis by (auto split: if_splits)
  next
    case (Wake q)
    with assms joinable_cong [of a' a] show ?thesis
      by (auto simp: a_wake_def Let_def split: option.splits)
  next
    case (Cancel q)
    with assms joinable_cong [of a' a] show ?thesis
      by (auto simp: a_cancel_def a_set_pending_def Let_def split: option.splits if_splits)
  next
    case Start
    with assms joinable_cong [of a' a] show ?thesis by (auto simp: a_start_def split: if_splits)
  qed
qed

definition all_joinable :: "apool \<times> 'w \<Rightarrow> bool" where
  "all_joinable as \<longleftrightarrow> joinable (fst as) \<and> length (a_states (fst as)) = NUM_WORKERS"

interpretation pool_inv: invariant_simulation "pool_do env" "a_do env" state_rel all_joinable for env
proof
  fix l as as' v and env :: "'w env"
  assume "all_joinable as" "a_do env l as = Some (v, as')"
  then show "all_joinable as'"
    using joinable_do [of "fst as" env l "snd as" v "fst as'" "snd as'"] by (simp add: all_joinable_def)
qed

lemma joinable_run:
  assumes "joinable a" "length (a_states a) = NUM_WORKERS"
    "run (a_do env) ls (a, s) = Some (vs, a', s')"
  shows "joinable a'"
  using pool_inv.abstract_run_inv [of "(a, s)" env ls vs "(a', s')"] assms by (simp add: all_joinable_def)

lemma a_join_total:
  assumes "total_env env" shows "\<exists>x. a_join env i as = Some x"
  using a_turn_total [OF assms, of i "fst as" "snd as"] by (auto simp: a_join_def)

lemma a_join_loop_total:
  assumes "total_env env" shows "\<exists>x. a_join_loop env is as = Some x"
proof (induction "is" arbitrary: as)
  case (Cons i "is")
  obtain as1 where "(if a_tids (fst as) ! i \<noteq> 0 then a_join env i as else Some as) = Some as1"
    using a_join_total [OF assms, of i as] by (cases "a_tids (fst as) ! i = 0") auto
  with Cons.IH [of as1] show ?case by simp
qed simp

section \<open>Working off the tasks of a request\<close>

fun a_run_tasks :: "'w env \<Rightarrow> atask list \<Rightarrow> 'w \<Rightarrow> 'w option" where
  "a_run_tasks env [] s = Some s"
| "a_run_tasks env (t # ts) s = do { s1 \<leftarrow> a_run_task env t s; a_run_tasks env ts s1 }"

text \<open>A wake-up and a turn of the request's worker run the first queued task of the request.\<close>

lemma wake_turn:
  assumes c: "a_ctx a q = Some c" "ac_worker c = i" and i: "i < NUM_WORKERS"
    and len: "length (a_pend a) = NUM_WORKERS" "length (a_states a) = NUM_WORKERS"
    and st: "a_states a ! i = WORKER_STATE_IDLE" and q: "q \<noteq> 0"
    and ex: "List.extract (\<lambda>t. at_req t = q) (a_queues a ! i) = Some (bs, t, cs)"
    and run: "a_run_task env t s = Some s1"
    and cb: "(if ac_pending c - 1 = 0 then call_cb env (ac_cb c) 0 True (ac_data c) s1 else Some s1) = Some s2"
  shows "run (a_do env) [Wake q, Turn i] (a, s) = Some ([Int_val 0, Turn_done],
    a_set_pending q c (ac_pending c - 1)
      (a\<lparr>a_queues := (a_queues a)[i := bs @ cs], a_pend := (a_pend a)[i := 0]\<rparr>), s2)"
proof -
  let ?a1 = "a\<lparr>a_pend := (a_pend a)[i := q]\<rparr>"
  have w: "a_do env (Wake q) (a, s) = Some (Int_val 0, ?a1, s)" using c by (simp add: a_wake_def)
  have p: "a_pend ?a1 ! i = q" "a_states ?a1 ! i = WORKER_STATE_IDLE" using i len st by simp_all
  have id: "(a_states a)[i := WORKER_STATE_IDLE] = a_states a"
    using list_update_id [of "a_states a" i] st by simp
  have "a_turn env i (?a1, s) = Some (a_set_pending q c (ac_pending c - 1)
      (a\<lparr>a_queues := (a_queues a)[i := bs @ cs], a_pend := (a_pend a)[i := 0]\<rparr>), s2)"
    using p q ex run cb c id
    by (simp add: a_turn_def a_finish_def Let_def a_set_pending_def split: if_splits)
  with w i show ?thesis by simp
qed

lemma a_run_tasks_snoc:
  "a_run_tasks env (ts @ [t]) s = do { s1 \<leftarrow> a_run_tasks env ts s; a_run_task env t s1 }"
  by (induction ts arbitrary: s) (auto split: Option.bind_splits)

text \<open>The pool after j rounds of a wake-up and a turn, of which each ran one task of ts.\<close>

definition after_rounds :: "u32 \<Rightarrow> nat \<Rightarrow> actx \<Rightarrow> atask list \<Rightarrow> nat \<Rightarrow> apool \<Rightarrow> apool" where
  "after_rounds q i c ts j a =
     (if j = 0 then a
      else a\<lparr>a_queues := (a_queues a)[i := drop j ts], a_pend := (a_pend a)[i := 0],
        a_ctx := (a_ctx a)(q := if j = length ts then None
          else Some (c\<lparr>ac_pending := ac_pending c - of_nat j\<rparr>))\<rparr>)"

lemma rounds:
  assumes c: "a_ctx a q = Some c" "ac_worker c = i" and i: "i < NUM_WORKERS"
    and len: "length (a_pend a) = NUM_WORKERS" "length (a_states a) = NUM_WORKERS"
      "length (a_queues a) = NUM_WORKERS"
    and st: "a_states a ! i = WORKER_STATE_IDLE" and q: "q \<noteq> 0"
    and ts: "a_queues a ! i = ts" "\<forall>t \<in> set ts. at_req t = q" "unat (ac_pending c) = length ts"
    and j: "j \<le> length ts"
    and run: "a_run_tasks env (take j ts) s = Some s1"
    and cb: "(if 0 < j \<and> j = length ts then call_cb env (ac_cb c) 0 True (ac_data c) s1 else Some s1) = Some s2"
  shows "\<exists>vs. run (a_do env) (concat (replicate j [Wake q, Turn i])) (a, s)
    = Some (vs, after_rounds q i c ts j a, s2)"
  using j run cb
proof (induction j arbitrary: s1 s2)
  case 0
  then show ?case by (simp add: after_rounds_def)
next
  case (Suc j)
  let ?a = "after_rounds q i c ts j a" and ?c = "c\<lparr>ac_pending := ac_pending c - of_nat j\<rparr>"
  have jl: "j < length ts" using Suc.prems(1) by simp
  have take: "take (Suc j) ts = take j ts @ [ts ! j]" "drop j ts = ts ! j # drop (Suc j) ts"
    using jl by (simp_all add: take_Suc_conv_app_nth Cons_nth_drop_Suc)
  obtain s0 where s0: "a_run_tasks env (take j ts) s = Some s0" "a_run_task env (ts ! j) s0 = Some s1"
    using Suc.prems(2) unfolding take(1) a_run_tasks_snoc by (auto split: Option.bind_splits)
  obtain vs where IH: "run (a_do env) (concat (replicate j [Wake q, Turn i])) (a, s) = Some (vs, ?a, s0)"
    using Suc.IH [of s0 s0] jl s0(1) by auto
  have "a_queues ?a ! i = drop j ts" using i len(3) ts(1) by (cases j) (simp_all add: after_rounds_def)
  then have a: "a_ctx ?a q = Some ?c" "a_queues ?a ! i = ts ! j # drop (Suc j) ts"
    "length (a_pend ?a) = NUM_WORKERS" "length (a_states ?a) = NUM_WORKERS"
    "a_states ?a ! i = WORKER_STATE_IDLE" "ac_worker ?c = i"
    using c i len st ts(1) jl take(2) by (simp_all add: after_rounds_def)
  have ex: "List.extract (\<lambda>t. at_req t = q) (a_queues ?a ! i) = Some ([], ts ! j, drop (Suc j) ts)"
    using a(2) ts(2) jl by (simp add: extract_Cons_code)
  have jw: "unat (of_nat (Suc j) :: u32) = Suc j" "of_nat (Suc j) \<le> ac_pending c"
    using Suc.prems(1) ts(3) unat_less_u32 [of "ac_pending c"]
    by (simp_all add: unat_of_nat word_le_nat_alt del: of_nat_Suc)
  have p: "ac_pending ?c - 1 = ac_pending c - of_nat (Suc j)" by (simp add: diff_diff_eq add.commute)
  have z': "ac_pending c = of_nat (Suc j) \<longleftrightarrow> Suc j = length ts"
    using jw(1) ts(3) by (metis word_unat_eq_iff)
  have z: "ac_pending ?c - 1 = 0 \<longleftrightarrow> Suc j = length ts" unfolding p right_minus_eq by (rule z')
  have "run (a_do env) [Wake q, Turn i] (?a, s0) = Some ([Int_val 0, Turn_done],
      a_set_pending q ?c (ac_pending ?c - 1)
        (?a\<lparr>a_queues := (a_queues ?a)[i := [] @ drop (Suc j) ts], a_pend := (a_pend ?a)[i := 0]\<rparr>), s2)"
    by (rule wake_turn [OF a(1,6) i a(3-5) q ex s0(2)]) (use Suc.prems(3) z in \<open>simp split: if_splits\<close>)
  moreover have "a_set_pending q ?c (ac_pending ?c - 1)
        (?a\<lparr>a_queues := (a_queues ?a)[i := [] @ drop (Suc j) ts], a_pend := (a_pend ?a)[i := 0]\<rparr>)
      = after_rounds q i c ts (Suc j) a"
    unfolding a_set_pending_def p
    by (cases "j = 0"; cases "Suc j = length ts")
      (use z' jl in \<open>auto simp add: after_rounds_def simp del: of_nat_Suc\<close>)
  moreover have "concat (replicate (Suc j) [Wake q, Turn i])
      = concat (replicate j [Wake q, Turn i]) @ [Wake q, Turn i]"
    by (induction j) simp_all
  ultimately show ?case using IH by (simp add: run_append del: run.simps)
qed

lemma drain:
  assumes "a_ctx a q = Some c" "ac_worker c = i" "i < NUM_WORKERS"
    and "length (a_pend a) = NUM_WORKERS" "length (a_states a) = NUM_WORKERS"
    and "length (a_queues a) = NUM_WORKERS" "a_states a ! i = WORKER_STATE_IDLE" "q \<noteq> 0"
    and "a_queues a ! i = ts" "ts \<noteq> []" "\<forall>t \<in> set ts. at_req t = q"
    and "unat (ac_pending c) = length ts"
    and "a_run_tasks env ts s = Some s1" "call_cb env (ac_cb c) 0 True (ac_data c) s1 = Some s2"
  shows "\<exists>vs. run (a_do env) (concat (replicate (length ts) [Wake q, Turn i])) (a, s) = Some (vs,
    a\<lparr>a_queues := (a_queues a)[i := []], a_pend := (a_pend a)[i := 0],
      a_ctx := (a_ctx a)(q := None)\<rparr>, s2)"
  using rounds [OF assms(1-9,11,12), of "length ts" env s s1 s2] assms(10,13,14)
  by (simp add: after_rounds_def)

section \<open>Counting the objects of the heap\<close>

lemma heap_counts:
  assumes "pool_rel p a"
  shows "card (dom (nodes (pmem p))) = n_tasks a" "card (dom (tasks (pmem p))) = n_tasks a"
    "card (dom (itasks (pmem p))) = n_tasks a" "card (dom (ctxs (pmem p))) = card (dom (a_ctx a))"
    "id_arrays (pmem p) = a_arrays a"
proof -
  obtain xss where r: "rel p a xss {} {} {}" using assms by (auto simp: pool_rel_def)
  note o = rel_owns [OF r] and h = heap_invD [OF relD(11) [OF r]]
  have n: "length (concat xss) = n_tasks a"
    by (simp add: n_tasks_def relD(12) [OF r] length_concat comp_def)
  have "card (f ` set (concat xss)) = length (concat xss)" if "distinct (map f (concat xss))"
    for f :: "cell \<Rightarrow> ptr"
    using distinct_card [OF that] by (simp del: set_concat)
  note c = this [OF h(5)] this [OF h(6)] this [OF h(7)]
  show "card (dom (nodes (pmem p))) = n_tasks a" "card (dom (tasks (pmem p))) = n_tasks a"
    "card (dom (itasks (pmem p))) = n_tasks a"
    using c n by (simp_all add: ownsD(1-3) [OF o] del: set_concat)
  show "id_arrays (pmem p) = a_arrays a" by (rule relD(4) [OF r])
  let ?f = "\<lambda>c. rc_request_id (the (ctxs (pmem p) c))"
  note t = relD(13) [OF r]
  have "inj_on ?f (dom (ctxs (pmem p)))"
    by (rule inj_onI) (use htD(2) [OF t] in auto)
  moreover have "?f ` dom (ctxs (pmem p)) = dom (a_ctx a)"
    using htD(3,4) [OF t] by (auto simp: image_iff dom_def) (metis option.sel)
  ultimately show "card (dom (ctxs (pmem p))) = card (dom (a_ctx a))" by (metis card_image)
qed

section \<open>Joining idle workers\<close>

lemma a_join_loop_idle:
  assumes "\<forall>i \<in> set is. a_pend a ! i = 0" "a_destroying a"
    "\<forall>i \<in> set is. a_tids a ! i \<noteq> 0 \<longrightarrow> a_states a ! i \<noteq> WORKER_STATE_INIT"
    "distinct is"
  shows "\<exists>a'. a_join_loop env is (a, s) = Some (a', s) \<and> a_arrays a' = a_arrays a"
  using assms
proof (induction "is" arbitrary: a)
  case (Cons i "is")
  have "\<exists>S. (if a_tids a ! i \<noteq> 0 then a_join env i (a, s) else Some (a, s))
      = Some (a\<lparr>a_states := S\<rparr>, s) \<and> (\<forall>j. j \<noteq> i \<longrightarrow> S ! j = a_states a ! j)"
  proof (cases "a_tids a ! i \<noteq> 0 \<and> a_states a ! i \<noteq> WORKER_STATE_EXIT")
    case True
    then show ?thesis using Cons.prems
      by (intro exI [of _ "(a_states a)[i := WORKER_STATE_EXIT]"]) (simp add: a_join_def a_turn_def)
  next
    case False
    then show ?thesis by (intro exI [of _ "a_states a"]) (auto simp: a_join_def)
  qed
  then obtain S where S: "(if a_tids a ! i \<noteq> 0 then a_join env i (a, s) else Some (a, s))
      = Some (a\<lparr>a_states := S\<rparr>, s)" "\<forall>j. j \<noteq> i \<longrightarrow> S ! j = a_states a ! j" by blast
  have "\<forall>j \<in> set is. a_states (a\<lparr>a_states := S\<rparr>) ! j = a_states a ! j"
    using S(2) Cons.prems(4) by auto
  then obtain a' where "a_join_loop env is (a\<lparr>a_states := S\<rparr>, s) = Some (a', s)"
    "a_arrays a' = a_arrays a"
    using Cons.IH [of "a\<lparr>a_states := S\<rparr>"] Cons.prems by auto
  with S(1) show ?case by simp
qed simp

section \<open>A batch when every allocation succeeds\<close>

lemma a_build_ok:
  assumes "\<forall>n. malloc_ok a n" "0 < brk a"
  shows "\<exists>new a'. a_build srcs q cb data a acc = (Some new, a')"
  using assms
proof (induction srcs arbitrary: a acc)
  case (Cons src srcs)
  obtain t a1 where t: "a_new_task src q cb data a = (Some t, a1)" "\<forall>n. malloc_ok a1 n" "0 < brk a1"
    using Cons.prems by (auto simp: a_new_task_def malloc_n_def)
  with Cons.IH [OF t(2,3)] show ?case by simp
qed simp

lemma a_batch_ok:
  assumes mk: "\<forall>n. malloc_ok a n" "0 < brk a" and run: "a_running a" and ts: "ts \<noteq> []"
    and q: "\<forall>t \<in> set ts. request_id t = q" and sel: "a_select a = Some i" and none: "a_ctx a q = None"
  obtains v a' where "a_batch ts cb data bcb bdata a = (v, a')" "v \<noteq> NULL" "same_rest a a'"
    "a_queues a' = (a_queues a)[i := a_queues a ! i @ batch_tasks ts (a_next a) cb data]"
    "a_ctx a' = (a_ctx a)(q \<mapsto> \<lparr>ac_worker = i, ac_pending = of_nat (length ts), ac_cb = bcb, ac_data = bdata\<rparr>)"
proof -
  obtain v a' where b: "a_batch ts cb data bcb bdata a = (v, a')"
    by (cases "a_batch ts cb data bcb bdata a")
  have hq: "request_id (hd ts) = q" "\<forall>t \<in> set (tl ts). request_id t = q"
    using q ts by (cases ts; simp)+
  obtain arr a1 where 1: "malloc_n (length ts) a = (arr, a1)" "arr \<noteq> NULL" "\<forall>n. malloc_ok a1 n" "0 < brk a1"
    using mk by (auto simp: malloc_n_def)
  note k1 = malloc_keeps [OF 1(1)]
  have sel1: "a_select a1 = Some i" using sel a_select_cong [of a1 a] k1 by simp
  obtain new a2 where 2: "a_build ts q cb data a1 [] = (Some new, a2)"
    using a_build_ok [OF 1(3,4)] by blast
  have k2: "a_ctx a2 = a_ctx a" "malloc_ok a2 = malloc_ok a1"
    using k1 by (subst a_build_keeps [OF 2], simp)+
  have br: "0 < brk a2" using a_build_brk [OF 2] 1(4) by simp
  let ?e = "(a_enqueue i new a2)\<lparr>a_arrays := (a_arrays a2)(arr \<mapsto> map at_id new)\<rparr>"
  have "v = arr" "a' = snd (a_count q (of_nat (length ts)) i bcb bdata ?e)"
    using b ts run hq 1(1,2) sel1 2 by (auto simp: a_batch_def Let_def)
  moreover have "a_ctx (snd (a_count q (of_nat (length ts)) i bcb bdata ?e))
      = (a_ctx a)(q \<mapsto> \<lparr>ac_worker = i, ac_pending = of_nat (length ts), ac_cb = bcb, ac_data = bdata\<rparr>)"
    using none k2 1(3) br by (simp add: a_count_def a_enqueue_def malloc_n_def)
  ultimately have v: "v \<noteq> NULL" "a_ctx a' = (a_ctx a)(q \<mapsto>
      \<lparr>ac_worker = i, ac_pending = of_nat (length ts), ac_cb = bcb, ac_data = bdata\<rparr>)"
    using 1(2) by simp_all
  from b show thesis
  proof (cases rule: a_batch_cases)
    case no
    with v show ?thesis by simp
  next
    case (yes j)
    with sel b v show ?thesis by (intro that) simp_all
  qed
qed

end
