(* ===== verification/RequestFacts.thy ===== *)
theory RequestFacts
  imports Requests PoolFacts
begin

text \<open>
  Facts about requests: what an allocation adds to the heap of the transport and a release takes
  away, what registering the tasks of a request leaves behind (the heap as it was, or exactly
  the objects of the request), and the effect of the tasks on the synchronisation object.
\<close>

section \<open>The heap between operations\<close>

text \<open>Nothing lives beyond the allocator's frontier.\<close>

definition tm_ok :: "tmem \<Rightarrow> bool" where
  "tm_ok m \<longleftrightarrow> 0 < brk m \<and> (\<forall>q \<ge> brk m. syncs m q = None \<and> groups m q = None \<and> blocks m q = None \<and>
     chunk_cells m q = None \<and> task_cells m q = None \<and> arg_cells m q = None)"

lemma tm_okD:
  assumes "tm_ok m"
  shows "0 < brk m" "brk m \<le> q \<Longrightarrow> syncs m q = None" "brk m \<le> q \<Longrightarrow> groups m q = None"
    "brk m \<le> q \<Longrightarrow> blocks m q = None" "brk m \<le> q \<Longrightarrow> chunk_cells m q = None"
    "brk m \<le> q \<Longrightarrow> task_cells m q = None" "brk m \<le> q \<Longrightarrow> arg_cells m q = None"
  using assms by (auto simp: tm_ok_def)

text \<open>Every allocation and every initialisation of a mutex or condition variable succeeds.\<close>

definition env_ok :: "tmem \<Rightarrow> bool" where
  "env_ok m \<longleftrightarrow> (\<forall>n. malloc_ok m n) \<and> (\<forall>n. init_ret m n = 0)"

text \<open>The same objects; only the allocator and the call counts went on.\<close>

definition same_objs :: "tmem \<Rightarrow> tmem \<Rightarrow> bool" where
  "same_objs m m' \<longleftrightarrow> brk m \<le> brk m' \<and>
     m' = m\<lparr>brk := brk m', calls := calls m', inits := inits m'\<rparr>"

lemma same_objsD:
  assumes "same_objs m m'"
  shows "brk m \<le> brk m'" "malloc_ok m' = malloc_ok m" "syncs m' = syncs m" "groups m' = groups m"
    "blocks m' = blocks m" "chunk_cells m' = chunk_cells m" "task_cells m' = task_cells m"
    "arg_cells m' = arg_cells m" "init_ret m' = init_ret m"
proof -
  from assms have eq: "m' = m\<lparr>brk := brk m', calls := calls m', inits := inits m'\<rparr>" and "brk m \<le> brk m'"
    by (simp_all add: same_objs_def)
  then show "brk m \<le> brk m'" by simp
  show "malloc_ok m' = malloc_ok m" "syncs m' = syncs m" "groups m' = groups m"
    "blocks m' = blocks m" "chunk_cells m' = chunk_cells m" "task_cells m' = task_cells m"
    "arg_cells m' = arg_cells m" "init_ret m' = init_ret m" by (subst eq, simp)+
qed

lemma same_objs_refl [simp]: "same_objs m m" by (simp add: same_objs_def)

lemma same_objs_trans: "same_objs m m1 \<Longrightarrow> same_objs m1 m2 \<Longrightarrow> same_objs m m2"
  by (cases m; cases m1; cases m2) (auto simp: same_objs_def)

lemma same_objs_tm_ok: "same_objs m m' \<Longrightarrow> tm_ok m \<Longrightarrow> tm_ok m'"
  by (auto simp: tm_ok_def same_objsD dest: same_objsD(1))

lemma same_objs_bump [simp]:
  "brk m \<le> b \<Longrightarrow> same_objs m (m\<lparr>brk := b, calls := c, inits := i\<rparr>)"
  "brk m \<le> b \<Longrightarrow> same_objs m (m\<lparr>brk := b, calls := c\<rparr>)"
  "same_objs m (m\<lparr>calls := c\<rparr>)"
  by (simp_all add: same_objs_def)

lemma restrict_unused: "(\<And>q. q \<in> A \<Longrightarrow> f q = None) \<Longrightarrow> f |` (- A) = f"
  by (rule ext) (auto simp: restrict_map_def)

lemma upd_unused: "f q = None \<Longrightarrow> (f(q \<mapsto> x))(q := None) = f"
  by (rule ext) simp

lemma restrict_put_array: "(\<And>q. q \<in> block p (length xs) \<Longrightarrow> f q = None) \<Longrightarrow>
    put_array p xs f |` (- block p (length xs)) = f"
  by (rule ext) (auto simp: restrict_map_def put_array_def block_def)

lemma restrict_fresh:
  assumes "tm_ok m" "brk m \<le> q"
  shows "chunk_cells m |` (- block q n) = chunk_cells m" "task_cells m |` (- block q n) = task_cells m"
    "arg_cells m |` (- block q n) = arg_cells m"
  by (rule restrict_unused; use assms in \<open>simp add: tm_ok_def block_def\<close>)+

lemma malloc1_tm:
  assumes "tm_ok m" "malloc1 m = (p, m1)"
  obtains (null) "p = NULL" "m1 = m\<lparr>calls := Suc (calls m)\<rparr>"
  | (fresh) "p = brk m" "p \<noteq> NULL" "m1 = m\<lparr>brk := Suc (brk m), calls := Suc (calls m)\<rparr>"
  using assms tm_okD(1) [OF assms(1)] by (auto simp: malloc_n_def split: if_splits)

lemma alloc_block_tm:
  assumes "tm_ok m" "alloc_block n m = (p, m1)" "0 < n"
  obtains (null) "p = NULL" "m1 = m\<lparr>calls := Suc (calls m)\<rparr>"
  | (fresh) "p = brk m" "p \<noteq> NULL"
      "m1 = m\<lparr>brk := brk m + n, calls := Suc (calls m), blocks := (blocks m)(brk m \<mapsto> n)\<rparr>"
  using assms tm_okD(1) [OF assms(1)]
  by (auto simp: alloc_block_def malloc_n_def split: if_splits)

section \<open>Task groups and synchronisation objects\<close>

text \<open>A new task group: three allocations in a row, or the heap as it was.\<close>

lemma alloc_task_group_cases:
  assumes m: "tm_ok m" and n: "n = unat task_num" "0 < n"
  obtains (null) m1 where "alloc_task_group task_num m = Some (NULL, m1)" "same_objs m m1" "\<not> env_ok m"
  | (group) "alloc_task_group task_num m = Some (brk m, m\<lparr>brk := brk m + 1 + n + n,
      calls := calls m + 3,
      groups := (groups m)(brk m \<mapsto> \<lparr>tg_tasks = brk m + 1, tg_task_args = brk m + 1 + n,
        tg_task_num = ucast task_num\<rparr>),
      blocks := (blocks m)(brk m + 1 \<mapsto> n, brk m + 1 + n \<mapsto> n)\<rparr>)"
proof -
  have tn: "task_num \<noteq> 0" using n by auto
  obtain g m1 where 1: "malloc1 m = (g, m1)" by (cases "malloc1 m")
  note b = tm_okD [OF m]
  from m 1 show thesis
  proof (cases rule: malloc1_tm)
    case null
    moreover have "\<not> env_ok m" using 1 null b(1) by (auto simp: env_ok_def malloc_n_def)
    ultimately show thesis using 1 tn by (intro that(1) [of m1]) (simp_all add: alloc_task_group_def)
  next
    case fresh
    let ?m2 = "m1\<lparr>groups := (groups m1)(g \<mapsto> \<lparr>tg_tasks = NULL, tg_task_args = NULL, tg_task_num = 0\<rparr>)\<rparr>"
    obtain tks m3 where 2: "alloc_block n ?m2 = (tks, m3)" by (cases "alloc_block n ?m2")
    obtain args m4 where 3: "alloc_block n m3 = (args, m4)" by (cases "alloc_block n m3")
    note ok = m n(2) fresh b
    show thesis
    proof (cases "malloc_ok m (Suc (calls m)) \<and> malloc_ok m (Suc (Suc (calls m)))")
      case True
      then have "alloc_task_group task_num m = Some (brk m, m\<lparr>brk := brk m + 1 + n + n,
          calls := calls m + 3,
          groups := (groups m)(brk m \<mapsto> \<lparr>tg_tasks = brk m + 1, tg_task_args = brk m + 1 + n,
            tg_task_num = ucast task_num\<rparr>),
          blocks := (blocks m)(brk m + 1 \<mapsto> n, brk m + 1 + n \<mapsto> n)\<rparr>)"
        using 1 fresh n tn by (simp add: alloc_task_group_def alloc_block_def malloc_n_def Let_def max_def
            eval_nat_numeral add.commute add.left_commute)
      then show thesis by (rule that(2))
    next
      case False
      have r: "chunk_cells m |` (- block q n) = chunk_cells m" "task_cells m |` (- block q n) = task_cells m"
        "arg_cells m |` (- block q n) = arg_cells m" if "brk m \<le> q" for q
        using restrict_fresh [OF m that] by auto
      have u: "(blocks m)(Suc (brk m) := None) = blocks m" "(groups m)(brk m := None) = groups m"
        using b(3,4) by (simp_all add: fun_upd_idem)
      from False have "\<exists>m1. alloc_task_group task_num m = Some (NULL, m1) \<and> same_objs m m1"
        using 1 fresh n tn r u
        by (auto simp: alloc_task_group_def alloc_block_def malloc_n_def Let_def free_block_def
            free_group_def same_objs_def upd_unused)
      then show thesis using that(1) False by (auto simp: env_ok_def)
    qed
  qed
qed

section \<open>The tasks of a request\<close>

definition send_arg :: "urma_write_info \<Rightarrow> ptr \<Rightarrow> chunk_info list \<Rightarrow> ptr \<Rightarrow> nat \<Rightarrow> task_arg" where
  "send_arg wi chunks cs sync i =
     Send_arg (construct_send_task_arg wi (chunks + Suc i) (cs ! Suc i) (of_nat (Suc i))
       (Suc (Suc i) = length cs) sync)"

definition recv_arg :: "urma_recv_info \<Rightarrow> ptr \<Rightarrow> chunk_info list \<Rightarrow> ptr \<Rightarrow> nat \<Rightarrow> task_arg" where
  "recv_arg ri chunks cs sync i =
     Recv_arg (construct_recv_task_arg ri (chunks + i) (Suc i = length cs) sync)"

text \<open>Task i of a group carries the id \<open>k + i\<close> and the address of its argument.\<close>

definition group_task :: "nat \<Rightarrow> u32 \<Rightarrow> task_fn \<Rightarrow> ptr \<Rightarrow> nat \<Rightarrow> ThreadPoolTask" where
  "group_task k key func args i = construct_worker_task (of_nat (k + i)) key func (args + i)"

lemma of_nat_u64_eq: "i < 2 ^ 64 \<Longrightarrow> j < 2 ^ 64 \<Longrightarrow> (of_nat i :: u64) = of_nat j \<longleftrightarrow> i = j"
  by (metis unat_of_nat64)

lemma last_chunk_iff:
  assumes "i < n" "n < 2 ^ 32"
  shows "(of_nat i :: u64) = of_nat n - 1 \<longleftrightarrow> Suc i = n"
proof -
  have "(of_nat i :: u64) = of_nat n - 1 \<longleftrightarrow> of_nat (Suc i) = (of_nat n :: u64)"
    by (auto simp: eq_diff_eq add.commute)
  also have "\<dots> \<longleftrightarrow> Suc i = n" by (rule of_nat_u64_eq) (use assms in simp_all)
  finally show ?thesis .
qed

text \<open>Both loops fill the two arrays element by element.\<close>

lemma send_task_loop_spec:
  assumes "blocks m (tg_tasks g) = Some k" "blocks m (tg_task_args g) = Some k" "i + n \<le> k"
    and "task_cells m = put_array (tg_tasks g) ts f" "length ts = i"
    and "arg_cells m = put_array (tg_task_args g) as h" "length as = i"
    and "\<forall>j < length cs. chunk_cells m (chunks + j) = Some (cs ! j)"
    and "Suc (i + n) = length cs" "length cs < 2 ^ 32"
  shows "send_task_loop chunks (of_nat (length cs)) func wi sync g i n m =
    Some (m\<lparr>arg_cells := put_array (tg_task_args g) (as @ map (send_arg wi chunks cs sync) [i..<i + n]) h,
      task_cells := put_array (tg_tasks g) (ts @ map (group_task 1
        (ucast (bs_request_id (wi_user_ctx_server wi))) func (tg_task_args g)) [i..<i + n]) f\<rparr>)"
  using assms
proof (induction n arbitrary: i ts as m)
  case (Suc n)
  have idx: "of_nat i + 1 = (of_nat (Suc i) :: u64)" "unat (of_nat (Suc i) :: u64) = Suc i"
    using Suc.prems(9,10) by (simp_all add: unat_of_nat64 del: of_nat_Suc) simp
  have lst: "(of_nat (Suc i) :: u64) = of_nat (length cs) - 1 \<longleftrightarrow> Suc (Suc i) = length cs"
    by (rule last_chunk_iff) (use Suc.prems(9,10) in simp_all)
  have ck: "chunk_cells m (chunks + Suc i) = Some (cs ! Suc i)"
    using Suc.prems(8) [rule_format, of "Suc i"] Suc.prems(9) by simp
  let ?t = "group_task 1 (ucast (bs_request_id (wi_user_ctx_server wi))) func (tg_task_args g) i"
  let ?a = "send_arg wi chunks cs sync i"
  let ?m = "m\<lparr>arg_cells := put_array (tg_task_args g) (as @ [?a]) h,
      task_cells := put_array (tg_tasks g) (ts @ [?t]) f\<rparr>"
  have "send_task_loop chunks (of_nat (length cs)) func wi sync g i (Suc n) m
      = send_task_loop chunks (of_nat (length cs)) func wi sync g (Suc i) n ?m"
    using Suc.prems(1-7,9,10) idx lst ck
    by (simp add: Let_def store_arg_def store_task_def in_block_def put_array_snoc send_arg_def
        group_task_def del: of_nat_Suc)
  also have "\<dots> = Some (?m\<lparr>arg_cells := put_array (tg_task_args g)
        ((as @ [?a]) @ map (send_arg wi chunks cs sync) [Suc i..<Suc i + n]) h,
      task_cells := put_array (tg_tasks g) ((ts @ [?t]) @ map (group_task 1
        (ucast (bs_request_id (wi_user_ctx_server wi))) func (tg_task_args g)) [Suc i..<Suc i + n]) f\<rparr>)"
    by (rule Suc.IH) (use Suc.prems in simp_all)
  finally show ?case by (simp add: upt_conv_Cons del: upt_Suc)
qed (cases m; simp)

lemma recv_task_loop_spec:
  assumes "blocks m (tg_tasks g) = Some k" "blocks m (tg_task_args g) = Some k" "i + n \<le> k"
    and "task_cells m = put_array (tg_tasks g) ts f" "length ts = i"
    and "arg_cells m = put_array (tg_task_args g) as h" "length as = i"
    and "i + n = length cs" "length cs < 2 ^ 32"
  shows "recv_task_loop chunks (of_nat (length cs)) func ri sync g i n m =
    Some (m\<lparr>arg_cells := put_array (tg_task_args g) (as @ map (recv_arg ri chunks cs sync) [i..<i + n]) h,
      task_cells := put_array (tg_tasks g) (ts @ map (group_task 0
        (ri_request_id ri) func (tg_task_args g)) [i..<i + n]) f\<rparr>)"
  using assms
proof (induction n arbitrary: i ts as m)
  case (Suc n)
  have lst: "(of_nat i :: u64) = of_nat (length cs) - 1 \<longleftrightarrow> Suc i = length cs"
    by (rule last_chunk_iff) (use Suc.prems in simp_all)
  let ?t = "group_task 0 (ri_request_id ri) func (tg_task_args g) i"
  let ?a = "recv_arg ri chunks cs sync i"
  let ?m = "m\<lparr>arg_cells := put_array (tg_task_args g) (as @ [?a]) h,
      task_cells := put_array (tg_tasks g) (ts @ [?t]) f\<rparr>"
  have "recv_task_loop chunks (of_nat (length cs)) func ri sync g i (Suc n) m
      = recv_task_loop chunks (of_nat (length cs)) func ri sync g (Suc i) n ?m"
    using Suc.prems(1-9) lst
    by (simp add: Let_def store_arg_def store_task_def in_block_def put_array_snoc recv_arg_def
        group_task_def)
  also have "\<dots> = Some (?m\<lparr>arg_cells := put_array (tg_task_args g)
        ((as @ [?a]) @ map (recv_arg ri chunks cs sync) [Suc i..<Suc i + n]) h,
      task_cells := put_array (tg_tasks g) ((ts @ [?t]) @ map (group_task 0
        (ri_request_id ri) func (tg_task_args g)) [Suc i..<Suc i + n]) f\<rparr>)"
    by (rule Suc.IH) (use Suc.prems in simp_all)
  finally show ?case by (simp add: upt_conv_Cons del: upt_Suc)
qed (cases m; simp)

section \<open>Submitting a group to the pool\<close>

text \<open>
  The pool's side of a submission: the batch is refused and the pool has the tasks and contexts
  it had, or the batch is in the queue of a worker and the id array is released again.
\<close>

lemma submit_group_pool:
  assumes p: "pool_rel p a"
  obtains (refused) p1 a1 where
      "thread_pool_submit_batch_tasks p ts NULL NULL NULL NULL = Some (NULL, p1)" "pool_rel p1 a1"
      "a_queues a1 = a_queues a" "a_ctx a1 = a_ctx a" "a_arrays a1 = a_arrays a" "same_rest a a1"
      "a_batch ts NULL NULL NULL NULL a = (NULL, a1)"
  | (queued) v p1 pm a1 where
      "thread_pool_submit_batch_tasks p ts NULL NULL NULL NULL = Some (v, p1)" "v \<noteq> NULL"
      "free_id_array v (pmem p1) = Some pm" "a_batch ts NULL NULL NULL NULL a = (v, a1)"
      "pool_rel (p1\<lparr>pmem := pm\<rparr>) (a1\<lparr>a_arrays := a_arrays a\<rparr>)"
proof -
  obtain v a1 where b: "a_batch ts NULL NULL NULL NULL a = (v, a1)"
    by (cases "a_batch ts NULL NULL NULL NULL a")
  from batch_refine [OF p, of ts NULL NULL NULL NULL] b obtain p1 where
    1: "thread_pool_submit_batch_tasks p ts NULL NULL NULL NULL = Some (v, p1)" "pool_rel p1 a1"
    by (auto simp: option_rel_Some2)
  from b show thesis
  proof (cases rule: a_batch_cases)
    case no
    with 1 b show thesis by (intro refused [of p1 a1]) simp_all
  next
    case (yes i)
    obtain xss where r: "rel p1 a1 xss {} {} {}" and busy: "WORKER_STATE_BUSY \<notin> set (a_states a1)"
      using 1(2) by (auto simp: pool_rel_def)
    from rel_free_ids [OF r, of v] yes(8) obtain pm where
      2: "free_id_array v (pmem p1) = Some pm"
        "rel (p1\<lparr>pmem := pm\<rparr>) (a1\<lparr>a_arrays := (a_arrays a1)(v := None)\<rparr>) xss {} {} {}" by auto
    obtain yss where r0: "rel p a yss {} {} {}" using p by (auto simp: pool_rel_def)
    have "v = brk a" by (rule a_batch_address [OF b yes(4)])
    then have "a_arrays a v = None"
      using owns_brk_None(5) [OF rel_owns [OF r0]] relD(1,4) [OF r0] by simp
    then have "(a_arrays a1)(v := None) = a_arrays a" using yes(8) by (simp add: fun_upd_idem)
    with 2(2) busy have "pool_rel (p1\<lparr>pmem := pm\<rparr>) (a1\<lparr>a_arrays := a_arrays a\<rparr>)"
      by (auto simp: pool_rel_def)
    with 1 2(1) b yes(4) show thesis by (intro queued)
  qed
qed

section \<open>The objects of a request\<close>

text \<open>
  \<open>registered m sync s ts as m1\<close>: the heap m1 is m with the objects of one request: the
  synchronisation object s, behind it the group, its tasks ts and their arguments as.
\<close>

definition registered ::
    "tmem \<Rightarrow> ptr \<Rightarrow> task_sync \<Rightarrow> ThreadPoolTask list \<Rightarrow> task_arg list \<Rightarrow> tmem \<Rightarrow> bool" where
  "registered m sync s ts as m1 \<longleftrightarrow>
     (let n = length ts in
      length as = n \<and> sync = brk m \<and> brk m1 = sync + 2 + n + n \<and>
      malloc_ok m1 = malloc_ok m \<and> init_ret m1 = init_ret m \<and>
      syncs m1 = (syncs m)(sync \<mapsto> s) \<and>
      groups m1 = (groups m)(Suc sync \<mapsto> \<lparr>tg_tasks = sync + 2, tg_task_args = sync + 2 + n,
        tg_task_num = of_nat n\<rparr>) \<and>
      blocks m1 = (blocks m)(sync + 2 \<mapsto> n, sync + 2 + n \<mapsto> n) \<and>
      chunk_cells m1 = chunk_cells m \<and>
      task_cells m1 = put_array (sync + 2) ts (task_cells m) \<and>
      arg_cells m1 = put_array (sync + 2 + n) as (arg_cells m))"

lemma registeredD:
  assumes "registered m sync s ts as m1"
  shows "length as = length ts" "sync = brk m" "brk m1 = sync + 2 + length ts + length ts"
    "malloc_ok m1 = malloc_ok m" "init_ret m1 = init_ret m" "syncs m1 = (syncs m)(sync \<mapsto> s)"
    "groups m1 = (groups m)(Suc sync \<mapsto> \<lparr>tg_tasks = sync + 2, tg_task_args = sync + 2 + length ts,
        tg_task_num = of_nat (length ts)\<rparr>)"
    "blocks m1 = (blocks m)(sync + 2 \<mapsto> length ts, sync + 2 + length ts \<mapsto> length ts)"
    "chunk_cells m1 = chunk_cells m" "task_cells m1 = put_array (sync + 2) ts (task_cells m)"
    "arg_cells m1 = put_array (sync + 2 + length ts) as (arg_cells m)"
  using assms by (simp_all add: registered_def Let_def)

lemma registered_sync:
  assumes "registered m sync s ts as m1"
  shows "registered m sync s' ts as (m1\<lparr>syncs := (syncs m1)(sync \<mapsto> s')\<rparr>)"
  using assms by (simp add: registered_def Let_def)

text \<open>Releasing the group, and the whole request, leaves the heap it was made in.\<close>

lemma release_group_registered:
  assumes m: "tm_ok m" and r: "registered m sync s ts as m1" and ne: "ts \<noteq> []"
  obtains m2 where "release_group (Suc sync) m1 = Some m2" "brk m2 = brk m1"
    "malloc_ok m2 = malloc_ok m" "init_ret m2 = init_ret m" "syncs m2 = (syncs m)(sync \<mapsto> s)"
    "groups m2 = groups m" "blocks m2 = blocks m" "chunk_cells m2 = chunk_cells m"
    "task_cells m2 = task_cells m" "arg_cells m2 = arg_cells m"
proof -
  note d = registeredD [OF r] and b = tm_okD [OF m]
  let ?n = "length ts"
  have n: "0 < ?n" using ne by simp
  let ?T = "block (sync + 2) ?n" and ?A = "block (sync + 2 + ?n) ?n"
  have out: "put_array (sync + 2) ts (task_cells m) |` (- ?A) = put_array (sync + 2) ts (task_cells m)"
    by (rule restrict_unused) (use b(6) d(2) in \<open>auto simp: put_array_def block_def\<close>)
  have own: "put_array (sync + 2 + ?n) as (arg_cells m) |` (- ?A) = arg_cells m"
    unfolding d(1) [symmetric] by (rule restrict_put_array) (use b(7) d(2) in \<open>simp add: block_def\<close>)
  have own': "put_array (sync + 2) ts (task_cells m) |` (- ?T) = task_cells m"
    by (rule restrict_put_array) (use b(6) d(2) in \<open>simp add: block_def\<close>)
  have same: "chunk_cells m |` (- ?A) = chunk_cells m" "chunk_cells m |` (- ?T) = chunk_cells m"
    "arg_cells m |` (- ?T) = arg_cells m"
    using restrict_fresh [OF m] d(2) by simp_all
  have bl: "(blocks m1)(sync + 2 + ?n := None, sync + 2 := None) = blocks m"
    using n d(2,8) b(4) [of "sync + 2"] b(4) [of "sync + 2 + ?n"] by (auto simp: fun_eq_iff)
  let ?m1 = "m1\<lparr>blocks := (blocks m1)(sync + 2 + ?n := None),
    chunk_cells := chunk_cells m, task_cells := put_array (sync + 2) ts (task_cells m),
    arg_cells := arg_cells m\<rparr>"
  have 1: "free_block (sync + 2 + ?n) m1 = Some ?m1"
    using d(8-11) out own same by (simp add: free_block_def)
  let ?m2 = "?m1\<lparr>blocks := (blocks m1)(sync + 2 + ?n := None, sync + 2 := None),
    task_cells := task_cells m\<rparr>"
  have 2: "free_block (sync + 2) ?m1 = Some ?m2"
    using d(8) own' same n by (simp add: free_block_def)
  have 3: "(groups m1)(Suc sync := None) = groups m"
    using d(2,7) b(3) [of "Suc sync"] by (simp add: fun_upd_idem)
  show thesis
    by (rule that [of "?m2\<lparr>groups := (groups m1)(Suc sync := None)\<rparr>"])
      (use 1 2 3 bl d in \<open>simp_all add: release_group_def free_group_def\<close>)
qed

text \<open>\<open>without_block c m m'\<close>: the heap m without the array at c.\<close>

definition without_block :: "ptr \<Rightarrow> tmem \<Rightarrow> tmem \<Rightarrow> bool" where
  "without_block c m m' \<longleftrightarrow> (\<exists>k. blocks m c = Some k \<and> brk m \<le> brk m' \<and>
     malloc_ok m' = malloc_ok m \<and> init_ret m' = init_ret m \<and> syncs m' = syncs m \<and>
     groups m' = groups m \<and> blocks m' = (blocks m)(c := None) \<and>
     chunk_cells m' = chunk_cells m |` (- block c k) \<and> task_cells m' = task_cells m |` (- block c k) \<and>
     arg_cells m' = arg_cells m |` (- block c k))"

lemma release_request:
  assumes m: "tm_ok m" and r: "registered m sync s ts as m1" and ne: "ts \<noteq> []"
    and s: "ts_task_group s = Suc sync" "ts_chunks s = c" and c: "blocks m c = Some k" "c \<noteq> NULL"
  obtains m2 where "free_sync_owned_resources sync m1 = Some m2" "without_block c m m2"
proof -
  note d = registeredD [OF r] and b = tm_okD [OF m]
  obtain m2 where 2: "release_group (Suc sync) m1 = Some m2" "brk m2 = brk m1"
    "malloc_ok m2 = malloc_ok m" "init_ret m2 = init_ret m" "syncs m2 = (syncs m)(sync \<mapsto> s)"
    "groups m2 = groups m" "blocks m2 = blocks m" "chunk_cells m2 = chunk_cells m"
    "task_cells m2 = task_cells m" "arg_cells m2 = arg_cells m"
    by (rule release_group_registered [OF m r ne])
  have sync: "sync \<noteq> NULL" "syncs m1 sync = Some s" using d(2,6) b(1) by simp_all
  let ?s1 = "s\<lparr>ts_task_group := NULL\<rparr>"
  let ?m3 = "m2\<lparr>syncs := (syncs m2)(sync \<mapsto> ?s1)\<rparr>"
  have 3: "free_task_group_resource sync m1 = Some ?m3"
    using sync s(1) 2(1) by (simp add: free_task_group_resource_def)
  obtain m4 where 4: "free_block c ?m3 = Some m4" using c 2(7) by (simp add: free_block_def)
  have 5: "m4 = ?m3\<lparr>blocks := (blocks m)(c := None), chunk_cells := chunk_cells m |` (- block c k),
      task_cells := task_cells m |` (- block c k), arg_cells := arg_cells m |` (- block c k)\<rparr>"
    using 4 c 2 by (simp add: free_block_def)
  let ?m5 = "m4\<lparr>syncs := ((syncs m4)(sync \<mapsto> ?s1\<lparr>ts_chunks := NULL\<rparr>))(sync := None)\<rparr>"
  have syn: "syncs ?m5 = syncs m" using 5 2(5) b(2) [of sync] d(2) by (auto simp: fun_eq_iff)
  have "free_sync_owned_resources sync m1 = Some ?m5"
    using sync 3 4 s(2) 5 by (simp add: free_sync_owned_resources_def free_sync_def)
  moreover have "without_block c m ?m5"
    unfolding without_block_def syn using 5 2 c d(2,3) by (intro exI [of _ k]) simp
  ultimately show thesis by (rule that)
qed

text \<open>\<open>init_task_sync\<close>: a zeroed object, or the heap as it was.\<close>

definition fresh_sync :: task_sync where
  "fresh_sync = \<lparr>ts_request_completed = 0, ts_total_tasks = 0, ts_completed_tasks = 0,
     ts_task_group = NULL, ts_chunks = NULL\<rparr>"

lemma init_task_sync_cases:
  assumes m: "tm_ok m"
  obtains (null) m1 where "init_task_sync m = Some (NULL, m1)" "same_objs m m1" "\<not> env_ok m"
  | (sync) "init_task_sync m = Some (brk m, m\<lparr>brk := Suc (brk m), calls := Suc (calls m),
      inits := Suc (Suc (inits m)), syncs := (syncs m)(brk m \<mapsto> fresh_sync)\<rparr>)"
proof -
  obtain q m1 where 1: "malloc1 m = (q, m1)" by (cases "malloc1 m")
  have un: "(syncs m)(brk m := None) = syncs m" using tm_okD(2) [OF m] by (simp add: fun_upd_idem)
  from m 1 show thesis
  proof (cases rule: malloc1_tm)
    case null
    moreover have "\<not> env_ok m" using 1 null tm_okD(1) [OF m] by (auto simp: env_ok_def malloc_n_def)
    ultimately show thesis using 1 by (intro that(1) [of m1]) (simp_all add: init_task_sync_def)
  next
    case fresh
    show thesis
    proof (cases "init_ret m (inits m) = 0 \<and> init_ret m (Suc (inits m)) = 0")
      case True
      with 1 fresh have "init_task_sync m = Some (brk m, m\<lparr>brk := Suc (brk m), calls := Suc (calls m),
          inits := Suc (Suc (inits m)), syncs := (syncs m)(brk m \<mapsto> fresh_sync)\<rparr>)"
        by (cases m) (simp add: init_task_sync_def pthread_init_def fresh_sync_def Let_def)
      then show thesis by (rule that(2))
    next
      case False
      with 1 fresh un have "\<exists>m1. init_task_sync m = Some (NULL, m1) \<and> same_objs m m1"
        by (auto simp: init_task_sync_def pthread_init_def free_sync_def Let_def same_objs_def)
      then show thesis using that(1) False by (auto simp: env_ok_def)
    qed
  qed
qed

section \<open>Registration\<close>

text \<open>What a loop over the tasks of a group does: it fills both arrays.\<close>

definition fills ::
    "(task_group \<Rightarrow> tmem \<Rightarrow> tmem option) \<Rightarrow> (ptr \<Rightarrow> chunk_info option) \<Rightarrow> nat \<Rightarrow>
       (ptr \<Rightarrow> ThreadPoolTask list) \<Rightarrow> task_arg list \<Rightarrow> bool" where
  "fills fill ck n TS as \<longleftrightarrow> length as = n \<and> (\<forall>q. length (TS q) = n) \<and>
     (\<forall>g m. blocks m (tg_tasks g) = Some n \<longrightarrow> blocks m (tg_task_args g) = Some n \<longrightarrow>
        chunk_cells m = ck \<longrightarrow> fill g m = Some (m\<lparr>
          arg_cells := put_array (tg_task_args g) as (arg_cells m),
          task_cells := put_array (tg_tasks g) (TS (tg_task_args g)) (task_cells m)\<rparr>))"

lemma malloc_ok_malloc: "malloc_n n a = (x, a') \<Longrightarrow> malloc_ok a' = malloc_ok a"
  by (auto simp: malloc_n_def split: if_splits)

lemma malloc_ok_batch:
  assumes "a_batch ts cb data bcb bdata a = (v, a1)" shows "malloc_ok a1 = malloc_ok a"
proof -
  have b: "malloc_ok b' = malloc_ok b" if "a_build ts r cb data b acc = (res, b')" for r b acc res b'
    by (subst a_build_keeps [OF that]) simp
  have c: "malloc_ok (snd (a_count r n i cb' data' b)) = malloc_ok b" for r n i cb' data' b
    by (auto simp: a_count_def malloc_ok_malloc split: option.splits prod.splits)
  show ?thesis using assms
    by (auto simp: a_batch_def Let_def c a_enqueue_def dest!: b malloc_ok_malloc
        split: if_splits prod.splits option.splits)
qed

definition pool_same :: "apool \<Rightarrow> apool \<Rightarrow> bool" where
  "pool_same a a1 \<longleftrightarrow> a_queues a1 = a_queues a \<and> a_ctx a1 = a_ctx a \<and> a_arrays a1 = a_arrays a \<and>
     same_rest a a1 \<and> malloc_ok a1 = malloc_ok a"

lemma pool_same_refl [simp]: "pool_same a a" by (simp add: pool_same_def same_rest_def)

lemma register_group_cases:
  assumes p: "pool_rel p a" and m: "tm_ok m0" and n: "n = unat task_num" "0 < n" "n < 2 ^ 32"
    and m1: "m = m0\<lparr>brk := Suc (brk m0), calls := c, inits := k, syncs := (syncs m0)(brk m0 \<mapsto> s0)\<rparr>"
    and fill: "fills fill (chunk_cells m0) n TS as"
  obtains (refused) p1 a1 m1 s1 where
      "register_group fill task_num (brk m0) (p, m) = Some (-1, p1, m1)" "pool_rel p1 a1" "pool_same a a1"
      "m1 = m0\<lparr>brk := brk m1, calls := calls m1, inits := inits m1,
         syncs := (syncs m0)(brk m0 \<mapsto> s1)\<rparr>" "brk m0 \<le> brk m1"
      "env_ok m0 \<Longrightarrow> fst (a_batch (TS (brk m0 + 2 + n)) NULL NULL NULL NULL a) = NULL"
  | (queued) p1 v a1 m1 where
      "register_group fill task_num (brk m0) (p, m) = Some (0, p1, m1)" "v \<noteq> NULL"
      "a_batch (TS (brk m0 + 2 + n)) NULL NULL NULL NULL a = (v, a1)"
      "pool_rel p1 (a1\<lparr>a_arrays := a_arrays a\<rparr>)"
      "registered m0 (brk m0) (s0\<lparr>ts_total_tasks := task_num, ts_task_group := Suc (brk m0)\<rparr>)
         (TS (brk m0 + 2 + n)) as m1"
proof -
  let ?b = "brk m0"
  have ok: "tm_ok m" using m unfolding m1 tm_ok_def by auto
  have tot: "set_total_tasks ?b task_num m' = Some (m'\<lparr>syncs := (syncs m')(?b \<mapsto> s\<lparr>ts_total_tasks := task_num\<rparr>)\<rparr>)"
    if "syncs m' ?b = Some s" for m' s using that by (simp add: set_total_tasks_def)
  from ok n(1,2) show thesis
  proof (cases rule: alloc_task_group_cases)
    case (null m2)
    note d = same_objsD [OF null(2)]
    have "m2 = m0\<lparr>brk := brk m2, calls := calls m2, inits := inits m2, syncs := (syncs m0)(?b \<mapsto> s0)\<rparr>"
      using null(2) unfolding same_objs_def m1 by (cases m0; cases m2) simp
    moreover have "?b \<le> brk m2" using d(1) m1 by simp
    moreover have "\<not> env_ok m0" using null(3) m1 by (simp add: env_ok_def)
    ultimately show thesis using null(1) p
      by (intro refused [of p m2 a s0]) (simp_all add: register_group_def)
  next
    case group
    let ?g = "\<lparr>tg_tasks = ?b + 2, tg_task_args = ?b + 2 + n, tg_task_num = ucast task_num\<rparr>"
    let ?s = "s0\<lparr>ts_total_tasks := task_num\<rparr>" and ?TS = "TS (?b + 2 + n)"
    obtain m2 where 2: "alloc_task_group task_num m = Some (Suc ?b, m2)" "groups m2 (Suc ?b) = Some ?g"
      "syncs m2 = (syncs m0)(?b \<mapsto> s0)"
      "brk m2 = ?b + 2 + n + n" "malloc_ok m2 = malloc_ok m0" "init_ret m2 = init_ret m0"
      "groups m2 = (groups m0)(Suc ?b \<mapsto> ?g)" "blocks m2 = (blocks m0)(?b + 2 \<mapsto> n, ?b + 2 + n \<mapsto> n)"
      "chunk_cells m2 = chunk_cells m0" "task_cells m2 = task_cells m0" "arg_cells m2 = arg_cells m0"
      using group unfolding m1 by simp
    let ?m3 = "m2\<lparr>syncs := (syncs m2)(?b \<mapsto> ?s)\<rparr>"
    have 3: "set_total_tasks ?b task_num m2 = Some ?m3" using tot 2(3) by simp
    let ?m4 = "?m3\<lparr>arg_cells := put_array (?b + 2 + n) as (arg_cells m0),
      task_cells := put_array (?b + 2) ?TS (task_cells m0)\<rparr>"
    have 4: "fill ?g ?m3 = Some ?m4" using fill 2(8-11) n(2) by (simp add: fills_def)
    have len: "length as = n" "length ?TS = n" using fill by (simp_all add: fills_def)
    have un: "unat (ucast task_num :: u32) = n" using n(1,3) by (simp add: word_facts)
    have rd: "read_array (task_cells ?m4) (?b + 2) n = Some ?TS"
      using read_put_array [of "?b + 2" ?TS "task_cells m0"] len(2) by simp
    have num: "ucast task_num = (of_nat n :: u32)" using un n(3) by (simp add: word_unat_eq_iff unat_of_nat)
    have reg: "registered m0 ?b ?s ?TS as ?m4"
      using 2 len num by (simp add: registered_def)
    have g: "register_group fill task_num ?b (p, m) = submit_group ?b (Suc ?b) task_num (p, ?m4)"
      using 2(1,2) 3 4 by (simp add: register_group_def)
    from p show thesis
    proof (cases rule: submit_group_pool [of p a ?TS])
      case (refused p1 a1)
      obtain m5 where 5: "release_group (Suc ?b) ?m4 = Some m5" "brk m5 = brk ?m4"
        "malloc_ok m5 = malloc_ok m0" "init_ret m5 = init_ret m0" "syncs m5 = (syncs m0)(?b \<mapsto> ?s)"
        "groups m5 = groups m0" "blocks m5 = blocks m0" "chunk_cells m5 = chunk_cells m0"
        "task_cells m5 = task_cells m0" "arg_cells m5 = arg_cells m0"
        by (rule release_group_registered [OF m reg]) (use len n(2) in auto)
      have "m5 = m0\<lparr>brk := brk m5, calls := calls m5, inits := inits m5, syncs := (syncs m0)(?b \<mapsto> ?s)\<rparr>"
        using 5 by (cases m0; cases m5) simp
      moreover have "register_group fill task_num ?b (p, m) = Some (-1, p1, m5)"
        using g 2(7) rd un refused(1) 5(1) by (simp add: submit_group_def)
      ultimately show thesis using refused 5(2) 2(4)
        by (intro that(1) [of p1 m5 a1 ?s]) (simp_all add: pool_same_def malloc_ok_batch)
    next
      case (queued v p1 pm a1)
      let ?m5 = "?m4\<lparr>syncs := (syncs ?m4)(?b \<mapsto> ?s\<lparr>ts_task_group := Suc ?b\<rparr>)\<rparr>"
      have "register_group fill task_num ?b (p, m) = Some (0, p1\<lparr>pmem := pm\<rparr>, ?m5)"
        using g 2(7) rd un queued(1-3) by (simp add: submit_group_def)
      moreover have "registered m0 ?b (?s\<lparr>ts_task_group := Suc ?b\<rparr>) ?TS as ?m5"
        by (rule registered_sync [OF reg])
      ultimately show thesis using queued(2,4,5) by (intro that(2)) simp_all
    qed
  qed
qed

definition request_sync :: "u64 \<Rightarrow> ptr \<Rightarrow> ptr \<Rightarrow> task_sync" where
  "request_sync n g chunks = \<lparr>ts_request_completed = 0, ts_total_tasks = n,
     ts_completed_tasks = 0, ts_task_group = g, ts_chunks = chunks\<rparr>"

text \<open>
  Registration as a whole: nothing is left of a request the pool refused or for which an
  allocation failed; otherwise the request stands in the heap and its tasks in a queue.
\<close>

lemma bind_cases:
  assumes p: "pool_rel p a" and m: "tm_ok m" and n: "n = unat task_num" "0 < n" "n < 2 ^ 32"
    and c: "chunks \<noteq> NULL" "chunk_num \<noteq> 0"
    and reg: "\<And>m'. register_by_type chunks chunk_num kd func ui (brk m) (p, m')
      = register_group fill task_num (brk m) (p, m')"
    and fill: "fills fill (chunk_cells m) n TS as"
  obtains (refused) p1 a1 m1 where
      "register_tasks_and_bind_chunks chunks chunk_num kd func ui (p, m) = Some (NULL, p1, m1)"
      "pool_rel p1 a1" "pool_same a a1" "same_objs m m1"
      "env_ok m \<Longrightarrow> fst (a_batch (TS (brk m + 2 + n)) NULL NULL NULL NULL a) = NULL"
  | (queued) p1 v a1 m1 where
      "register_tasks_and_bind_chunks chunks chunk_num kd func ui (p, m) = Some (brk m, p1, m1)"
      "v \<noteq> NULL" "a_batch (TS (brk m + 2 + n)) NULL NULL NULL NULL a = (v, a1)"
      "pool_rel p1 (a1\<lparr>a_arrays := a_arrays a\<rparr>)"
      "registered m (brk m) (request_sync task_num (Suc (brk m)) chunks) (TS (brk m + 2 + n)) as m1"
proof -
  have b: "0 < brk m" using tm_okD(1) [OF m] .
  from m show thesis
  proof (cases rule: init_task_sync_cases)
    case (null m1)
    with c p show thesis
      by (intro refused [of p m1 a])
        (simp_all add: register_tasks_and_bind_chunks_def construct_and_register_worker_task_def)
  next
    case sync
    let ?m = "m\<lparr>brk := Suc (brk m), calls := Suc (calls m), inits := Suc (Suc (inits m)),
      syncs := (syncs m)(brk m \<mapsto> fresh_sync)\<rparr>"
    have cr: "construct_and_register_worker_task chunks chunk_num kd func ui (p, m)
        = do { (ret, p1, m2) \<leftarrow> register_group fill task_num (brk m) (p, ?m);
               if ret \<noteq> 0 then do { m3 \<leftarrow> free_sync (brk m) m2; Some (NULL, p1, m3) }
               else Some (brk m, p1, m2) }"
      using c b sync reg [of ?m] by (simp add: construct_and_register_worker_task_def)
    from p m n refl fill show thesis
    proof (cases rule: register_group_cases
        [where c = "Suc (calls m)" and k = "Suc (Suc (inits m))" and ?s0.0 = fresh_sync])
      case (refused p1 a1 m1 s1)
      have s1: "syncs m1 = (syncs m)(brk m \<mapsto> s1)" by (subst refused(4)) simp
      let ?m2 = "m1\<lparr>syncs := (syncs m1)(brk m := None)\<rparr>"
      have "?m2 = m\<lparr>brk := brk m1, calls := calls m1, inits := inits m1\<rparr>"
        using refused(4) tm_okD(2) [OF m, of "brk m"] by (cases m; cases m1) (auto simp: fun_upd_idem)
      then have "same_objs m ?m2" using refused(5) by (simp add: same_objs_def)
      moreover have "construct_and_register_worker_task chunks chunk_num kd func ui (p, m)
          = Some (NULL, p1, ?m2)"
        using cr refused(1) b s1 by (simp add: free_sync_def)
      ultimately show thesis using refused(2,3,6)
        by (intro that(1) [of p1 ?m2 a1]) (simp_all add: register_tasks_and_bind_chunks_def)
    next
      case (queued p1 v a1 m1)
      have s1: "syncs m1 (brk m) = Some (fresh_sync\<lparr>ts_total_tasks := task_num, ts_task_group := Suc (brk m)\<rparr>)"
        using registeredD(6) [OF queued(5)] by simp
      have "registered m (brk m) (request_sync task_num (Suc (brk m)) chunks) (TS (brk m + 2 + n)) as
          (m1\<lparr>syncs := (syncs m1)(brk m \<mapsto> request_sync task_num (Suc (brk m)) chunks)\<rparr>)"
        by (rule registered_sync [OF queued(5)])
      moreover have "register_tasks_and_bind_chunks chunks chunk_num kd func ui (p, m)
          = Some (brk m, p1, m1\<lparr>syncs := (syncs m1)(brk m \<mapsto> request_sync task_num (Suc (brk m)) chunks)\<rparr>)"
        using cr queued(1) s1 b
        by (simp add: register_tasks_and_bind_chunks_def fresh_sync_def request_sync_def)
      ultimately show thesis using queued(2-4) by (intro that(2)) simp_all
    qed
  qed
qed

definition send_tasks :: "u32 \<Rightarrow> nat \<Rightarrow> ptr \<Rightarrow> ThreadPoolTask list" where
  "send_tasks key n args = map (group_task 1 key send_task_worker_func_fn args) [0..<n]"

definition recv_tasks :: "u32 \<Rightarrow> nat \<Rightarrow> ptr \<Rightarrow> ThreadPoolTask list" where
  "recv_tasks key n args = map (group_task 0 key recv_task_worker_func_fn args) [0..<n]"

lemma send_fills:
  assumes "\<forall>j < length cs. ck (chunks + j) = Some (cs ! j)" "Suc n = length cs" "length cs < 2 ^ 32"
    and "key = ucast (bs_request_id (wi_user_ctx_server wi))"
  shows "fills (\<lambda>g. send_task_loop chunks (of_nat (length cs)) send_task_worker_func_fn wi sync g 0 n) ck n
     (send_tasks key n) (map (send_arg wi chunks cs sync) [0..<n])"
  unfolding fills_def
proof (intro conjI allI impI)
  fix g :: task_group and m :: tmem
  assume "blocks m (tg_tasks g) = Some n" "blocks m (tg_task_args g) = Some n" "chunk_cells m = ck"
  with send_task_loop_spec [of m g n 0 n "[]" "task_cells m" "[]" "arg_cells m" cs chunks
      send_task_worker_func_fn wi sync] assms
  show "send_task_loop chunks (of_nat (length cs)) send_task_worker_func_fn wi sync g 0 n m
    = Some (m\<lparr>arg_cells := put_array (tg_task_args g) (map (send_arg wi chunks cs sync) [0..<n]) (arg_cells m),
        task_cells := put_array (tg_tasks g) (send_tasks key n (tg_task_args g)) (task_cells m)\<rparr>)"
    by (simp add: send_tasks_def)
qed (simp_all add: send_tasks_def)

lemma recv_fills:
  assumes "n = length cs" "length cs < 2 ^ 32"
  shows "fills (\<lambda>g. recv_task_loop chunks (of_nat (length cs)) recv_task_worker_func_fn ri sync g 0 n) ck n
     (recv_tasks (ri_request_id ri) n) (map (recv_arg ri chunks cs sync) [0..<n])"
  unfolding fills_def
proof (intro conjI allI impI)
  fix g :: task_group and m :: tmem
  assume "blocks m (tg_tasks g) = Some n" "blocks m (tg_task_args g) = Some n" "chunk_cells m = ck"
  with recv_task_loop_spec [of m g n 0 n "[]" "task_cells m" "[]" "arg_cells m" cs chunks
      recv_task_worker_func_fn ri sync] assms
  show "recv_task_loop chunks (of_nat (length cs)) recv_task_worker_func_fn ri sync g 0 n m
    = Some (m\<lparr>arg_cells := put_array (tg_task_args g) (map (recv_arg ri chunks cs sync) [0..<n]) (arg_cells m),
        task_cells := put_array (tg_tasks g) (recv_tasks (ri_request_id ri) n (tg_task_args g)) (task_cells m)\<rparr>)"
    by (simp add: recv_tasks_def)
qed (simp_all add: recv_tasks_def)

end
