(* ===== verification/RequestRun.thy ===== *)
theory RequestRun
  imports RequestFacts
begin

text \<open>
  The tasks of a request at work: the synchronisation object after a number of results, and the
  state of the devices after a number of tasks, each in the order of the chunks.
\<close>

section \<open>Results\<close>

definition mark_sync :: "bool \<Rightarrow> task_sync \<Rightarrow> task_sync" where
  "mark_sync ok s =
     (if \<not> ok then s\<lparr>ts_request_completed := 1\<rparr>
      else if ts_completed_tasks s + 1 = ts_total_tasks s
      then s\<lparr>ts_completed_tasks := ts_completed_tasks s + 1, ts_request_completed := 1\<rparr>
      else s\<lparr>ts_completed_tasks := ts_completed_tasks s + 1\<rparr>)"

lemma mark_task_group_completed_eq:
  "sync \<noteq> NULL \<Longrightarrow> syncs m sync = Some s \<Longrightarrow> mark_task_group_completed sync ok m
     = Some (m\<lparr>syncs := (syncs m)(sync \<mapsto> mark_sync ok s)\<rparr>)"
  by (simp add: mark_task_group_completed_def mark_sync_def Let_def)

fun after_results :: "int list \<Rightarrow> task_sync \<Rightarrow> task_sync" where
  "after_results [] s = s"
| "after_results (r # rs) s = after_results rs (mark_sync (r = 0) s)"

lemma after_results_snoc: "after_results (rs @ [r]) s = mark_sync (r = 0) (after_results rs s)"
  by (induction rs arbitrary: s) simp_all

definition failed :: "int list \<Rightarrow> bool" where
  "failed rs \<longleftrightarrow> (\<exists>r \<in> set rs. r \<noteq> 0)"

text \<open>The object in closed form: it counts the successes, and knows of every failure.\<close>

lemma after_results_closed:
  assumes "length rs \<le> n" "n < 2 ^ 32" "ts_request_completed s = 0" "ts_completed_tasks s = 0"
    and "ts_total_tasks s = of_nat n"
  shows "after_results rs s = s\<lparr>
     ts_completed_tasks := of_nat (length (filter (\<lambda>r. r = 0) rs)),
     ts_request_completed := if failed rs \<or> rs \<noteq> [] \<and> length rs = n then 1 else 0\<rparr>"
  using assms(1)
proof (induction rs rule: rev_induct)
  case Nil
  with assms(3,4) show ?case by (simp add: failed_def)
next
  case (snoc r rs)
  let ?k = "length (filter (\<lambda>r. r = 0) rs)"
  have k: "?k \<le> length rs" by (rule length_filter_le)
  have full: "?k = length rs \<longleftrightarrow> \<not> failed rs"
    by (metis (mono_tags, lifting) failed_def filter_True filter_id_conv length_filter_less less_irrefl)
  have last: "(of_nat ?k + 1 :: u64) = of_nat n \<longleftrightarrow> Suc ?k = n"
  proof -
    have "n < 4294967296" using assms(2) by simp
    then have "Suc ?k < 18446744073709551616" using k snoc.prems by (simp only: length_append)
    then show ?thesis using of_nat_u64_eq [of "Suc ?k" n] assms(2) by (simp add: add.commute)
  qed
  have fin: "Suc ?k = n \<longleftrightarrow> \<not> failed rs \<and> Suc (length rs) = n"
  proof -
    have "Suc (length rs) \<le> n" using snoc.prems by simp
    with k have "Suc ?k = n \<longleftrightarrow> ?k = length rs \<and> Suc (length rs) = n" by linarith
    with full show ?thesis by simp
  qed
  have IH: "after_results rs s = s\<lparr>ts_completed_tasks := of_nat ?k,
     ts_request_completed := if failed rs \<or> rs \<noteq> [] \<and> length rs = n then 1 else 0\<rparr>"
    using snoc by simp
  have nl: "length rs \<noteq> n" using snoc.prems by simp
  show ?case
    unfolding after_results_snoc IH
    using last fin assms(5) nl
    by (cases "r = 0"; cases "Suc ?k = n") (auto simp: mark_sync_def failed_def add.commute)
qed

text \<open>What waiting for a request of n tasks finds after the results rs.\<close>

definition wait_result :: "nat \<Rightarrow> int list \<Rightarrow> u32 waiting" where
  "wait_result n rs =
     (if failed rs then Returned minus_one32 else if length rs = n then Returned 0 else Waiting)"

lemma wait_after_results:
  assumes "length rs \<le> n" "0 < n" "n < 2 ^ 32" "sync \<noteq> NULL"
    and "syncs m sync = Some (after_results rs (request_sync (of_nat n) g c))"
  shows "wait_for_task_complete sync m = Some (wait_result n rs)"
proof -
  let ?k = "length (filter (\<lambda>r. r = 0) rs)"
  have k: "?k \<le> length rs" by (rule length_filter_le)
  have "?k = n \<longleftrightarrow> \<not> failed rs \<and> length rs = n"
    using k assms(1) unfolding failed_def
    by (metis (mono_tags, lifting) filter_True filter_id_conv le_antisym length_filter_less less_irrefl)
  moreover have "(of_nat ?k :: u64) = of_nat n \<longleftrightarrow> ?k = n"
  proof -
    have "n < 4294967296" using assms(3) by simp
    then have "?k < 18446744073709551616" using k assms(1) by linarith
    then show ?thesis using assms(3) by (intro of_nat_u64_eq) simp_all
  qed
  moreover have "after_results rs (request_sync (of_nat n) g c) = (request_sync (of_nat n) g c)\<lparr>
     ts_completed_tasks := of_nat ?k,
     ts_request_completed := if failed rs \<or> rs \<noteq> [] \<and> length rs = n then 1 else 0\<rparr>"
    by (rule after_results_closed) (use assms(1,3) in \<open>simp_all add: request_sync_def\<close>)
  ultimately show ?thesis
    using assms(2,4,5) by (auto simp: wait_for_task_complete_def wait_result_def request_sync_def)
qed

section \<open>Tasks at work\<close>

text \<open>A list of actions on the devices: their status codes and the state after them.\<close>

fun seq :: "('x \<Rightarrow> int \<times> 'x) list \<Rightarrow> 'x \<Rightarrow> int list \<times> 'x" where
  "seq [] x = ([], x)"
| "seq (f # fs) x = (let (r, x1) = f x; (rs, x2) = seq fs x1 in (r # rs, x2))"

lemma length_seq: "length (fst (seq fs x)) = length fs"
  by (induction fs arbitrary: x) (simp_all add: split_def Let_def)

text \<open>Task t is the action f on the devices, and reports its status to the object at sync.\<close>

definition task_does :: "'x ext \<Rightarrow> tmem \<Rightarrow> ptr \<Rightarrow> atask \<Rightarrow> ('x \<Rightarrow> int \<times> 'x) \<Rightarrow> bool" where
  "task_does e m sync t f \<longleftrightarrow> (\<forall>s x. a_run_task (transport_env e) t (m\<lparr>syncs := (syncs m)(sync \<mapsto> s)\<rparr>, x)
     = Some (m\<lparr>syncs := (syncs m)(sync \<mapsto> mark_sync (fst (f x) = 0) s)\<rparr>, snd (f x)))"

lemma tasks_do:
  assumes "list_all2 (task_does e m sync) ts fs"
  shows "a_run_tasks (transport_env e) ts (m\<lparr>syncs := (syncs m)(sync \<mapsto> s)\<rparr>, x)
    = Some (m\<lparr>syncs := (syncs m)(sync \<mapsto> after_results (fst (seq fs x)) s)\<rparr>, snd (seq fs x))"
  using assms
proof (induction ts fs arbitrary: s x rule: list_all2_induct)
  case (Cons t ts f fs)
  from Cons.hyps(1) have "a_run_task (transport_env e) t (m\<lparr>syncs := (syncs m)(sync \<mapsto> s)\<rparr>, x)
     = Some (m\<lparr>syncs := (syncs m)(sync \<mapsto> mark_sync (fst (f x) = 0) s)\<rparr>, snd (f x))"
    by (simp add: task_does_def)
  then have "a_run_tasks (transport_env e) (t # ts) (m\<lparr>syncs := (syncs m)(sync \<mapsto> s)\<rparr>, x)
      = a_run_tasks (transport_env e) ts
          (m\<lparr>syncs := (syncs m)(sync \<mapsto> mark_sync (fst (f x) = 0) s)\<rparr>, snd (f x))" by simp
  also note Cons.IH
  finally show ?case by (simp add: split_def Let_def fun_upd_def)
qed simp

text \<open>The actions of the tasks of a send and of a receive, chunk by chunk.\<close>

definition send_action :: "'x ext \<Rightarrow> urma_write_info \<Rightarrow> ptr \<Rightarrow> chunk_info list \<Rightarrow> nat \<Rightarrow> 'x \<Rightarrow> int \<times> 'x" where
  "send_action e wi chunks cs i = urma_write_with_notify e
     (sa_write_info (construct_send_task_arg wi (chunks + Suc i) (cs ! Suc i) (of_nat (Suc i))
        (Suc (Suc i) = length cs) NULL)) (cs ! Suc i)"

definition recv_action :: "'x ext \<Rightarrow> urma_recv_info \<Rightarrow> chunk_info list \<Rightarrow> nat \<Rightarrow> 'x \<Rightarrow> int \<times> 'x" where
  "recv_action e ri cs i x =
     (let d = ri_device_info ri; ck = cs ! i;
          (r, x1) = cudaMemcpyAsync e (ck_dst ck) (ck_src ck) (ck_len ck) (od_stream d) x
      in (r, if Suc i = length cs then cudaEventRecord e (od_event d) (od_stream d) x1 else x1))"

lemma send_task_does:
  assumes r: "registered m sync s (send_tasks key n (brk m + 2 + n)) (map (send_arg wi chunks cs sync) [0..<n]) m1"
    and ck: "\<forall>j < length cs. chunk_cells m (chunks + j) = Some (cs ! j)"
    and n: "Suc n = length cs" "i < n" "0 < brk m"
  shows "task_does e m1 sync (new_atask k q (task_func (send_tasks key n (brk m + 2 + n) ! i))
    (task_arg (send_tasks key n (brk m + 2 + n) ! i)) NULL NULL) (send_action e wi chunks cs i)"
proof -
  note d = registeredD [OF r]
  have t: "task_func (send_tasks key n (brk m + 2 + n) ! i) = send_task_worker_func_fn"
    "task_arg (send_tasks key n (brk m + 2 + n) ! i) = brk m + 2 + n + i"
    using n(2) by (simp_all add: send_tasks_def group_task_def construct_worker_task_def)
  have len: "length (send_tasks key n (brk m + 2 + n)) = n" by (simp add: send_tasks_def)
  have a: "arg_cells m1 (brk m + 2 + n + i) = Some (send_arg wi chunks cs sync i)"
    using d(2,11) len n(2) put_array_nth [of i "map (send_arg wi chunks cs sync) [0..<n]"
        "brk m + 2 + n" "arg_cells m"] by simp
  have c: "chunk_cells m1 (chunks + Suc i) = Some (cs ! Suc i)"
    using ck [rule_format, of "Suc i"] n d(9) by simp
  show ?thesis
    unfolding task_does_def
    using t a c d(2) n(3)
    by (simp add: a_run_task_def transport_env_def new_atask_def send_task_worker_func_def send_arg_def
        do_send_chunk_for_worker_def construct_send_task_arg_def send_action_def
        mark_task_group_completed_eq call_cb_def Let_def split_def)
qed

lemma recv_task_does:
  assumes r: "registered m sync s (recv_tasks (ri_request_id ri) n (brk m + 2 + n))
      (map (recv_arg ri chunks cs sync) [0..<n]) m1"
    and ck: "\<forall>j < length cs. chunk_cells m (chunks + j) = Some (cs ! j)"
    and n: "n = length cs" "i < n" "0 < brk m"
  shows "task_does e m1 sync (new_atask k q (task_func (recv_tasks (ri_request_id ri) n (brk m + 2 + n) ! i))
    (task_arg (recv_tasks (ri_request_id ri) n (brk m + 2 + n) ! i)) NULL NULL) (recv_action e ri cs i)"
proof -
  note d = registeredD [OF r]
  have t: "task_func (recv_tasks (ri_request_id ri) n (brk m + 2 + n) ! i) = recv_task_worker_func_fn"
    "task_arg (recv_tasks (ri_request_id ri) n (brk m + 2 + n) ! i) = brk m + 2 + n + i"
    using n(2) by (simp_all add: recv_tasks_def group_task_def construct_worker_task_def)
  have len: "length (recv_tasks (ri_request_id ri) n (brk m + 2 + n)) = n" by (simp add: recv_tasks_def)
  have a: "arg_cells m1 (brk m + 2 + n + i) = Some (recv_arg ri chunks cs sync i)"
    using d(2,11) len n(2) put_array_nth [of i "map (recv_arg ri chunks cs sync) [0..<n]"
        "brk m + 2 + n" "arg_cells m"] by simp
  have c: "chunk_cells m1 (chunks + i) = Some (cs ! i)"
    using ck [rule_format, of i] n d(9) by simp
  show ?thesis
    unfolding task_does_def
    using t a c d(2) n(3)
    by (simp add: a_run_task_def transport_env_def new_atask_def recv_task_worker_func_def recv_arg_def
        do_recv_chunk_for_worker_def construct_recv_task_arg_def recv_action_def
        mark_task_group_completed_eq call_cb_def Let_def split_def)
qed

text \<open>The posts of the workers for the chunks after the first, and the copies of a receive.\<close>

definition send_posts :: "'x ext \<Rightarrow> urma_write_info \<Rightarrow> chunk_info list \<Rightarrow> ('x \<Rightarrow> int \<times> 'x) list" where
  "send_posts e wi cs = map (send_action e wi NULL cs) [0..<length cs - 1]"

definition recv_copies :: "'x ext \<Rightarrow> urma_recv_info \<Rightarrow> chunk_info list \<Rightarrow> ('x \<Rightarrow> int \<times> 'x) list" where
  "recv_copies e ri cs = map (recv_action e ri cs) [0..<length cs]"

lemma send_action_chunks: "send_action e wi chunks cs i = send_action e wi NULL cs i"
  by (simp add: send_action_def construct_send_task_arg_def Let_def)

lemma batch_tasks_nth:
  "i < length ts \<Longrightarrow> batch_tasks ts k cb data ! i =
     new_atask (k + of_nat i) (request_id (hd ts)) (task_func (ts ! i)) (task_arg (ts ! i)) cb data"
  by (simp add: batch_tasks_def)

lemma length_send_tasks: "length (send_tasks key n args) = n" by (simp add: send_tasks_def)

lemma length_recv_tasks: "length (recv_tasks key n args) = n" by (simp add: recv_tasks_def)

lemma send_tasks_do:
  assumes r: "registered m sync s (send_tasks key n (brk m + 2 + n)) (map (send_arg wi chunks cs sync) [0..<n]) m1"
    and ck: "\<forall>j < length cs. chunk_cells m (chunks + j) = Some (cs ! j)" and n: "Suc n = length cs" "0 < brk m"
  shows "list_all2 (task_does e m1 sync) (batch_tasks (send_tasks key n (brk m + 2 + n)) k NULL NULL)
    (send_posts e wi cs)"
proof (rule list_all2_all_nthI)
  show "length (batch_tasks (send_tasks key n (brk m + 2 + n)) k NULL NULL) = length (send_posts e wi cs)"
    using n(1) by (simp add: batch_tasks_def send_tasks_def send_posts_def)
  fix i assume "i < length (batch_tasks (send_tasks key n (brk m + 2 + n)) k NULL NULL)"
  then have "i < n" by (simp add: batch_tasks_def send_tasks_def)
  then have "send_posts e wi cs ! i = send_action e wi chunks cs i"
    using n(1) send_action_chunks [of e wi chunks cs i] by (auto simp: send_posts_def)
  with send_task_does [OF r ck n(1) \<open>i < n\<close> n(2)] batch_tasks_nth [of i "send_tasks key n (brk m + 2 + n)"] \<open>i < n\<close>
  show "task_does e m1 sync (batch_tasks (send_tasks key n (brk m + 2 + n)) k NULL NULL ! i) (send_posts e wi cs ! i)"
    by (simp only: length_send_tasks)
qed

lemma recv_tasks_do:
  assumes r: "registered m sync s (recv_tasks (ri_request_id ri) n (brk m + 2 + n))
      (map (recv_arg ri chunks cs sync) [0..<n]) m1"
    and ck: "\<forall>j < length cs. chunk_cells m (chunks + j) = Some (cs ! j)" and n: "n = length cs" "0 < brk m"
  shows "list_all2 (task_does e m1 sync) (batch_tasks (recv_tasks (ri_request_id ri) n (brk m + 2 + n)) k NULL NULL)
    (recv_copies e ri cs)"
proof (rule list_all2_all_nthI)
  show "length (batch_tasks (recv_tasks (ri_request_id ri) n (brk m + 2 + n)) k NULL NULL)
      = length (recv_copies e ri cs)"
    using n(1) by (simp add: batch_tasks_def recv_tasks_def recv_copies_def)
  fix i assume "i < length (batch_tasks (recv_tasks (ri_request_id ri) n (brk m + 2 + n)) k NULL NULL)"
  then have "i < n" by (simp add: batch_tasks_def recv_tasks_def)
  then have "recv_copies e ri cs ! i = recv_action e ri cs i" using n(1) by (simp add: recv_copies_def)
  with recv_task_does [OF r ck n(1) \<open>i < n\<close> n(2)] \<open>i < n\<close>
    batch_tasks_nth [of i "recv_tasks (ri_request_id ri) n (brk m + 2 + n)"]
  show "task_does e m1 sync (batch_tasks (recv_tasks (ri_request_id ri) n (brk m + 2 + n)) k NULL NULL ! i)
      (recv_copies e ri cs ! i)"
    by (simp only: length_recv_tasks)
qed

end
