(* ===== verification/TransportRun.thy ===== *)
theory TransportRun
  imports Transport RequestRun
begin

text \<open>
  Runs of the transport: the calls of its API, the completions the application hands to it, and
  the turns of its workers, as labels; and the life of a request from its registration to
  \<open>wait_and_free_sync\<close>.
\<close>

section \<open>Operations of the transport\<close>

datatype ost_op =
    Init "nat \<Rightarrow> int \<times> u64" bool ptr "os_transport_cfg option"
  | Reg_jfc ptr ptr ptr
  | Send ptr "urma_jetty_info option" "ost_buffer_info option" "ost_buffer_info option" u32 u32 u32
  | Recv ptr "ost_buffer_info option" "ost_device_info option" u32 u32
  | Completion ptr urma_cr
  | Work ptr nat
  | Wait ptr ptr
  | Destroy ptr

datatype ost_val = Code_val u32 ptr | Int_code int | Wait_val "u32 waiting" | Worked

fun ost_do :: "'x ext \<Rightarrow> ost_op \<Rightarrow> 'x ost \<Rightarrow> (ost_val \<times> 'x ost) option" where
  "ost_do e (Init pc ok ctx cfg) st =
     map_option (\<lambda>((v, h), st'). (Code_val v h, st')) (os_transport_init e pc ok ctx cfg True st)"
| "ost_do e (Reg_jfc jfce jfc h) st =
     map_option (\<lambda>(v, st'). (Code_val v NULL, st')) (os_transport_reg_jfc jfce jfc h st)"
| "ost_do e (Send h ji l r len sk ck) st =
     map_option (\<lambda>((v, s), st'). (Code_val v s, st')) (os_transport_send e h ji l r len sk ck True st)"
| "ost_do e (Recv h l d len ck) st =
     map_option (\<lambda>((v, s), st'). (Code_val v s, st')) (os_transport_recv e h l d len ck True st)"
| "ost_do e (Completion h cr) st =
     map_option (\<lambda>(v, st'). (Int_code v, st')) (os_transport_wake_up_task h cr st)"
| "ost_do e (Work h i) st =
     (if i < NUM_WORKERS then map_option (\<lambda>st'. (Worked, st')) (os_worker_turn e h i st)
      else Some (Worked, st))"
| "ost_do e (Wait h s) st =
     map_option (\<lambda>(v, st'). (Wait_val v, st')) (wait_and_free_sync h s st)"
| "ost_do e (Destroy h) st =
     map_option (\<lambda>(v, st'). (Code_val v NULL, st')) (os_transport_destroy e h st)"

section \<open>Runs on the pool of a handle\<close>

definition with_pool :: "ptr \<Rightarrow> os_transport_handle \<Rightarrow> pool \<Rightarrow> tmem \<Rightarrow> 'x \<Rightarrow> 'x ost \<Rightarrow> 'x ost" where
  "with_pool h oh p m x st =
     st\<lparr>handles := (handles st)(h \<mapsto> oh\<lparr>oh_thread_pool := Some p\<rparr>), theap := m, dev := x\<rparr>"

lemma with_pool_simps [simp]:
  "handles (with_pool h oh p m x st) h = Some (oh\<lparr>oh_thread_pool := Some p\<rparr>)"
  "theap (with_pool h oh p m x st) = m" "dev (with_pool h oh p m x st) = x"
  "g_inited (with_pool h oh p m x st) = g_inited st" "pheap (with_pool h oh p m x st) = pheap st"
  "get_pool h (with_pool h oh p m x st) = Some p"
  "set_pool h (Some p') (with_pool h oh p m x st) = Some (with_pool h oh p' m x st)"
  "(with_pool h oh p m x st)\<lparr>theap := m'\<rparr> = with_pool h oh p m' x st"
  "(with_pool h oh p m x st)\<lparr>dev := x'\<rparr> = with_pool h oh p m x' st"
  "with_pool h (oh\<lparr>oh_thread_pool := v\<rparr>) p' m' x' (with_pool h oh p m x st) = with_pool h oh p' m' x' st"
  by (simp_all add: with_pool_def get_pool_def set_pool_def)

lemma with_pool_self:
  "handles st h = Some oh \<Longrightarrow> oh_thread_pool oh = Some p \<Longrightarrow> with_pool h oh p (theap st) (dev st) st = st"
  by (simp add: with_pool_def fun_upd_idem)

lemma wake_on_pool:
  assumes "cr_request_id cr = Some q"
  shows "os_transport_wake_up_task h cr (with_pool h oh p m x st) =
    map_option (\<lambda>(v, p'). (v, with_pool h oh p' m x st)) (thread_pool_wake_up_worker_by_req_id p q)"
  using assms by (cases "thread_pool_wake_up_worker_by_req_id p q")
    (auto simp: os_transport_wake_up_task_def)

lemma turn_on_pool:
  "os_worker_turn e h i (with_pool h oh p m x st) =
    map_option (\<lambda>(p', m', x'). with_pool h oh p' m' x' st) (worker_turn (transport_env e) i (p, m, x))"
proof -
  have "set_pool h (Some p') ((with_pool h oh p m x st)\<lparr>theap := m', dev := x'\<rparr>)
      = Some (with_pool h oh p' m' x' st)" for p' m' x' by simp
  then show ?thesis
    by (cases "worker_turn (transport_env e) i (p, m, x)") (auto simp: os_worker_turn_def)
qed

text \<open>Completions of one request, each followed by a turn of the worker of the request.\<close>

definition work_off :: "ptr \<Rightarrow> nat \<Rightarrow> urma_cr list \<Rightarrow> ost_op list" where
  "work_off h i crs = concat (map (\<lambda>cr. [Completion h cr, Work h i]) crs)"

lemma work_off_on_pool:
  assumes "\<forall>cr \<in> set crs. cr_request_id cr = Some q" "i < NUM_WORKERS"
    and "run (pool_do (transport_env e)) (concat (replicate (length crs) [Wake q, Turn i])) (p, m, x)
      = Some (vs, p', m', x')"
  shows "\<exists>vs'. run (ost_do e) (work_off h i crs) (with_pool h oh p m x st)
    = Some (vs', with_pool h oh p' m' x' st)"
  using assms
proof (induction crs arbitrary: p m x vs)
  case (Cons cr crs)
  obtain v p1 where 1: "thread_pool_wake_up_worker_by_req_id p q = Some (v, p1)"
    using Cons.prems(3) by (auto split: Option.bind_splits)
  obtain p2 m2 x2 where 2: "worker_turn (transport_env e) i (p1, m, x) = Some (p2, m2, x2)"
    using Cons.prems(2,3) 1 by (auto split: Option.bind_splits)
  obtain us where "run (pool_do (transport_env e)) (concat (replicate (length crs) [Wake q, Turn i]))
      (p2, m2, x2) = Some (us, p', m', x')"
    using Cons.prems(2,3) 1 2 by (auto split: Option.bind_splits)
  from Cons.IH [OF _ Cons.prems(2) this] Cons.prems(1) obtain ws where
    "run (ost_do e) (work_off h i crs) (with_pool h oh p2 m2 x2 st)
      = Some (ws, with_pool h oh p' m' x' st)" by auto
  with Cons.prems(1,2) 1 2 show ?case
    by (simp add: work_off_def wake_on_pool turn_on_pool)
qed (simp add: work_off_def)

section \<open>The life of a request\<close>

text \<open>
  What a request leaves alone in the pool: the workers, the arrays of ids, whether the pool runs
  and how its allocator behaves; and no worker without a pending request gets one.
\<close>

definition kept :: "apool \<Rightarrow> apool \<Rightarrow> bool" where
  "kept a a' \<longleftrightarrow> a_states a' = a_states a \<and> a_tids a' = a_tids a \<and> a_arrays a' = a_arrays a \<and>
     a_running a' = a_running a \<and> malloc_ok a' = malloc_ok a \<and>
     (\<forall>k. a_pend a ! k = 0 \<longrightarrow> a_pend a' ! k = 0)"

lemma kept_trans: "kept a a1 \<Longrightarrow> kept a1 a2 \<Longrightarrow> kept a a2"
  by (simp add: kept_def)

lemma kept_cancel: "a_cancel q a = (v, a') \<Longrightarrow> kept a a'"
  by (auto simp: a_cancel_def a_set_pending_def kept_def Let_def split: if_splits option.splits)

lemma nth_update_same: "xs ! k = z \<Longrightarrow> xs[i := z] ! k = z"
  by (cases "i = k"; cases "i < length xs") (simp_all add: list_update_beyond)

lemma kept_rounds: "kept a (after_rounds q i c ts j a)"
  by (simp add: after_rounds_def kept_def nth_update_same)

text \<open>Cancelling what is left of a request empties its worker's queue and drops its context.\<close>

lemma cancel_rest:
  assumes "a_cancel q a = (v, a3)" "a_running a" "i < length (a_queues a)"
    and "a_queues a ! i = rest" "\<forall>t \<in> set rest. at_req t = q" "length rest < 2 ^ 32"
    and "rest = [] \<and> a_ctx a q = None \<or>
      rest \<noteq> [] \<and> (\<exists>c. a_ctx a q = Some c \<and> ac_worker c = i \<and> ac_pending c = of_nat (length rest))"
  shows "a_queues a3 = (a_queues a)[i := []] \<and> a_ctx a3 = (a_ctx a)(q := None)"
proof (cases "rest = []")
  case True
  then have "(a_queues a)[i := []] = a_queues a" using assms(4) list_update_id [of "a_queues a" i] by simp
  then show ?thesis using assms(1,2,7) True by (auto simp: a_cancel_def)
next
  case False
  then obtain c where c: "a_ctx a q = Some c" "ac_worker c = i" "ac_pending c = of_nat (length rest)"
    using assms(7) by auto
  have f: "filter (\<lambda>t. at_req t = q) rest = rest" "filter (\<lambda>t. at_req t \<noteq> q) rest = []"
    using assms(5) by (auto simp: filter_id_conv filter_empty_conv)
  have "unat (of_nat (length rest) :: u32) = length rest" using assms(6) by (simp add: unat_of_nat)
  then have "0 < (of_nat (length rest) :: u32)" using False by (simp add: word_less_nat_alt)
  then show ?thesis
    using assms(1,2,4) c f by (auto simp: a_cancel_def a_set_pending_def Let_def)
qed

lemma wait_failed:
  assumes h: "h \<noteq> NULL" and sync: "sync \<noteq> NULL"
    and m: "tm_ok m" "blocks m ck = Some k" "ck \<noteq> NULL"
    and reg: "registered m sync s tts as m2" "tts \<noteq> []" "request_id (hd tts) = q"
    and s: "ts_task_group s = Suc sync" "ts_chunks s = ck"
    and w: "wait_for_task_complete sync m2 = Some (Returned r)" "r \<noteq> 0"
    and p: "pool_rel p a" "a_running a" "i < length (a_queues a)"
    and q: "a_queues a ! i = rest" "\<forall>t \<in> set rest. at_req t = q" "length rest < 2 ^ 32"
      "rest = [] \<and> a_ctx a q = None \<or>
       rest \<noteq> [] \<and> (\<exists>c. a_ctx a q = Some c \<and> ac_worker c = i \<and> ac_pending c = of_nat (length rest))"
  obtains m3 p3 a3 where
    "wait_and_free_sync h sync (with_pool h oh p m2 x st) = Some (Returned r, with_pool h oh p3 m3 x st)"
    "without_block ck m m3" "pool_rel p3 a3" "a_queues a3 = (a_queues a)[i := []]"
    "a_ctx a3 = (a_ctx a)(q := None)" "kept a a3"
proof -
  note d = registeredD [OF reg(1)]
  obtain m3 where m3: "free_sync_owned_resources sync m2 = Some m3" "without_block ck m m3"
    by (rule release_request [OF m(1) reg(1,2) s m(2,3)])
  obtain v a3 where a3: "a_cancel q a = (v, a3)" by (cases "a_cancel q a")
  from cancel_refine [OF p(1), of q] a3 obtain p3 where p3:
    "thread_pool_cancel_tasks_by_req p q = Some (v, p3)" "pool_rel p3 a3"
    by (auto simp: option_rel_Some2)
  have "groups m2 (Suc sync) = Some \<lparr>tg_tasks = sync + 2, tg_task_args = sync + 2 + length tts,
      tg_task_num = of_nat (length tts)\<rparr>" using d(7) by simp
  moreover have "task_cells m2 (sync + 2) = Some (hd tts)"
    using d(10) put_array_nth [of 0 tts "sync + 2" "task_cells m"] reg(2) by (simp add: hd_conv_nth)
  moreover have "syncs m2 sync = Some s" using d(6) by simp
  ultimately have "wait_and_free_sync h sync (with_pool h oh p m2 x st)
      = Some (Returned r, with_pool h oh p3 m3 x st)"
    using h sync s w m3(1) p3(1) reg(3) by (simp add: wait_and_free_sync_def)
  then show thesis using m3(2) p3(2) cancel_rest [OF a3 p(2,3) q] kept_cancel [OF a3] by (intro that) auto
qed

text \<open>
  A request whose tasks are queued.  After as many completions as it likes (each one followed by a
  turn of the worker), the devices have seen the actions of that many tasks in order, and waiting
  returns what their statuses say; once it returns, all objects of the request are gone.
\<close>

lemma request_outcome:
  fixes st :: "'x ost" and fs :: "('x \<Rightarrow> int \<times> 'x) list"
  assumes h: "h \<noteq> NULL" "handles st h = Some oh" "oh_thread_pool oh = Some p"
    and p: "pool_rel p a" "a_running a"
    and i: "i < NUM_WORKERS" "a_states a ! i = WORKER_STATE_IDLE"
    and ts: "a_queues a ! i = ts" "\<forall>t \<in> set ts. at_req t = q" "q \<noteq> 0"
    and c: "a_ctx a q = Some c" "ac_worker c = i" "unat (ac_pending c) = length ts" "ac_cb c = NULL"
    and m: "tm_ok m" "blocks m ck = Some k" "ck \<noteq> NULL"
    and reg: "registered m sync (request_sync (of_nat n) (Suc sync) ck) tts as (theap st)"
    and n: "length tts = n" "length ts = n" "0 < n" "n < 2 ^ 32" "request_id (hd tts) = q"
    and fs: "list_all2 (task_does e (theap st) sync) ts fs"
    and crs: "length crs \<le> n" "\<forall>cr \<in> set crs. cr_request_id cr = Some q"
    and rs: "seq (take (length crs) fs) (dev st) = (rs, x2)"
  obtains vs st2 st3 where "run (ost_do e) (work_off h i crs) st = Some (vs, st2)" "dev st2 = x2"
    "wait_and_free_sync h sync st2 = Some (wait_result n rs, st3)" "dev st3 = x2"
    "wait_result n rs = Waiting \<Longrightarrow> st3 = st2"
    "wait_result n rs \<noteq> Waiting \<Longrightarrow> without_block ck m (theap st3) \<and> (\<exists>p3 a3. st3 = with_pool h oh p3 (theap st3) x2 st \<and>
       pool_rel p3 a3 \<and> a_queues a3 = (a_queues a)[i := []] \<and> a_ctx a3 = (a_ctx a)(q := None) \<and> kept a a3)"
proof -
  let ?j = "length crs" and ?m1 = "theap st" and ?env = "transport_env e"
  let ?init = "request_sync (of_nat n) (Suc sync) ck"
  note d = registeredD [OF reg]
  have sync: "sync \<noteq> NULL" using tm_okD(1) [OF m(1)] d(2) by simp
  have lr: "length rs = ?j" using rs length_seq [of "take ?j fs" "dev st"] list_all2_lengthD [OF fs] n(2) crs(1)
    by simp
  let ?s = "after_results rs ?init" and ?m2 = "?m1\<lparr>syncs := (syncs ?m1)(sync \<mapsto> after_results rs ?init)\<rparr>"
  have m1: "?m1\<lparr>syncs := (syncs ?m1)(sync \<mapsto> ?init)\<rparr> = ?m1" using d(6) by (simp add: fun_upd_idem)
  have "a_run_tasks ?env (take ?j ts) (?m1\<lparr>syncs := (syncs ?m1)(sync \<mapsto> ?init)\<rparr>, dev st) = Some (?m2, x2)"
    using tasks_do [of e ?m1 sync "take ?j ts" "take ?j fs" ?init "dev st"] fs rs
    by (simp add: list_all2_takeI)
  then have run: "a_run_tasks ?env (take ?j ts) (?m1, dev st) = Some (?m2, x2)" unfolding m1 .
  obtain xss where r: "rel p a xss {} {} {}" using p(1) by (auto simp: pool_rel_def)
  note l = rel_lengths [OF r]
  let ?a2 = "after_rounds q i c ts ?j a"
  have cb: "(if 0 < ?j \<and> ?j = length ts then call_cb ?env (ac_cb c) 0 True (ac_data c) (?m2, x2)
      else Some (?m2, x2)) = Some (?m2, x2)" by (simp add: c(4) call_cb_def)
  have jn: "?j \<le> length ts" using crs(1) n(2) by simp
  have kept: "kept a ?a2" by (rule kept_rounds)
  obtain ws where rounds: "run (a_do ?env) (concat (replicate ?j [Wake q, Turn i])) (a, ?m1, dev st)
      = Some (ws, ?a2, ?m2, x2)"
    using rounds [OF c(1,2) i(1) l(4,3,5) i(2) ts(3,1,2) c(3) jn run cb] by blast
  have "state_rel (p, ?m1, dev st) (a, ?m1, dev st)" using p(1) by (simp add: state_rel_def)
  from pool_sim.run_sim [OF this, of ?env "concat (replicate ?j [Wake q, Turn i])", unfolded rounds option_rel_Some2]
  obtain ps where ps: "run (pool_do ?env) (concat (replicate ?j [Wake q, Turn i])) (p, ?m1, dev st) = Some (ws, ps)"
    "state_rel ps (?a2, ?m2, x2)" by auto
  obtain p2 where p2: "ps = (p2, ?m2, x2)" "pool_rel p2 ?a2" using ps(2) by (cases ps) (auto simp: state_rel_def)
  obtain vs where vs: "run (ost_do e) (work_off h i crs) (with_pool h oh p ?m1 (dev st) st)
      = Some (vs, with_pool h oh p2 ?m2 x2 st)"
    using work_off_on_pool [OF crs(2) i(1) ps(1) [unfolded p2(1)]] by blast
  let ?st2 = "with_pool h oh p2 ?m2 x2 st"
  have run2: "run (ost_do e) (work_off h i crs) st = Some (vs, ?st2)"
    using vs unfolding with_pool_self [OF h(2,3)] .
  have s2: "syncs ?m2 sync = Some ?s" by simp
  have w: "wait_for_task_complete sync ?m2 = Some (wait_result n rs)"
    by (rule wait_after_results [OF _ n(3,4) sync s2]) (use lr crs(1) in simp)
  have "?s = ?init\<lparr>ts_completed_tasks := of_nat (length (filter (\<lambda>r. r = 0) rs)),
     ts_request_completed := if failed rs \<or> rs \<noteq> [] \<and> length rs = n then 1 else 0\<rparr>"
    by (rule after_results_closed) (use lr crs(1) n(4) in \<open>simp_all add: request_sync_def\<close>)
  then have g: "ts_task_group ?s = Suc sync" "ts_chunks ?s = ck" by (simp_all add: request_sync_def)
  have reg2: "registered m sync ?s tts as ?m2" by (rule registered_sync [OF reg])
  obtain m3 where m3: "free_sync_owned_resources sync ?m2 = Some m3" "without_block ck m m3"
    by (rule release_request [OF m(1) reg2 _ g m(2,3)]) (use n in auto)
  show thesis
  proof (cases "wait_result n rs")
    case Waiting
    have "wait_and_free_sync h sync ?st2 = Some (wait_result n rs, ?st2)"
      using h(1) sync g w Waiting by (simp add: wait_and_free_sync_def)
    then show thesis using Waiting run2 by (intro that [of vs ?st2 ?st2]) simp_all
  next
    case (Returned v)
    show thesis
    proof (cases "v = 0")
      case True
      then have j: "?j = n" using Returned lr by (auto simp: wait_result_def split: if_splits)
      have "wait_and_free_sync h sync ?st2 = Some (wait_result n rs, with_pool h oh p2 m3 x2 st)"
        using h(1) sync g w Returned True m3(1) by (simp add: wait_and_free_sync_def)
      moreover have "a_queues ?a2 = (a_queues a)[i := []]" "a_ctx ?a2 = (a_ctx a)(q := None)"
        using j n(2,3) by (simp_all add: after_rounds_def)
      ultimately show thesis using run2 m3(2) p2(2) Returned kept
        by (intro that [of vs ?st2 "with_pool h oh p2 m3 x2 st"]) auto
    next
      case False
      then have "failed rs" using Returned by (auto simp: wait_result_def split: if_splits)
      then have "rs \<noteq> []" by (auto simp: failed_def)
      then have j: "0 < ?j" using lr by auto
      have cn: "ac_pending c = of_nat n" using c(3) n(2,4) by (simp add: word_unat_eq_iff unat_of_nat)
      have a2: "a_running ?a2" "i < length (a_queues ?a2)" "a_queues ?a2 ! i = drop ?j ts"
        "(a_queues ?a2)[i := []] = (a_queues a)[i := []]" "(a_ctx ?a2)(q := None) = (a_ctx a)(q := None)"
        using p(2) j i(1) l(5) by (simp_all add: after_rounds_def)
      have ctx: "drop ?j ts = [] \<and> a_ctx ?a2 q = None \<or> drop ?j ts \<noteq> [] \<and> (\<exists>c. a_ctx ?a2 q = Some c \<and>
          ac_worker c = i \<and> ac_pending c = of_nat (length (drop ?j ts)))"
        using j crs(1) n(2) c(2) cn by (cases "?j = n") (auto simp: after_rounds_def of_nat_diff)
      have "\<forall>t \<in> set (drop ?j ts). at_req t = q" "length (drop ?j ts) < 2 ^ 32" "tts \<noteq> []"
        using ts(2) n by (auto dest: in_set_dropD)
      note rest = this
      obtain m4 p3 a3 where 4: "wait_and_free_sync h sync ?st2 = Some (Returned v, with_pool h oh p3 m4 x2 st)"
        "without_block ck m m4" "pool_rel p3 a3" "a_queues a3 = (a_queues ?a2)[i := []]"
        "a_ctx a3 = (a_ctx ?a2)(q := None)" "kept ?a2 a3"
        by (rule wait_failed [OF h(1) sync m reg2 rest(3) n(5) g w [unfolded Returned] False
              p2(2) a2(1,2,3) rest(1,2) ctx])
      then show thesis using run2 Returned a2(4,5) kept_trans [OF kept 4(6)]
        by (intro that [of vs ?st2 "with_pool h oh p3 m4 x2 st"]) auto
    qed
  qed
qed

section \<open>Registered on an idle worker\<close>

text \<open>A pool that runs, whose allocations succeed, and where the next batch finds worker i idle
  and no tasks of request q.\<close>

definition ready :: "apool \<Rightarrow> nat \<Rightarrow> u32 \<Rightarrow> bool" where
  "ready a i q \<longleftrightarrow> a_running a \<and> (\<forall>n. malloc_ok a n) \<and> a_select a = Some i \<and> a_queues a ! i = [] \<and>
     a_ctx a q = None \<and> q \<noteq> 0"

lemma ready_batch:
  assumes p: "pool_rel p a" and r: "ready a i q" and ts: "\<forall>t \<in> set ts. request_id t = q" "length ts = n"
    and n: "0 < n" "n < 2 ^ 32"
  shows "fst (a_batch ts NULL NULL NULL NULL a) \<noteq> NULL"
    and "a_batch ts NULL NULL NULL NULL a = (v, a1) \<Longrightarrow> a' = a1\<lparr>a_arrays := z\<rparr> \<Longrightarrow>
      a_running a' \<and> i < NUM_WORKERS \<and> a_states a' ! i = WORKER_STATE_IDLE \<and>
      a_queues a' ! i = batch_tasks ts (a_next a) NULL NULL \<and>
      (\<forall>t \<in> set (batch_tasks ts (a_next a) NULL NULL). at_req t = q) \<and>
      (\<exists>c. a_ctx a' q = Some c \<and> ac_worker c = i \<and> unat (ac_pending c) = n \<and> ac_cb c = NULL) \<and>
      (a_queues a')[i := []] = a_queues a \<and> (a_ctx a')(q := None) = a_ctx a \<and> (z = a_arrays a \<longrightarrow> kept a a')"
proof -
  obtain xss where rr: "rel p a xss {} {} {}" using p by (auto simp: pool_rel_def)
  note l = rel_lengths [OF rr]
  have brk: "0 < brk a" using ownsD(6) [OF rel_owns [OF rr]] relD(1) [OF rr] by simp
  have i: "i < NUM_WORKERS" "a_states a ! i = WORKER_STATE_IDLE"
    using a_select_Some [of a i] r by (auto simp: ready_def)
  have ne: "ts \<noteq> []" using ts(2) n(1) by auto
  obtain w b where b: "a_batch ts NULL NULL NULL NULL a = (w, b)" "w \<noteq> NULL" "same_rest a b"
    "a_queues b = (a_queues a)[i := a_queues a ! i @ batch_tasks ts (a_next a) NULL NULL]"
    "a_ctx b = (a_ctx a)(q \<mapsto> \<lparr>ac_worker = i, ac_pending = of_nat (length ts), ac_cb = NULL, ac_data = NULL\<rparr>)"
    by (rule a_batch_ok [of a ts q i NULL NULL NULL NULL]) (use r brk ts ne in \<open>auto simp: ready_def\<close>)
  show "fst (a_batch ts NULL NULL NULL NULL a) \<noteq> NULL" using b(1,2) by simp
  have "\<forall>t \<in> set (batch_tasks ts (a_next a) NULL NULL). at_req t = q"
    using ts(1) ne by (auto simp: batch_tasks_def new_atask_def)
  moreover have "((a_queues a)[i := batch_tasks ts (a_next a) NULL NULL])[i := []] = a_queues a"
    using r list_update_id [of "a_queues a" i] by (simp add: ready_def)
  ultimately show "a_batch ts NULL NULL NULL NULL a = (v, a1) \<Longrightarrow> a' = a1\<lparr>a_arrays := z\<rparr> \<Longrightarrow>
      a_running a' \<and> i < NUM_WORKERS \<and> a_states a' ! i = WORKER_STATE_IDLE \<and>
      a_queues a' ! i = batch_tasks ts (a_next a) NULL NULL \<and>
      (\<forall>t \<in> set (batch_tasks ts (a_next a) NULL NULL). at_req t = q) \<and>
      (\<exists>c. a_ctx a' q = Some c \<and> ac_worker c = i \<and> unat (ac_pending c) = n \<and> ac_cb c = NULL) \<and>
      (a_queues a')[i := []] = a_queues a \<and> (a_ctx a')(q := None) = a_ctx a \<and> (z = a_arrays a \<longrightarrow> kept a a')"
    using malloc_ok_batch [OF b(1)] b i l(5) r ts(2) n(2) by (auto simp: ready_def same_rest_def unat_of_nat fun_upd_idem kept_def)
qed

lemma without_chunks:
  assumes m: "tm_ok m0" and w: "without_block (brk m0) m m'"
    and eq: "m = m0\<lparr>brk := b, calls := c, blocks := (blocks m0)(brk m0 \<mapsto> length cs),
      chunk_cells := put_array (brk m0) cs (chunk_cells m0)\<rparr>" "brk m0 \<le> b"
  shows "same_objs m0 m'"
proof -
  have cells: "put_array (brk m0) cs (chunk_cells m0) |` (- block (brk m0) (length cs)) = chunk_cells m0"
    by (rule restrict_put_array) (use tm_okD(5) [OF m] in \<open>simp add: block_def\<close>)
  have bl: "(blocks m0)(brk m0 := None) = blocks m0" using tm_okD(4) [OF m] by (simp add: fun_upd_idem)
  from w have "brk m0 \<le> brk m'" "malloc_ok m' = malloc_ok m0" "init_ret m' = init_ret m0"
    "syncs m' = syncs m0" "groups m' = groups m0" "blocks m' = blocks m0" "chunk_cells m' = chunk_cells m0"
    "task_cells m' = task_cells m0" "arg_cells m' = arg_cells m0"
    using eq(2) cells bl restrict_fresh [OF m, of "brk m0" "length cs"]
    unfolding without_block_def eq(1) by auto
  then show ?thesis unfolding same_objs_def by (cases m0; cases m') simp
qed

section \<open>Starting a transfer\<close>

text \<open>A handle in use, its pool, and a heap with nothing beyond its frontier.\<close>

definition handle_with :: "ptr \<Rightarrow> pool \<Rightarrow> apool \<Rightarrow> 'x ost \<Rightarrow> bool" where
  "handle_with h p a st \<longleftrightarrow> h \<noteq> NULL \<and> g_inited st \<and> get_pool h st = Some p \<and> pool_rel p a \<and>
     tm_ok (theap st)"

lemma handle_withD:
  assumes "handle_with h p a st"
  obtains oh where "h \<noteq> NULL" "g_inited st" "handles st h = Some oh" "oh_thread_pool oh = Some p"
    "pool_rel p a" "tm_ok (theap st)"
  using assms by (auto simp: handle_with_def get_pool_def split: Option.bind_splits)

text \<open>The heap once the chunks of a request have been allocated.\<close>

definition chunks_heap :: "chunk_info list \<Rightarrow> tmem \<Rightarrow> tmem" where
  "chunks_heap cs m = m\<lparr>brk := brk m + length cs, calls := Suc (calls m),
     blocks := (blocks m)(brk m \<mapsto> length cs),
     chunk_cells := put_array (brk m) cs (chunk_cells m)\<rparr>"

lemma chunks_heap_facts:
  assumes "tm_ok m" "cs \<noteq> []"
  shows "tm_ok (chunks_heap cs m)" "blocks (chunks_heap cs m) (brk m) = Some (length cs)"
    "\<forall>j < length cs. chunk_cells (chunks_heap cs m) (brk m + j) = Some (cs ! j)"
    "env_ok (chunks_heap cs m) = env_ok m"
proof -
  show "tm_ok (chunks_heap cs m)"
    using assms by (auto simp: tm_ok_def chunks_heap_def put_array_def)
qed (simp_all add: chunks_heap_def put_array_nth env_ok_def)

lemma chunks_heap_gone:
  "tm_ok m \<Longrightarrow> without_block (brk m) (chunks_heap cs m) m' \<Longrightarrow> same_objs m m'"
  by (rule without_chunks [where b = "brk m + length cs" and c = "Suc (calls m)" and cs = cs])
    (simp_all add: chunks_heap_def)

lemma free_chunks:
  assumes m: "tm_ok m" and s: "same_objs (chunks_heap cs m) m1"
  obtains m2 where "free_block (brk m) m1 = Some m2" "same_objs m m2"
proof -
  note d = same_objsD [OF s]
  have b: "blocks m1 (brk m) = Some (length cs)" "brk m \<noteq> NULL"
    using d(5) tm_okD(1) [OF m] by (simp_all add: chunks_heap_def)
  then obtain m2 where m2: "free_block (brk m) m1 = Some m2" by (simp add: free_block_def)
  have "m2 = m1\<lparr>blocks := (blocks m1)(brk m := None),
      chunk_cells := chunk_cells m1 |` (- block (brk m) (length cs)),
      task_cells := task_cells m1 |` (- block (brk m) (length cs)),
      arg_cells := arg_cells m1 |` (- block (brk m) (length cs))\<rparr>"
    using m2 b by (simp add: free_block_def)
  then have "without_block (brk m) (chunks_heap cs m) m2"
    using d b unfolding without_block_def by (intro exI [of _ "length cs"]) (simp add: chunks_heap_def)
  from m2 chunks_heap_gone [OF m this] show thesis by (rule that)
qed

lemma chunk_list_nonempty: "len \<noteq> 0 \<Longrightarrow> chunk_list s d len \<noteq> []"
  by (metis chunk_count_pos length_chunk_list length_greater_0_conv)

text \<open>
  Cutting into chunks and registering on the handle, as both directions do it: the transfer is
  refused and everything is as it was, or its request is live and its tasks are queued.
\<close>

lemma register_on_handle_cases:
  assumes h: "handles st h = Some oh" "oh_thread_pool oh = Some p" and p: "pool_rel p a"
    and m: "tm_ok m" "theap st = chunks_heap cs m" "cs \<noteq> []"
    and n: "n = unat task_num" "0 < n" "n < 2 ^ 32" "chunk_num \<noteq> 0"
    and reg: "\<And>sync m'. register_by_type (brk m) chunk_num kd func ui sync (p, m')
      = register_group (fill sync) task_num sync (p, m')"
    and fill: "fills (fill (brk m + length cs)) (chunk_cells (theap st)) n TS as"
  obtains (refused) p1 a1 m1 where
      "register_on_handle h (brk m) chunk_num kd func ui st = Some (NULL, with_pool h oh p1 m1 (dev st) st)"
      "pool_rel p1 a1" "pool_same a a1" "same_objs m m1"
      "env_ok m \<Longrightarrow> \<exists>x. fst (a_batch (TS x) NULL NULL NULL NULL a) = NULL"
  | (queued) p1 v a1 m1 sync where
      "register_on_handle h (brk m) chunk_num kd func ui st = Some (sync, with_pool h oh p1 m1 (dev st) st)"
      "sync = brk (theap st)" "sync \<noteq> NULL" "v \<noteq> NULL"
      "a_batch (TS (sync + 2 + n)) NULL NULL NULL NULL a = (v, a1)"
      "pool_rel p1 (a1\<lparr>a_arrays := a_arrays a\<rparr>)"
      "registered (theap st) sync (request_sync task_num (Suc sync) (brk m)) (TS (sync + 2 + n)) as m1"
proof -
  note ch = chunks_heap_facts [OF m(1,3)]
  have b: "brk m \<noteq> NULL" "brk (theap st) = brk m + length cs"
    using tm_okD(1) [OF m(1)] m(2) by (simp_all add: chunks_heap_def)
  have fill': "fills (fill (brk (theap st))) (chunk_cells (theap st)) n TS as" using fill b(2) by simp
  have ok: "tm_ok (theap st)" using ch(1) m(2) by simp
  from p ok n(1-3) b(1) n(4) reg fill' show thesis
  proof (cases rule: bind_cases [where chunks = "brk m" and chunk_num = chunk_num and kd = kd
        and func = func and ui = ui])
    case (refused p1 a1 m1)
    obtain m2 where m2: "free_block (brk m) m1 = Some m2" "same_objs m m2"
      by (rule free_chunks [OF m(1), of cs m1]) (use refused(4) m(2) in simp)
    have "register_on_handle h (brk m) chunk_num kd func ui st
        = Some (NULL, with_pool h oh p1 m2 (dev st) st)"
      using h refused(1) m2(1)
      by (simp add: register_on_handle_def get_pool_def set_pool_def with_pool_def)
    then show thesis using refused(2,3,5) m2(2) ch(4) m(2) by (intro that(1)) auto
  next
    case (queued p1 v a1 m1)
    have "register_on_handle h (brk m) chunk_num kd func ui st
        = Some (brk (theap st), with_pool h oh p1 m1 (dev st) st)"
      using h queued(1) b by (simp add: register_on_handle_def get_pool_def set_pool_def with_pool_def)
    then show thesis using queued(2-5) b by (intro that(2)) simp_all
  qed
qed

end
