(* ===== verification/TransportFacts.thy ===== *)
theory TransportFacts
  imports TransportRun
begin

text \<open>
  Sending and receiving as a whole: what \<open>os_transport_send\<close> and \<open>os_transport_recv\<close> leave
  behind, whichever allocation fails, and how a transfer ends.
\<close>

section \<open>Starting\<close>

definition send_info :: "urma_jetty_info \<Rightarrow> ost_buffer_info \<Rightarrow> ost_buffer_info \<Rightarrow> u32 \<Rightarrow> u32 \<Rightarrow> u32 \<Rightarrow> urma_write_info" where
  "send_info ji l r len server_key client_key =
     build_write_info ji l r (ck_len (hd (chunk_list (ob_addr l) (ob_addr r) len))) server_key client_key"

definition recv_info :: "ost_buffer_info \<Rightarrow> ost_device_info \<Rightarrow> u32 \<Rightarrow> urma_recv_info" where
  "recv_info hs d client_key = \<lparr>ri_jfr = od_jfr d, ri_local_tseg = ob_tseg hs, ri_device_info = d,
     ri_request_id = client_key\<rparr>"

lemma chunk_list_pos: "len \<noteq> 0 \<Longrightarrow> 0 < length (chunk_list s d len)"
  using chunk_list_nonempty by blast

lemma chunk_count_list: "chunk_count len = of_nat (length (chunk_list s d len))"
  by simp

lemma long_transfer:
  assumes "chunk_bytes < unat len"
  shows "len \<noteq> 0" "\<not> (ucast len :: u64) \<le> DEFAULT_CHUNK_SIZE" "2 \<le> length (chunk_list s d len)"
    "length (chunk_list s d len) < 2 ^ 32"
proof -
  show "len \<noteq> 0" "\<not> (ucast len :: u64) \<le> DEFAULT_CHUNK_SIZE"
    using assms by (auto simp: word_le_nat_alt word_facts)
  have "unat (chunk_count len) = (unat len + 2097151) div chunk_bytes" by (rule unat_chunk_count)
  moreover have "2 * chunk_bytes \<le> unat len + 2097151" using assms by simp
  ultimately show "2 \<le> length (chunk_list s d len)" by (simp add: less_eq_div_iff_mult_less_eq)
  have "length (chunk_list s d len) \<le> (unat len + 2097151)"
    by (simp add: unat_chunk_count)
  then show "length (chunk_list s d len) < 2 ^ 32"
    using unat_less_u32 [of len] by (simp add: unat_chunk_count div_less_iff_less_mult)
qed

lemma no_chunks:
  assumes "tm_ok m" "\<not> malloc_ok m (calls m)"
  shows "common_split_chunks s d len m = Some ((minus_one32, None), m\<lparr>calls := Suc (calls m)\<rparr>)"
    "same_objs m (m\<lparr>calls := Suc (calls m)\<rparr>)" "\<not> env_ok m"
  using assms by (auto simp: common_split_chunks_fail env_ok_def)

lemma some_chunks:
  assumes "tm_ok m" "malloc_ok m (calls m)" "len \<noteq> 0"
  shows "common_split_chunks s d len m = Some ((0, Some (brk m, chunk_count len)),
    chunks_heap (chunk_list s d len) m)"
proof -
  have "max 1 (unat (chunk_count len)) = length (chunk_list s d len)"
    using chunk_list_pos [OF assms(3), of s d] by simp
  then show ?thesis
    using common_split_chunks_ok [OF assms(2) tm_okD(1) [OF assms(1)], of s d len]
    by (simp add: chunks_heap_def)
qed

text \<open>
  The start of a send of more than one chunk: refused, with everything as it was; or live, and
  the first chunk has been posted.
\<close>

lemma send_start:
  fixes st :: "'x ost"
  assumes h: "handle_with h p a st" "handles st h = Some oh" and len: "chunk_bytes < unat len"
    and cs: "cs = chunk_list (ob_addr l) (ob_addr r) len" and wi: "wi = send_info ji l r len sk ck"
  obtains (refused) p1 a1 m1 where
      "os_transport_send e h (Some ji) (Some l) (Some r) len sk ck True st
        = Some ((minus_one32, NULL), with_pool h oh p1 m1 (dev st) st)"
      "pool_rel p1 a1" "pool_same a a1" "same_objs (theap st) m1"
      "env_ok (theap st) \<Longrightarrow> \<exists>x. fst (a_batch (send_tasks sk (length cs - 1) x) NULL NULL NULL NULL a) = NULL"
  | (queued) p1 v a1 m1 sync where
      "os_transport_send e h (Some ji) (Some l) (Some r) len sk ck True st =
        (let (status, x) = urma_write_with_notify e wi (hd cs) (dev st); st1 = with_pool h oh p1 m1 x st
         in if status = URMA_SUCCESS e then Some ((0, sync), st1)
            else do { st2 \<leftarrow> complete_request sync st1; Some ((minus_one32, sync), st2) })"
      "sync = brk (chunks_heap cs (theap st))" "sync \<noteq> NULL" "v \<noteq> NULL"
      "a_batch (send_tasks sk (length cs - 1) (sync + 2 + (length cs - 1))) NULL NULL NULL NULL a = (v, a1)"
      "pool_rel p1 (a1\<lparr>a_arrays := a_arrays a\<rparr>)"
      "registered (chunks_heap cs (theap st)) sync
        (request_sync (of_nat (length cs - 1)) (Suc sync) (brk (theap st)))
        (send_tasks sk (length cs - 1) (sync + 2 + (length cs - 1)))
        (map (send_arg wi (brk (theap st)) cs sync) [0..<length cs - 1]) m1"
proof -
  obtain oh' where "handles st h = Some oh'" "oh_thread_pool oh' = Some p" and
    hd: "h \<noteq> NULL" "g_inited st" "pool_rel p a" "tm_ok (theap st)"
    using handle_withD [OF h(1)] by metis
  then have oh: "oh_thread_pool oh = Some p" using h(2) by simp
  note lt = long_transfer [OF len] and m = hd(4)
  let ?m = "theap st" and ?n = "length cs - 1"
  have v: "validate_send_input h (Some ji) (Some l) (Some r) len True st = 0"
    using hd(1,2) lt(1) by (simp add: validate_send_input_def)
  have b: "brk ?m \<noteq> NULL" using tm_okD(1) [OF m] by simp
  show thesis
  proof (cases "malloc_ok ?m (calls ?m)")
    case False
    have "st\<lparr>theap := ?m\<lparr>calls := Suc (calls ?m)\<rparr>\<rparr>
        = with_pool h oh p (?m\<lparr>calls := Suc (calls ?m)\<rparr>) (dev st) st"
      using h(2) oh by (simp add: with_pool_def fun_upd_idem)
    then have "os_transport_send e h (Some ji) (Some l) (Some r) len sk ck True st
        = Some ((minus_one32, NULL), with_pool h oh p (?m\<lparr>calls := Suc (calls ?m)\<rparr>) (dev st) st)"
      using v lt(1,2) no_chunks(1) [OF m False] by (simp add: os_transport_send_def send_split_chunks_def)
    then show thesis
      using hd(3) no_chunks(2,3) [OF m False] by (intro refused [of p "?m\<lparr>calls := Suc (calls ?m)\<rparr>" a]) simp_all
  next
    case True
    let ?mc = "chunks_heap cs ?m" and ?st = "st\<lparr>theap := chunks_heap cs (theap st)\<rparr>"
    have ne: "cs \<noteq> []" using chunk_list_nonempty [OF lt(1)] cs by simp
    note ch = chunks_heap_facts [OF m ne]
    have c0: "chunk_cells ?mc (brk ?m) = Some (hd cs)"
      using ch(3) [rule_format, of 0] ne by (simp add: hd_conv_nth)
    have num: "chunk_count len = of_nat (length cs)" "length cs < 2 ^ 32" "2 \<le> length cs"
      using lt(3,4) unfolding cs by simp_all
    have un: "unat (chunk_count len) = length cs" unfolding cs by simp
    have tn: "?n = unat (chunk_count len - 1)" "chunk_count len - 1 = of_nat ?n" "\<not> chunk_count len < 2"
      using un num(3) by (simp_all add: unat_sub word_le_nat_alt word_less_nat_alt num(1) of_nat_diff)
    have send: "os_transport_send e h (Some ji) (Some l) (Some r) len sk ck True st = do {
        (sync, st2) \<leftarrow> register_on_handle h (brk ?m) (chunk_count len) SEND_TASK send_task_worker_func_fn
          (Write_info wi) ?st;
        if sync = NULL then Some ((minus_one32, NULL), st2)
        else do {
          c0' \<leftarrow> chunk_cells (theap st2) (brk ?m);
          let (status, x) = urma_write_with_notify e wi c0' (dev st2);
          let st3 = st2\<lparr>dev := x\<rparr>;
          if status \<noteq> URMA_SUCCESS e
          then do { st4 \<leftarrow> complete_request sync st3; Some ((minus_one32, sync), st4) }
          else Some ((0, sync), st3)
        } }"
      using v lt(1,2) some_chunks [OF m True lt(1), of "ob_addr l" "ob_addr r"] c0 [unfolded cs] unfolding wi send_info_def cs
      by (simp add: os_transport_send_def send_split_chunks_def Let_def)
    have key: "sk = ucast (bs_request_id (wi_user_ctx_server wi))"
      by (simp add: wi send_info_def build_write_info_def ucast_request_id)
    let ?fill = "\<lambda>sync grp. send_task_loop (brk ?m) (chunk_count len) send_task_worker_func_fn wi sync grp 0 ?n"
    have reg: "register_by_type (brk ?m) (chunk_count len) SEND_TASK send_task_worker_func_fn (Write_info wi) sync (p, m')
        = register_group (?fill sync) (chunk_count len - 1) sync (p, m')" for sync m'
      using tn(3) unfolding tn(1) by (simp add: register_by_type_def register_send_tasks_def Let_def)
    have fill: "fills (?fill (brk ?m + length cs)) (chunk_cells (theap ?st)) ?n (send_tasks sk ?n)
        (map (send_arg wi (brk ?m) cs (brk ?m + length cs)) [0..<?n])"
      unfolding num(1) by (rule send_fills) (use ch(3) num(2,3) key in simp_all)
    have n: "0 < ?n" "?n < 2 ^ 32" "chunk_count len \<noteq> 0" using num un by auto
    have sy: "brk (theap ?st) = brk ?m + length cs" by (simp add: chunks_heap_def)
    have hs: "handles ?st h = Some oh" using h(2) by simp
    have th: "theap ?st = chunks_heap cs ?m" by simp
    from hs oh hd(3) m th ne tn(1) n reg fill show thesis
    proof (cases rule: register_on_handle_cases)
      case (refused p1 a1 m1)
      have "os_transport_send e h (Some ji) (Some l) (Some r) len sk ck True st
          = Some ((minus_one32, NULL), with_pool h oh p1 m1 (dev st) st)"
        unfolding send refused(1) by (simp add: with_pool_def)
      then show thesis using refused(2-5) by (rule that(1))
    next
      case (queued p1 v a1 m1 sync)
      have "chunk_cells m1 (brk ?m) = Some (hd cs)" using registeredD(9) [OF queued(7)] c0 by simp
      moreover have "with_pool h oh p1 m1 (dev ?st) ?st = with_pool h oh p1 m1 (dev st) st"
        by (simp add: with_pool_def)
      ultimately have "os_transport_send e h (Some ji) (Some l) (Some r) len sk ck True st =
        (let (status, x) = urma_write_with_notify e wi (hd cs) (dev st); st1 = with_pool h oh p1 m1 x st
         in if status = URMA_SUCCESS e then Some ((0, sync), st1)
            else do { st2 \<leftarrow> complete_request sync st1; Some ((minus_one32, sync), st2) })"
        unfolding send queued(1) using queued(3) by (simp add: split_def Let_def)
      note start = this
      have se: "brk ?m + length cs = sync" using queued(2) sy by simp
      from start show thesis
        using queued(2) [unfolded th] queued(3-6) queued(7) [unfolded th tn(2) se] by (rule that(2))
    qed
  qed
qed

text \<open>Posting one receive after the other until one fails.\<close>

fun post_until :: "int \<Rightarrow> ('x \<Rightarrow> int \<times> 'x) list \<Rightarrow> 'x \<Rightarrow> bool \<times> 'x" where
  "post_until success [] x = (True, x)"
| "post_until success (f # fs) x =
     (let (status, x1) = f x in if status \<noteq> success then (False, x1) else post_until success fs x1)"

lemma recv_post_loop_spec:
  assumes "\<forall>j < length cs. chunk_cells m (chunks + j) = Some (cs ! j)" "i + n = length cs"
  shows "recv_post_loop e ri chunks i n m x =
    Some (post_until (URMA_SUCCESS e) (map (urma_recv_with_notify e ri) (drop i cs)) x)"
  using assms
proof (induction n arbitrary: i x)
  case (Suc n)
  have i: "chunk_cells m (chunks + i) = Some (cs ! i)" "drop i cs = cs ! i # drop (Suc i) cs"
    using Suc.prems by (simp_all add: Cons_nth_drop_Suc)
  obtain r x1 where r: "urma_recv_with_notify e ri (cs ! i) x = (r, x1)"
    by (cases "urma_recv_with_notify e ri (cs ! i) x")
  with Suc.IH [of "Suc i" x1] Suc.prems i show ?case by simp
qed simp

lemma chunks_below_32:
  assumes "len \<noteq> 0"
  shows "0 < length (chunk_list s d len)" "length (chunk_list s d len) < 2 ^ 32"
proof -
  show "0 < length (chunk_list s d len)" by (rule chunk_list_pos [OF assms])
  show "length (chunk_list s d len) < 2 ^ 32"
    using unat_less_u32 [of len] by (simp add: unat_chunk_count div_less_iff_less_mult)
qed

lemma recv_start:
  fixes st :: "'x ost"
  assumes h: "handle_with h p a st" "handles st h = Some oh" and len: "len \<noteq> 0"
    and cs: "cs = chunk_list (ob_addr hs) (od_dst d) len" and ri: "ri = recv_info hs d ck"
  obtains (refused) p1 a1 m1 where
      "os_transport_recv e h (Some hs) (Some d) len ck True st
        = Some ((minus_one32, NULL), with_pool h oh p1 m1 (dev st) st)"
      "pool_rel p1 a1" "pool_same a a1" "same_objs (theap st) m1"
      "env_ok (theap st) \<Longrightarrow> \<exists>x. fst (a_batch (recv_tasks ck (length cs) x) NULL NULL NULL NULL a) = NULL"
  | (queued) p1 v a1 m1 sync where
      "os_transport_recv e h (Some hs) (Some d) len ck True st =
        (let (ok, x) = post_until (URMA_SUCCESS e) (map (urma_recv_with_notify e ri) cs) (dev st);
             st1 = with_pool h oh p1 m1 x st
         in if ok then Some ((0, sync), st1)
            else do { st2 \<leftarrow> complete_request sync st1; Some ((minus_one32, sync), st2) })"
      "sync = brk (chunks_heap cs (theap st))" "sync \<noteq> NULL" "v \<noteq> NULL"
      "a_batch (recv_tasks ck (length cs) (sync + 2 + length cs)) NULL NULL NULL NULL a = (v, a1)"
      "pool_rel p1 (a1\<lparr>a_arrays := a_arrays a\<rparr>)"
      "registered (chunks_heap cs (theap st)) sync
        (request_sync (of_nat (length cs)) (Suc sync) (brk (theap st)))
        (recv_tasks ck (length cs) (sync + 2 + length cs))
        (map (recv_arg ri (brk (theap st)) cs sync) [0..<length cs]) m1"
proof -
  obtain oh' where "handles st h = Some oh'" "oh_thread_pool oh' = Some p" and
    hd: "h \<noteq> NULL" "g_inited st" "pool_rel p a" "tm_ok (theap st)"
    using handle_withD [OF h(1)] by metis
  then have oh: "oh_thread_pool oh = Some p" using h(2) by simp
  note m = hd(4)
  let ?m = "theap st" and ?n = "length cs"
  have v: "validate_recv_input h (Some hs) (Some d) len True st = 0"
    using hd(1,2) len by (simp add: validate_recv_input_def)
  show thesis
  proof (cases "malloc_ok ?m (calls ?m)")
    case False
    have "st\<lparr>theap := ?m\<lparr>calls := Suc (calls ?m)\<rparr>\<rparr>
        = with_pool h oh p (?m\<lparr>calls := Suc (calls ?m)\<rparr>) (dev st) st"
      using h(2) oh by (simp add: with_pool_def fun_upd_idem)
    then have "os_transport_recv e h (Some hs) (Some d) len ck True st
        = Some ((minus_one32, NULL), with_pool h oh p (?m\<lparr>calls := Suc (calls ?m)\<rparr>) (dev st) st)"
      using v len no_chunks(1) [OF m False] by (simp add: os_transport_recv_def recv_split_chunks_def)
    then show thesis
      using hd(3) no_chunks(2,3) [OF m False]
      by (intro refused [of p "?m\<lparr>calls := Suc (calls ?m)\<rparr>" a]) simp_all
  next
    case True
    let ?mc = "chunks_heap cs ?m" and ?st = "st\<lparr>theap := chunks_heap cs (theap st)\<rparr>"
    note num = chunks_below_32 [OF len, of "ob_addr hs" "od_dst d", folded cs]
    have ne: "cs \<noteq> []" using num(1) by auto
    note ch = chunks_heap_facts [OF m ne]
    have un: "unat (chunk_count len) = ?n" "chunk_count len = of_nat ?n" unfolding cs by simp_all
    have recv: "os_transport_recv e h (Some hs) (Some d) len ck True st = do {
        (sync, st2) \<leftarrow> register_on_handle h (brk ?m) (chunk_count len) RECV_TASK recv_task_worker_func_fn
          (Recv_info ri) ?st;
        if sync = NULL then Some ((minus_one32, NULL), st2)
        else do {
          (ok, x) \<leftarrow> recv_post_loop e ri (brk ?m) 0 ?n (theap st2) (dev st2);
          let st3 = st2\<lparr>dev := x\<rparr>;
          if \<not> ok then do { st4 \<leftarrow> complete_request sync st3; Some ((minus_one32, sync), st4) }
          else Some ((0, sync), st3)
        } }"
      using v len some_chunks [OF m True len, of "ob_addr hs" "od_dst d"]
      unfolding ri recv_info_def un(1) [symmetric] unfolding cs
      by (simp add: os_transport_recv_def recv_split_chunks_def Let_def)
    let ?fill = "\<lambda>sync grp. recv_task_loop (brk ?m) (chunk_count len) recv_task_worker_func_fn ri sync grp 0 ?n"
    have reg: "register_by_type (brk ?m) (chunk_count len) RECV_TASK recv_task_worker_func_fn (Recv_info ri) sync (p, m')
        = register_group (?fill sync) (chunk_count len) sync (p, m')" for sync m'
      by (simp add: register_by_type_def register_recv_tasks_def un(1))
    have key: "ri_request_id ri = ck" by (simp add: ri recv_info_def)
    have fill: "fills (?fill (brk ?m + length cs)) (chunk_cells (theap ?st)) ?n (recv_tasks ck ?n)
        (map (recv_arg ri (brk ?m) cs (brk ?m + length cs)) [0..<?n])"
      unfolding un(2) key [symmetric] by (rule recv_fills) (use num in simp_all)
    have n: "0 < ?n" "?n < 2 ^ 32" "chunk_count len \<noteq> 0" using num un(1) by auto
    have sy: "brk (theap ?st) = brk ?m + length cs" by (simp add: chunks_heap_def)
    have hs: "handles ?st h = Some oh" using h(2) by simp
    have th: "theap ?st = chunks_heap cs ?m" by simp
    from hs oh hd(3) m th ne un(1) [symmetric] n reg fill show thesis
    proof (cases rule: register_on_handle_cases)
      case (refused p1 a1 m1)
      have "os_transport_recv e h (Some hs) (Some d) len ck True st
          = Some ((minus_one32, NULL), with_pool h oh p1 m1 (dev st) st)"
        unfolding recv refused(1) by (simp add: with_pool_def)
      then show thesis using refused(2-5) by (rule that(1))
    next
      case (queued p1 v a1 m1 sync)
      have "chunk_cells m1 = chunk_cells ?mc" using registeredD(9) [OF queued(7)] by simp
      then have loop: "recv_post_loop e ri (brk ?m) 0 ?n m1 x
          = Some (post_until (URMA_SUCCESS e) (map (urma_recv_with_notify e ri) cs) x)" for x
        using recv_post_loop_spec [of cs m1 "brk ?m" 0 ?n e ri x] ch(3) by simp
      have "with_pool h oh p1 m1 (dev ?st) ?st = with_pool h oh p1 m1 (dev st) st"
        by (simp add: with_pool_def)
      then have start: "os_transport_recv e h (Some hs) (Some d) len ck True st =
        (let (ok, x) = post_until (URMA_SUCCESS e) (map (urma_recv_with_notify e ri) cs) (dev st);
             st1 = with_pool h oh p1 m1 x st
         in if ok then Some ((0, sync), st1)
            else do { st2 \<leftarrow> complete_request sync st1; Some ((minus_one32, sync), st2) })"
        unfolding recv queued(1) using queued(3) by (simp add: split_def Let_def loop)
      have se: "brk ?m + length cs = sync" using queued(2) sy by simp
      from start show thesis
        using queued(2) [unfolded th] queued(3-6) queued(7) [unfolded th un(2) se] by (rule that(2))
    qed
  qed
qed

section \<open>Ending\<close>

text \<open>What is left of a transfer that is over: the heap and the pool as before it.\<close>

definition transfer_gone :: "ptr \<Rightarrow> apool \<Rightarrow> 'x ost \<Rightarrow> 'x ost \<Rightarrow> bool" where
  "transfer_gone h a st st' \<longleftrightarrow> same_objs (theap st) (theap st') \<and> (\<exists>oh p' a'. handles st h = Some oh \<and>
     st' = with_pool h oh p' (theap st') (dev st') st \<and> pool_rel p' a' \<and> a_queues a' = a_queues a \<and> a_ctx a' = a_ctx a \<and> kept a a')"

text \<open>A live request: its objects, its tasks in the queue of worker i, and what they do.\<close>

definition live ::
    "'x ext \<Rightarrow> ptr \<Rightarrow> os_transport_handle \<Rightarrow> apool \<Rightarrow> nat \<Rightarrow> u32 \<Rightarrow> chunk_info list \<Rightarrow> ptr \<Rightarrow>
       ('x \<Rightarrow> int \<times> 'x) list \<Rightarrow> 'x ost \<Rightarrow> pool \<Rightarrow> tmem \<Rightarrow> bool" where
  "live e h oh a i q cs sync fs st p1 m1 \<longleftrightarrow>
     (\<exists>a1 v ts as. pool_rel p1 (a1\<lparr>a_arrays := a_arrays a\<rparr>) \<and> a_batch ts NULL NULL NULL NULL a = (v, a1) \<and>
        (\<forall>t \<in> set ts. request_id t = q) \<and> length ts = length fs \<and>
        registered (chunks_heap cs (theap st)) sync
          (request_sync (of_nat (length fs)) (Suc sync) (brk (theap st))) ts as m1 \<and>
        list_all2 (task_does e m1 sync) (batch_tasks ts (a_next a) NULL NULL) fs)"

lemma live_outcome:
  fixes st :: "'x ost"
  assumes h: "handle_with h p a st" "handles st h = Some oh" and r: "ready a i q" and cs: "cs \<noteq> []"
    and live: "live e h oh a i q cs sync fs st p1 m1" and n: "0 < length fs" "length fs < 2 ^ 32"
    and crs: "length crs \<le> length fs" "\<forall>cr \<in> set crs. cr_request_id cr = Some q"
    and rs: "seq (take (length crs) fs) x1 = (rs, x2)"
  obtains vs st2 st3 where
    "run (ost_do e) (work_off h i crs) (with_pool h oh p1 m1 x1 st) = Some (vs, st2)" "dev st2 = x2"
    "wait_and_free_sync h sync st2 = Some (wait_result (length fs) rs, st3)" "dev st3 = x2"
    "wait_result (length fs) rs = Waiting \<Longrightarrow> st3 = st2"
    "wait_result (length fs) rs \<noteq> Waiting \<Longrightarrow> transfer_gone h a st st3"
proof -
  have hd: "h \<noteq> NULL" "pool_rel p a" "tm_ok (theap st)" using h(1) by (auto simp: handle_with_def)
  obtain a1 v ts as where l: "pool_rel p1 (a1\<lparr>a_arrays := a_arrays a\<rparr>)" "a_batch ts NULL NULL NULL NULL a = (v, a1)"
    "\<forall>t \<in> set ts. request_id t = q" "length ts = length fs"
    "registered (chunks_heap cs (theap st)) sync
      (request_sync (of_nat (length fs)) (Suc sync) (brk (theap st))) ts as m1"
    "list_all2 (task_does e m1 sync) (batch_tasks ts (a_next a) NULL NULL) fs"
    using live by (auto simp: live_def)
  let ?a1 = "a1\<lparr>a_arrays := a_arrays a\<rparr>" and ?st1 = "with_pool h oh p1 m1 x1 st"
  note rb = ready_batch(2) [OF hd(2) r l(3,4) n l(2) refl, of "a_arrays a"]
  then obtain c where c: "a_ctx ?a1 q = Some c" "ac_worker c = i" "unat (ac_pending c) = length fs" "ac_cb c = NULL"
    by blast
  note ch = chunks_heap_facts [OF hd(3) cs]
  have b: "brk (theap st) \<noteq> NULL" using tm_okD(1) [OF hd(3)] by simp
  have ts: "ts \<noteq> []" "request_id (hd ts) = q" using l(3,4) n(1) by (cases ts; auto)+
  have len: "length (batch_tasks ts (a_next a) NULL NULL) = length fs" using l(4) by (simp add: batch_tasks_def)
  have "q \<noteq> 0" using r by (simp add: ready_def)
  obtain vs st2 st3 where o: "run (ost_do e) (work_off h i crs) ?st1 = Some (vs, st2)" "dev st2 = x2"
    "wait_and_free_sync h sync st2 = Some (wait_result (length fs) rs, st3)" "dev st3 = x2"
    "wait_result (length fs) rs = Waiting \<Longrightarrow> st3 = st2"
    "wait_result (length fs) rs \<noteq> Waiting \<Longrightarrow> without_block (brk (theap st)) (chunks_heap cs (theap st)) (theap st3) \<and>
      (\<exists>p3 a3. st3 = with_pool h (oh\<lparr>oh_thread_pool := Some p1\<rparr>) p3 (theap st3) x2 ?st1 \<and> pool_rel p3 a3 \<and> a_queues a3 = (a_queues ?a1)[i := []] \<and>
        a_ctx a3 = (a_ctx ?a1)(q := None) \<and> kept ?a1 a3)"
    by (rule request_outcome [OF hd(1), of ?st1 "oh\<lparr>oh_thread_pool := Some p1\<rparr>" p1 ?a1 i
          "batch_tasks ts (a_next a) NULL NULL" q c "chunks_heap cs (theap st)" "brk (theap st)"
          "length cs" sync "length fs" ts as e fs crs rs x2])
      (use l rb c ch b ts len n crs rs \<open>q \<noteq> 0\<close> in simp_all)
  have "transfer_gone h a st st3" if over: "wait_result (length fs) rs \<noteq> Waiting"
  proof -
    obtain p3 a3 where 3: "without_block (brk (theap st)) (chunks_heap cs (theap st)) (theap st3)"
      "st3 = with_pool h oh p3 (theap st3) x2 st" "pool_rel p3 a3" "a_queues a3 = (a_queues ?a1)[i := []]"
      "a_ctx a3 = (a_ctx ?a1)(q := None)" "kept ?a1 a3"
      using o(6) [OF over] unfolding with_pool_simps by blast
    have "kept a a3" "a_queues a3 = a_queues a" "a_ctx a3 = a_ctx a"
      using rb 3(4-6) kept_trans [of a ?a1] by auto
    then show ?thesis
      using h(2) chunks_heap_gone [OF hd(3) 3(1)] 3(2,3) o(4) unfolding transfer_gone_def by metis
  qed
  with o(1-5) show thesis by (rule that)
qed

text \<open>A live request that the calling thread completed after a failed post.\<close>

lemma live_abandoned:
  fixes st :: "'x ost"
  assumes h: "handle_with h p a st" "handles st h = Some oh" and r: "ready a i q" and cs: "cs \<noteq> []"
    and live: "live e h oh a i q cs sync fs st p1 m1" and n: "0 < length fs" "length fs < 2 ^ 32"
  obtains st2 st3 where "complete_request sync (with_pool h oh p1 m1 x1 st) = Some st2" "dev st2 = x1"
    "wait_and_free_sync h sync st2 = Some (Returned minus_one32, st3)" "dev st3 = x1" "transfer_gone h a st st3"
proof -
  have hd: "h \<noteq> NULL" "pool_rel p a" "tm_ok (theap st)" using h(1) by (auto simp: handle_with_def)
  obtain a1 v ts as where l: "pool_rel p1 (a1\<lparr>a_arrays := a_arrays a\<rparr>)" "a_batch ts NULL NULL NULL NULL a = (v, a1)"
    "\<forall>t \<in> set ts. request_id t = q" "length ts = length fs"
    "registered (chunks_heap cs (theap st)) sync
      (request_sync (of_nat (length fs)) (Suc sync) (brk (theap st))) ts as m1"
    using live by (auto simp: live_def)
  let ?a1 = "a1\<lparr>a_arrays := a_arrays a\<rparr>" and ?s = "request_sync (of_nat (length fs)) (Suc sync) (brk (theap st))"
  let ?s1 = "?s\<lparr>ts_request_completed := 1\<rparr>"
  let ?m2 = "m1\<lparr>syncs := (syncs m1)(sync \<mapsto> ?s1)\<rparr>"
  note rb = ready_batch(2) [OF hd(2) r l(3,4) n l(2) refl, of "a_arrays a"]
  then obtain c where c: "a_ctx ?a1 q = Some c" "ac_worker c = i" "unat (ac_pending c) = length fs" "ac_cb c = NULL"
    by blast
  note ch = chunks_heap_facts [OF hd(3) cs] and d = registeredD [OF l(5)]
  have b: "brk (theap st) \<noteq> NULL" using tm_okD(1) [OF hd(3)] by simp
  have sync: "sync \<noteq> NULL" using d(2) tm_okD(1) [OF ch(1)] by simp
  have ts: "ts \<noteq> []" "request_id (hd ts) = q" using l(3,4) n(1) by (cases ts; auto)+
  have len: "length (batch_tasks ts (a_next a) NULL NULL) = length fs" using l(4) by (simp add: batch_tasks_def)
  have cp: "ac_pending c = of_nat (length (batch_tasks ts (a_next a) NULL NULL))"
    unfolding len using c(3) n(2) by (simp add: word_unat_eq_iff unat_of_nat)
  have pool: "i < length (a_queues ?a1)" "batch_tasks ts (a_next a) NULL NULL \<noteq> []"
  proof -
    obtain xss where "rel p1 ?a1 xss {} {} {}" using l(1) by (auto simp: pool_rel_def)
    from rel_lengths(5) [OF this] rb show "i < length (a_queues ?a1)" by simp
    show "batch_tasks ts (a_next a) NULL NULL \<noteq> []" using len n(1) by auto
  qed
  have cr: "complete_request sync (with_pool h oh p1 m1 x1 st) = Some (with_pool h oh p1 ?m2 x1 st)"
    using d(6) by (simp add: complete_request_def)
  have "(of_nat (length fs) :: u64) \<noteq> 0" using n of_nat_u64_eq [of "length fs" 0] by simp
  then have w: "wait_for_task_complete sync ?m2 = Some (Returned minus_one32)"
    using sync by (simp add: wait_for_task_complete_def request_sync_def)
  have reg2: "registered (chunks_heap cs (theap st)) sync ?s1 ts as ?m2" by (rule registered_sync [OF l(5)])
  obtain m3 p3 a3 where 3: "wait_and_free_sync h sync (with_pool h oh p1 ?m2 x1 st)
      = Some (Returned minus_one32, with_pool h oh p3 m3 x1 st)"
    "without_block (brk (theap st)) (chunks_heap cs (theap st)) m3" "pool_rel p3 a3"
    "a_queues a3 = (a_queues ?a1)[i := []]" "a_ctx a3 = (a_ctx ?a1)(q := None)" "kept ?a1 a3"
    by (rule wait_failed [OF hd(1) sync ch(1,2) b reg2 ts _ _ w _ l(1) _ pool(1),
          where rest = "batch_tasks ts (a_next a) NULL NULL" and x = x1 and st = st and oh = oh])
      (use rb c cp len n(2) pool(2) in \<open>simp_all add: request_sync_def\<close>)
  have "transfer_gone h a st (with_pool h oh p3 m3 x1 st)"
    using 3 h(2) chunks_heap_gone [OF hd(3) 3(2)] rb kept_trans [OF _ 3(6)] unfolding transfer_gone_def by auto
  with cr 3(1) show thesis by (intro that [of "with_pool h oh p1 ?m2 x1 st" "with_pool h oh p3 m3 x1 st"]) simp_all
qed

end
