(* ===== verification/TransportLife.thy ===== *)
theory TransportLife
  imports TransportFacts
begin

text \<open>
  The life of the transport: what \<open>os_transport_init\<close> hands out or leaves behind when a step of it
  fails, and \<open>os_transport_destroy\<close>.
\<close>

section \<open>Destruction of an idle pool\<close>

lemma pool_rel_urma [simp]:
  "pool_rel (p\<lparr>urma_jfce := jfce, urma_jfc := jfc, urma_event_mode := em\<rparr>) a = pool_rel p a"
  by (simp add: pool_rel_def rel_def)

lemma destroy_idle:
  assumes p: "pool_rel p a" "joinable a" and idle: "\<forall>i < NUM_WORKERS. a_pend a ! i = 0"
  obtains m where "thread_pool_destroy env (p, s) = Some (m, s)" "no_objects m" "id_arrays m = a_arrays a"
proof -
  have "\<exists>a'. a_join_loop env [0..<NUM_WORKERS] (a\<lparr>a_destroying := True\<rparr>, s) = Some (a', s) \<and>
      a_arrays a' = a_arrays (a\<lparr>a_destroying := True\<rparr>)"
    by (rule a_join_loop_idle) (use idle p(2) in \<open>auto simp: joinable_def\<close>)
  then obtain a' where "a_join_loop env [0..<NUM_WORKERS] (a\<lparr>a_destroying := True\<rparr>, s) = Some (a', s)"
    "a_arrays a' = a_arrays a" by auto
  with destroy_refine [OF p, of env s] that show thesis by (auto simp: option_rel_Some2)
qed

section \<open>Threads that do not start\<close>

text \<open>
  The first k calls of \<open>pthread_create\<close> succeed, the next one fails; what it leaves as the thread id
  is not specified.
\<close>

definition threads_fail_at :: "nat \<Rightarrow> (nat \<Rightarrow> int \<times> u64) \<Rightarrow> bool" where
  "threads_fail_at k pc \<longleftrightarrow> k < NUM_WORKERS \<and> (\<forall>i < k. fst (pc i) = 0 \<and> snd (pc i) \<noteq> 0) \<and> fst (pc k) \<noteq> 0"

lemma split_workers:
  assumes "k < NUM_WORKERS" shows "[0..<NUM_WORKERS] = [0..<k] @ k # [Suc k..<NUM_WORKERS]"
  using assms upt_add_eq_append [of 0 k "NUM_WORKERS - k"] by (simp add: upt_conv_Cons)

lemma create_all_workers_fails:
  assumes "threads_fail_at k pc"
  shows "create_all_workers pc (fresh_pool m)
    = (False, (fresh_pool m)\<lparr>workers := (started pc {..<k} init_workers_basic)
        [k := (init_workers_basic ! k)\<lparr>tid := snd (pc k)\<rparr>]\<rparr>)"
proof -
  have k: "k < NUM_WORKERS" "\<forall>i \<in> set [0..<k]. fst (pc i) = 0" "fst (pc k) \<noteq> 0"
    using assms by (auto simp: threads_fail_at_def)
  have w: "workers (fresh_pool m) = init_workers_basic" "length init_workers_basic = NUM_WORKERS"
    by (simp_all add: fresh_pool_def init_workers_basic_def)
  have first: "create_workers_loop pc [0..<k] (fresh_pool m)
      = (True, (fresh_pool m)\<lparr>workers := started pc {..<k} init_workers_basic\<rparr>)"
    using create_workers_loop_ok [OF k(2), of "fresh_pool m"] k(1) w by (simp add: lessThan_atLeast0)
  have "started pc {..<k} init_workers_basic ! k = init_workers_basic ! k"
    using k(1) w(2) by (simp add: started_def)
  then show ?thesis
    unfolding create_all_workers_def split_workers [OF k(1)] create_workers_loop_append first
    using k(3) by (simp add: create_worker_def set_worker_def split_def Let_def)
qed

lemma init_fails:
  assumes m: "no_objects m" and pc: "threads_fail_at k pc" "snd (pc k) = 0"
  obtains m' where "thread_pool_init env pc True m s = Some (Inl m', s)" "no_objects m'"
    "id_arrays m' = id_arrays m"
proof -
  let ?p = "(fresh_pool m)\<lparr>workers := started pc {..<k} init_workers_basic\<rparr>"
  have "joinable (a_fresh pc {..<k} m)"
    using pc by (intro joinable_fresh) (auto simp: threads_fail_at_def)
  then obtain m' where m': "thread_pool_destroy env (?p, s) = Some (m', s)" "no_objects m'"
    "id_arrays m' = a_arrays (a_fresh pc {..<k} m)"
    using destroy_idle [OF fresh_rel [OF m, of pc "{..<k}"], of env s] by (auto simp: a_fresh_def)
  have k: "k < length init_workers_basic" using pc(1) by (simp add: threads_fail_at_def init_workers_basic_def)
  then have "(init_workers_basic ! k)\<lparr>tid := snd (pc k)\<rparr> = started pc {..<k} init_workers_basic ! k"
    using pc by (simp add: started_def threads_fail_at_def) (simp add: init_workers_basic_def)
  then have "create_all_workers pc (fresh_pool m) = (False, ?p)"
    using create_all_workers_fails [OF pc(1), of m] by (metis list_update_id)
  with m' that show thesis by (simp add: thread_pool_init_def a_fresh_def)
qed

text \<open>
  When the failed call left a thread id other than 0, destruction waits for a thread that does not
  exist, after joining those that do.
\<close>

lemma join_loop_append:
  "join_loop env (is @ js) ps = do { ps1 \<leftarrow> join_loop env is ps; join_loop env js ps1 }"
  by (induction "is" arbitrary: ps) (auto split: Option.bind_splits)

lemma join_loop_idle:
  assumes "is_destroying p" "distinct is"
    and "\<forall>i \<in> set is. i < length (workers p) \<and> state (workers p ! i) = WORKER_STATE_IDLE \<and> pending_req (workers p ! i) = 0"
  shows "\<exists>p'. join_loop env is (p, s) = Some (p', s) \<and> (\<forall>j. j \<notin> set is \<longrightarrow> workers p' ! j = workers p ! j)"
  using assms
proof (induction "is" arbitrary: p)
  case (Cons i "is")
  let ?p = "set_worker i ((workers p ! i)\<lparr>state := WORKER_STATE_EXIT\<rparr>) p"
  have "worker_turn env i (p, s) = Some (?p, s)" using Cons.prems(1,3) by (simp add: worker_turn_def)
  moreover have "join_worker env i (?p, s) = Some (?p, s)"
    using Cons.prems(3) by (subst join_worker.simps) (simp add: set_worker_def)
  ultimately have "join_worker env i (p, s) = Some (?p, s)"
    using Cons.prems(3) by (subst join_worker.simps) simp
  then obtain p1 where p1: "(if tid (workers p ! i) \<noteq> 0 then join_worker env i (p, s) else Some (p, s)) = Some (p1, s)"
    "p1 = p \<or> p1 = ?p" by (cases "tid (workers p ! i) = 0") auto
  have "is_destroying p1" "length (workers p1) = length (workers p)" "\<forall>j. j \<noteq> i \<longrightarrow> workers p1 ! j = workers p ! j"
    using p1(2) Cons.prems(1) by (auto simp: set_worker_def)
  moreover have "i \<notin> set is" using Cons.prems(2) by simp
  ultimately have w: "is_destroying p1" "\<forall>j \<in> set is. j < length (workers p1) \<and> state (workers p1 ! j) = WORKER_STATE_IDLE \<and>
      pending_req (workers p1 ! j) = 0" "\<forall>j. j \<noteq> i \<longrightarrow> workers p1 ! j = workers p ! j"
    using Cons.prems(3) by auto
  obtain p2 where "join_loop env is (p1, s) = Some (p2, s)" "\<forall>j. j \<notin> set is \<longrightarrow> workers p2 ! j = workers p1 ! j"
    using Cons.IH [OF w(1) _ w(2)] Cons.prems(2) by auto
  with p1(1) w(3) show ?case by auto
qed simp

lemma init_joins_nothing:
  assumes pc: "threads_fail_at k pc" "snd (pc k) \<noteq> 0"
  shows "thread_pool_init env pc True m s = None"
proof -
  let ?ws = "(started pc {..<k} init_workers_basic)[k := (init_workers_basic ! k)\<lparr>tid := snd (pc k)\<rparr>]"
  let ?p = "shutdown_threads ((fresh_pool m)\<lparr>workers := ?ws\<rparr>)"
  have k: "k < NUM_WORKERS" using pc(1) by (simp add: threads_fail_at_def)
  have len: "length init_workers_basic = NUM_WORKERS" by (simp add: init_workers_basic_def)
  have "workers ?p ! i = (init_workers_basic ! i)\<lparr>tid := snd (pc i), state := WORKER_STATE_IDLE\<rparr>" if "i < k" for i
    using that k len by (simp add: shutdown_threads_def started_def)
  then have "\<forall>i \<in> set [0..<k]. i < length (workers ?p) \<and> state (workers ?p ! i) = WORKER_STATE_IDLE \<and>
      pending_req (workers ?p ! i) = 0"
    using k len by (auto simp: shutdown_threads_def started_def init_workers_basic_def)
  then obtain p' where p': "join_loop env [0..<k] (?p, s) = Some (p', s)" "workers p' ! k = workers ?p ! k"
    using join_loop_idle [of ?p "[0..<k]" env s] by (auto simp: shutdown_threads_def)
  have "workers ?p ! k = (init_workers_basic ! k)\<lparr>tid := snd (pc k)\<rparr>"
    using k len by (simp add: shutdown_threads_def started_def)
  then have "tid (workers p' ! k) \<noteq> 0" "state (workers p' ! k) = WORKER_STATE_INIT"
    using p'(2) pc(2) k by (simp_all add: init_workers_basic_def)
  then have "join_worker env k (p', s) = None" "tid (workers p' ! k) \<noteq> 0"
    by (simp_all add: join_worker.simps [of env k "(p', s)"])
  then have "join_loop env [0..<NUM_WORKERS] (?p, s) = None"
    unfolding split_workers [OF k] join_loop_append using p'(1) by simp
  then show ?thesis
    using create_all_workers_fails [OF pc(1), of m] by (simp add: thread_pool_init_def thread_pool_destroy_def)
qed

section \<open>Initialisation\<close>

text \<open>The abstract state of the pool of a new handle.\<close>

definition a_started :: "(nat \<Rightarrow> int \<times> u64) \<Rightarrow> mem \<Rightarrow> apool" where
  "a_started pc m = (a_fresh pc {..<NUM_WORKERS} m)\<lparr>a_running := True\<rparr>"

definition new_handle :: "ptr \<Rightarrow> os_transport_cfg \<Rightarrow> pool option \<Rightarrow> os_transport_handle" where
  "new_handle ctx cfg p = \<lparr>oh_urma_ctx = ctx, oh_worker_thread_num = cfg_worker_thread_num cfg,
     oh_event_mode = cfg_event_mode cfg, oh_thread_pool = p\<rparr>"

lemma transport_init_ok:
  fixes st :: "'x ost"
  assumes s: "\<not> g_inited st" "tm_ok (theap st)" "malloc_ok (theap st) (calls (theap st))"
    and m: "no_objects (pheap st)" and pc: "\<forall>i < NUM_WORKERS. fst (pc i) = 0"
  obtains p st' where "os_transport_init e pc True ctx (Some cfg) True st = Some ((0, brk (theap st)), st')"
    "handle_with (brk (theap st)) p (a_started pc (pheap st)) st'"
    "handles st' = (handles st)(brk (theap st) \<mapsto> new_handle ctx cfg (Some p))"
    "same_objs (theap st) (theap st')" "dev st' = dev st" "pheap st' = pheap st"
    "urma_jfce p = cfg_jfce cfg" "urma_jfc p = cfg_jfc cfg" "urma_event_mode p = cfg_event_mode cfg"
    "brk (theap st) < brk (theap st')"
proof -
  let ?h = "brk (theap st)" and ?m = "(theap st)\<lparr>brk := Suc (brk (theap st)), calls := Suc (calls (theap st))\<rparr>"
  have h: "malloc1 (theap st) = (?h, ?m)" "?h \<noteq> NULL"
    using s(3) tm_okD(1) [OF s(2)] by (simp_all add: malloc_n_def)
  obtain p where p: "thread_pool_init (transport_env e) pc True (pheap st) (?m, dev st) = Some (Inr p, (?m, dev st))"
    "pool_rel p (a_fresh pc {..<NUM_WORKERS} (pheap st))"
    by (rule init_ok [OF m, of pc "transport_env e" "(?m, dev st)"]) (use pc in auto)
  have run: "\<not> is_running p" using relD(5) p(2) by (auto simp: pool_rel_def a_fresh_def)
  let ?p1 = "p\<lparr>urma_jfce := cfg_jfce cfg, urma_jfc := cfg_jfc cfg, urma_event_mode := cfg_event_mode cfg\<rparr>"
  let ?p2 = "?p1\<lparr>is_running := True\<rparr>"
  let ?st' = "st\<lparr>g_inited := True, handles := (handles st)(?h \<mapsto> new_handle ctx cfg (Some ?p2)), theap := ?m\<rparr>"
  have start: "thread_pool_start ?p1 = (0, ?p2)" using run by (simp add: thread_pool_start_def)
  have eq: "os_transport_init e pc True ctx (Some cfg) True st = Some ((0, ?h), ?st')"
    using s(1) h p(1) start
    by (cases st) (simp add: os_transport_init_def os_transport_reg_jfc_def update_jfc_for_poll_def set_pool_def
        get_pool_def new_handle_def Let_def)
  have "pool_rel ?p1 (a_fresh pc {..<NUM_WORKERS} (pheap st))" using p(2) by simp
  from start_refine [OF this] start have "pool_rel ?p2 (a_started pc (pheap st))"
    by (simp add: a_start_def a_started_def) (simp add: a_fresh_def)
  moreover have so: "same_objs (theap st) ?m" by simp
  ultimately have "handle_with ?h ?p2 (a_started pc (pheap st)) ?st'"
    using h(2) same_objs_tm_ok [OF so s(2)] by (simp add: handle_with_def get_pool_def new_handle_def)
  with eq so show thesis by (intro that [of ?st' ?p2]) simp_all
qed

text \<open>A started pool with an allocator that does not fail is ready for a request of any id.\<close>

lemma started_ready:
  assumes "\<forall>n. malloc_ok m n" "q \<noteq> 0" shows "ready (a_started pc m) 0 q"
proof -
  have "[0..<NUM_WORKERS] = 0 # [1..<NUM_WORKERS]" by (simp add: NUM_WORKERS_def upt_conv_Cons)
  then have "a_select (a_started pc m) = Some 0"
    by (simp add: a_select_def a_started_def a_fresh_def NUM_WORKERS_def)
  then show ?thesis using assms by (simp add: ready_def a_started_def a_fresh_def NUM_WORKERS_def)
qed

text \<open>When the k-th thread does not start, nothing is left but the counters of the allocators.\<close>

lemma transport_init_fails:
  fixes st :: "'x ost"
  assumes s: "\<not> g_inited st" "tm_ok (theap st)" and m: "no_objects (pheap st)"
    and fresh: "handles st (brk (theap st)) = None"
    and fail: "\<not> malloc_ok (theap st) (calls (theap st)) \<or> \<not> pool_ok \<or> threads_fail_at k pc \<and> snd (pc k) = 0"
  obtains st' where "os_transport_init e pc pool_ok ctx (Some cfg) True st = Some ((minus_one32, NULL), st')"
    "\<not> g_inited st'" "handles st' = handles st" "same_objs (theap st) (theap st')" "dev st' = dev st"
    "no_objects (pheap st')" "id_arrays (pheap st') = id_arrays (pheap st)"
proof (cases "malloc_ok (theap st) (calls (theap st))")
  case False
  then have "malloc1 (theap st) = (NULL, (theap st)\<lparr>calls := Suc (calls (theap st))\<rparr>)" by (simp add: malloc_n_def)
  with s(1) have eq: "os_transport_init e pc pool_ok ctx (Some cfg) True st
      = Some ((minus_one32, NULL), st\<lparr>theap := (theap st)\<lparr>calls := Suc (calls (theap st))\<rparr>\<rparr>)"
    by (simp add: os_transport_init_def)
  show thesis by (rule that [OF eq]) (use s(1) m in simp_all)
next
  case True
  let ?h = "brk (theap st)" and ?m = "(theap st)\<lparr>brk := Suc (brk (theap st)), calls := Suc (calls (theap st))\<rparr>"
  have h: "malloc1 (theap st) = (?h, ?m)" "?h \<noteq> NULL"
    using True tm_okD(1) [OF s(2)] by (simp_all add: malloc_n_def)
  have "\<exists>m'. thread_pool_init (transport_env e) pc pool_ok (pheap st) (?m, dev st) = Some (Inl m', (?m, dev st)) \<and>
      no_objects m' \<and> id_arrays m' = id_arrays (pheap st)"
  proof (cases pool_ok)
    case True
    with fail \<open>malloc_ok (theap st) (calls (theap st))\<close> have "threads_fail_at k pc" "snd (pc k) = 0" by simp_all
    with True init_fails [OF m, of k pc "transport_env e" "(?m, dev st)"] show ?thesis by metis
  qed (use m in \<open>simp add: thread_pool_init_def\<close>)
  then obtain m' where m': "thread_pool_init (transport_env e) pc pool_ok (pheap st) (?m, dev st)
      = Some (Inl m', (?m, dev st))" "no_objects m'" "id_arrays m' = id_arrays (pheap st)" by blast
  have eq: "os_transport_init e pc pool_ok ctx (Some cfg) True st
      = Some ((minus_one32, NULL), st\<lparr>theap := ?m, pheap := m'\<rparr>)"
    using s(1) h m'(1) fresh
    by (cases st) (simp add: os_transport_init_def init_fail_def free_handle_def Let_def fun_upd_idem)
  show thesis by (rule that [OF eq]) (use s(1) m'(2,3) in simp_all)
qed

text \<open>With a thread id left by the failed call, initialisation is undefined.\<close>

lemma transport_init_undefined:
  fixes st :: "'x ost"
  assumes "\<not> g_inited st" "tm_ok (theap st)" "malloc_ok (theap st) (calls (theap st))"
    and "threads_fail_at k pc" "snd (pc k) \<noteq> 0"
  shows "os_transport_init e pc True ctx (Some cfg) True st = None"
proof -
  have h: "malloc1 (theap st) = (brk (theap st), (theap st)\<lparr>brk := Suc (brk (theap st)), calls := Suc (calls (theap st))\<rparr>)"
    "brk (theap st) \<noteq> NULL" using assms(3) tm_okD(1) [OF assms(2)] by (simp_all add: malloc_n_def)
  have "thread_pool_init (transport_env e) pc True (pheap st)
      ((theap st)\<lparr>brk := Suc (brk (theap st)), calls := Suc (calls (theap st))\<rparr>, dev st) = None"
    by (rule init_joins_nothing [OF assms(4,5)])
  with assms(1) h show ?thesis by (simp add: os_transport_init_def Let_def)
qed

section \<open>Destruction\<close>

lemma transport_destroy_ok:
  fixes st :: "'x ost"
  assumes h: "handle_with h p a st" and a: "joinable a" "\<forall>i < NUM_WORKERS. a_pend a ! i = 0"
  obtains st' where "os_transport_destroy e h st = Some (0, st')" "\<not> g_inited st'"
    "handles st' = (handles st)(h := None)" "theap st' = theap st" "dev st' = dev st"
    "no_objects (pheap st')" "id_arrays (pheap st') = a_arrays a"
proof -
  obtain oh where d: "h \<noteq> NULL" "g_inited st" "handles st h = Some oh" "oh_thread_pool oh = Some p" "pool_rel p a"
    using handle_withD [OF h] by metis
  obtain m where m: "thread_pool_destroy (transport_env e) (p, theap st, dev st) = Some (m, theap st, dev st)"
    "no_objects m" "id_arrays m = a_arrays a"
    by (rule destroy_idle [OF d(5) a])
  have eq: "os_transport_destroy e h st = Some (0, st\<lparr>g_inited := False, handles := (handles st)(h := None), pheap := m\<rparr>)"
    using d m(1) by (simp add: os_transport_destroy_def destroy_pool_def set_pool_def free_handle_def)
  show thesis by (rule that [OF eq]) (use m(2,3) in simp_all)
qed


section \<open>After a transfer\<close>

text \<open>Once a transfer is gone the handle is as good as before.\<close>

lemma gone_handle:
  fixes st st' :: "'x ost"
  assumes h: "handle_with h p a st" and g: "transfer_gone h a st st'"
  obtains p' a' where "handle_with h p' a' st'" "\<And>j r. ready a j r \<Longrightarrow> ready a' j r" "kept a a'"
    "a_queues a' = a_queues a" "a_ctx a' = a_ctx a" "env_ok (theap st) \<Longrightarrow> env_ok (theap st')"
    "handles st' h \<noteq> None" "pheap st' = pheap st" "\<And>g. g \<noteq> h \<Longrightarrow> handles st' g = handles st g"
proof -
  obtain oh p' a' where o: "handles st h = Some oh" "st' = with_pool h oh p' (theap st') (dev st') st"
    "pool_rel p' a'" "a_queues a' = a_queues a" "a_ctx a' = a_ctx a" "kept a a'"
    and so: "same_objs (theap st) (theap st')"
    using g by (auto simp: transfer_gone_def)
  have "handle_with h p' a' st'"
    using h o(3) same_objs_tm_ok [OF so] by (subst o(2)) (simp add: handle_with_def)
  moreover have "ready a' j r" if "ready a j r" for j r
    using that o(4-6) a_select_cong [of a' a] by (simp add: ready_def kept_def)
  moreover have "env_ok (theap st')" if "env_ok (theap st)"
    using that same_objsD(2,9) [OF so] by (simp add: env_ok_def)
  moreover have "handles st' h \<noteq> None" "pheap st' = pheap st" by (subst o(2), simp)+
  moreover have "handles st' g = handles st g" if "g \<noteq> h" for g using that by (subst o(2)) (simp add: with_pool_def)
  ultimately show thesis using o(4-6) by (intro that [of p' a']) auto
qed

lemma kept_joinable: "kept a a' \<Longrightarrow> joinable a \<Longrightarrow> joinable a'"
  using joinable_cong [of a' a] by (simp add: kept_def)

end
