(* ===== verification/PoolProps.thy ===== *)
theory PoolProps
  imports PoolFacts
begin

text \<open>
  The properties of the thread pool, and the concrete pool their witnesses run: 64 threads, an
  allocator that never fails, and an application that records the argument of every task it
  runs and the id every completion callback is given.
\<close>

section \<open>A concrete pool\<close>

definition example_heap :: mem where
  "example_heap =
     \<lparr>brk = 1, calls = 0, malloc_ok = (\<lambda>_. True), nodes = Map.empty, tasks = Map.empty,
      itasks = Map.empty, ctxs = Map.empty, id_arrays = Map.empty\<rparr>"

definition example_threads :: "nat \<Rightarrow> int \<times> u64" where
  "example_threads i = (0, of_nat i + 1)"

definition example_env :: "nat list env" where
  "example_env =
     \<lparr>exec = (\<lambda>fn arg s. Some (0, s @ [arg])),
      callback = (\<lambda>cb new_id success data s. Some (s @ [cb, unat new_id]))\<rparr>"

definition example_pool :: pool where
  "example_pool = (fresh_pool example_heap)
     \<lparr>workers := started example_threads {..<NUM_WORKERS} init_workers_basic\<rparr>"

definition example_abs :: apool where
  "example_abs = a_fresh example_threads {..<NUM_WORKERS} example_heap"

lemma example_no_objects: "no_objects example_heap"
  by (simp add: no_objects_def owns_def example_heap_def)

lemma example_malloc_ok: "malloc_ok example_heap n"
  by (simp add: example_heap_def)

text \<open>Every \<open>pthread_create\<close> succeeds and stores a thread id other than 0.\<close>

definition threads_start :: "(nat \<Rightarrow> int \<times> u64) \<Rightarrow> bool" where
  "threads_start pc \<longleftrightarrow> (\<forall>i < NUM_WORKERS. fst (pc i) = 0 \<and> snd (pc i) \<noteq> 0)"

lemma example_threads_ok:
  assumes "i < NUM_WORKERS"
  shows "fst (example_threads i) = 0" "snd (example_threads i) \<noteq> 0"
proof -
  show "fst (example_threads i) = 0" by (simp add: example_threads_def)
  have "unat (of_nat (i + 1) :: u64) = i + 1"
    using assms by (simp add: unat_of_nat NUM_WORKERS_def del: of_nat_Suc of_nat_add)
  then show "snd (example_threads i) \<noteq> 0" by (auto simp: example_threads_def add.commute)
qed

lemma example_threads_start: "threads_start example_threads"
  by (simp add: threads_start_def example_threads_ok)

lemma example_total: "total_env example_env"
  by (simp add: total_env_def example_env_def)

lemma init_pool:
  assumes "no_objects m" "threads_start pc"
    and "thread_pool_init env pc True m s = Some (Inr p, s')"
  shows "s' = s" "pool_rel p (a_fresh pc {..<NUM_WORKERS} m)"
proof -
  obtain q where "thread_pool_init env pc True m s = Some (Inr q, s)"
    "pool_rel q (a_fresh pc {..<NUM_WORKERS} m)"
    by (rule init_ok [OF assms(1), of pc env s]) (use assms(2) in \<open>auto simp: threads_start_def\<close>)
  with assms(3) show "s' = s" "pool_rel p (a_fresh pc {..<NUM_WORKERS} m)" by simp_all
qed

lemma example_init: "thread_pool_init example_env example_threads True example_heap [] = Some (Inr example_pool, [])"
proof -
  have w: "workers (fresh_pool example_heap) = init_workers_basic" "length init_workers_basic = NUM_WORKERS"
    by (simp_all add: fresh_pool_def init_workers_basic_def)
  have "create_all_workers example_threads (fresh_pool example_heap)
      = (True, (fresh_pool example_heap)\<lparr>workers := started example_threads (set [0..<NUM_WORKERS])
          init_workers_basic\<rparr>)"
    unfolding create_all_workers_def
    by (subst create_workers_loop_ok) (use example_threads_ok(1) w in auto)
  moreover have "set [0..<NUM_WORKERS] = {..<NUM_WORKERS}" by auto
  ultimately show ?thesis by (simp add: thread_pool_init_def example_pool_def)
qed

lemma example_rel: "pool_rel example_pool example_abs"
  unfolding example_abs_def
  by (rule init_pool(2) [OF example_no_objects example_threads_start example_init])

text \<open>Carrying a run of the abstract example over to the pool.\<close>

lemma example_run:
  assumes "run (a_do example_env) ls (example_abs, []) = Some (vs, a, s)"
  obtains p where "run (pool_do example_env) ls (example_pool, []) = Some (vs, p, s)" "pool_rel p a"
proof -
  have "state_rel (example_pool, []) (example_abs, [])"
    using example_rel by (simp add: state_rel_def)
  from pool_sim.run_sim [OF this, of example_env ls] assms obtain ps where
    "run (pool_do example_env) ls (example_pool, []) = Some (vs, ps)" "state_rel ps (a, s)"
    by (auto simp: option_rel_Some2)
  then show thesis by (intro that [of "fst ps"]) (cases ps; auto simp: state_rel_def)+
qed

section \<open>The pool as a whole\<close>

text \<open>
  C4.  Refinement.  A pool that \<open>thread_pool_init\<close> hands out behaves as the abstract pool under
  every sequence of operations, in every interleaving with the workers' turns: the two sequences
  are defined together, return the same values, leave the application in the same state, and
  end in related pools.
\<close>

theorem pool_refines_abstract:
  assumes "no_objects m" "threads_start pc"
  shows "\<exists>p. thread_pool_init env pc True m s = Some (Inr p, s) \<and>
    (\<forall>ls. rel_option (rel_prod (=) state_rel) (run (pool_do env) ls (p, s))
       (run (a_do env) ls (a_fresh pc {..<NUM_WORKERS} m, s)))"
proof -
  obtain p where p: "thread_pool_init env pc True m s = Some (Inr p, s)"
    "pool_rel p (a_fresh pc {..<NUM_WORKERS} m)"
    by (rule init_ok [OF assms(1), of pc env s]) (use assms(2) in \<open>auto simp: threads_start_def\<close>)
  then have "state_rel (p, s) (a_fresh pc {..<NUM_WORKERS} m, s)" by (simp add: state_rel_def)
  with p(1) pool_sim.run_sim show ?thesis by blast
qed

theorem pool_refines_abstract_witness:
  "\<exists>p. thread_pool_init example_env example_threads True example_heap [] = Some (Inr p, []) \<and>
    (\<exists>p' a'. run (pool_do example_env) [Start, Submit 7 (Some (user_fn 1)) 5 9 3, Wake 7, Turn 0] (p, [])
      = Some ([Int_val 0, Id_val 1, Int_val 0, Turn_done], p', [5, 9, 1]) \<and> pool_rel p' a')"
proof -
  let ?ls = "[Start, Submit 7 (Some (user_fn 1)) 5 9 3, Wake 7, Turn 0]"
  have "map_option (\<lambda>(vs, a, s). (vs, s)) (run (a_do example_env) ?ls (example_abs, []))
      = Some ([Int_val 0, Id_val 1, Int_val 0, Turn_done], [5, 9, 1])" by code_simp
  then obtain a where a: "run (a_do example_env) ?ls (example_abs, [])
      = Some ([Int_val 0, Id_val 1, Int_val 0, Turn_done], a, [5, 9, 1])" by auto
  obtain p where p: "thread_pool_init example_env example_threads True example_heap [] = Some (Inr p, [])"
    "\<forall>ls. rel_option (rel_prod (=) state_rel) (run (pool_do example_env) ls (p, []))
       (run (a_do example_env) ls (example_abs, []))"
    using pool_refines_abstract [OF example_no_objects example_threads_start, of example_env "[]"]
    unfolding example_abs_def by blast
  from p(2) [rule_format, of ?ls] p(1) a show ?thesis by (auto simp: option_rel_Some2 state_rel_def)
qed

text \<open>
  C5.  Memory safety and absence of leaks.  When allocations succeed, thread creation succeeds
  and the application's functions return, every sequence of operations is defined (no access to
  an object that is not live, no double free, every loop ends), and \<open>thread_pool_destroy\<close> after it
  is defined too, joins all workers, and leaves a heap without any node, task, internal task or
  context.
\<close>

theorem pool_memory_safe:
  assumes m: "no_objects m" "\<And>n. malloc_ok m n"
    and pc: "threads_start pc"
    and env: "total_env env" and bound: "sum_list (map weight ls) < 2 ^ 32"
  shows "\<exists>p vs p' s' m' s''. thread_pool_init env pc True m s = Some (Inr p, s) \<and>
    run (pool_do env) ls (p, s) = Some (vs, p', s') \<and>
    thread_pool_destroy env (p', s') = Some (m', s'') \<and> no_objects m'"
proof -
  let ?a = "a_fresh pc {..<NUM_WORKERS} m"
  obtain p where p: "thread_pool_init env pc True m s = Some (Inr p, s)" "pool_rel p ?a"
    by (rule init_ok [OF m(1), of pc env s]) (use pc in \<open>auto simp: threads_start_def\<close>)
  have "n_tasks ?a + sum_list (map weight ls) < 2 ^ 32" using bound by (simp add: n_tasks_fresh)
  from a_run_total [OF count_inv_fresh [OF m] env this, of s] obtain vs a' s'
    where a': "run (a_do env) ls (?a, s) = Some (vs, a', s')" by auto
  have "state_rel (p, s) (?a, s)" using p(2) by (simp add: state_rel_def)
  from pool_sim.run_sim [OF this, of env ls] a' obtain p' where
    p': "run (pool_do env) ls (p, s) = Some (vs, p', s')" "pool_rel p' a'"
    by (auto simp: option_rel_Some2 state_rel_def)
  have "joinable a'"
    by (rule joinable_run [OF joinable_fresh _ a']) (use pc in \<open>simp_all add: a_fresh_def threads_start_def\<close>)
  from destroy_refine [OF p'(2) this, of env s']
    a_join_loop_total [OF env, of "[0..<NUM_WORKERS]" "(a'\<lparr>a_destroying := True\<rparr>, s')"]
  obtain m' s'' where "thread_pool_destroy env (p', s') = Some (m', s'')" "no_objects m'"
    by (auto simp: option_rel_Some2)
  with p(1) p'(1) show ?thesis by blast
qed

theorem pool_memory_safe_witness:
  "\<exists>p vs p' s' m' s''. thread_pool_init example_env example_threads True example_heap [] = Some (Inr p, []) \<and>
    run (pool_do example_env) [Start, Submit 7 (Some (user_fn 1)) 5 9 3, Cancel 7] (p, []) = Some (vs, p', s') \<and>
    thread_pool_destroy example_env (p', s') = Some (m', s'') \<and> no_objects m'"
  by (rule pool_memory_safe [OF example_no_objects example_malloc_ok example_threads_start example_total]) simp_all

text \<open>A run from \<open>thread_pool_init\<close>, seen abstractly.\<close>

lemma run_from_init:
  assumes "no_objects m" "threads_start pc" "thread_pool_init env pc True m s = Some (Inr p, s0)"
    and "run (pool_do env) ls (p, s0) = Some (vs, p', s')"
  obtains a where "run (a_do env) ls (a_fresh pc {..<NUM_WORKERS} m, s) = Some (vs, a, s')"
    "pool_rel p' a"
proof -
  note i = init_pool [OF assms(1-3)]
  have "state_rel (p, s) (a_fresh pc {..<NUM_WORKERS} m, s)" using i(2) by (simp add: state_rel_def)
  from pool_sim.run_sim [OF this, of env ls] assms(4) i(1) obtain as where
    "run (a_do env) ls (a_fresh pc {..<NUM_WORKERS} m, s) = Some (vs, as)" "state_rel (p', s') as"
    by (auto simp: option_rel_Some1)
  then show thesis by (intro that [of "fst as"]) (cases as; auto simp: state_rel_def)+
qed

text \<open>
  C10.  The heap holds nothing but what the queues and the table reach: after every run one node,
  one task and one internal task per queued task, one context per request in the table, and
  besides them only the arrays of ids handed to the application.
\<close>

theorem pool_heap_exact:
  assumes "no_objects m" "threads_start pc" "thread_pool_init env pc True m s = Some (Inr p, s0)"
    and "run (pool_do env) ls (p, s0) = Some (vs, p', s')"
  shows "\<exists>a. pool_rel p' a \<and> card (dom (nodes (pmem p'))) = n_tasks a \<and>
    card (dom (tasks (pmem p'))) = n_tasks a \<and> card (dom (itasks (pmem p'))) = n_tasks a \<and>
    card (dom (ctxs (pmem p'))) = card (dom (a_ctx a)) \<and> id_arrays (pmem p') = a_arrays a"
proof -
  obtain a where "pool_rel p' a" by (rule run_from_init [OF assms])
  from this heap_counts [OF this] show ?thesis by blast
qed

definition example_ops :: "pool_op list" where
  "example_ops = [Start, Submit 7 (Some (user_fn 1)) 5 9 3, Submit 8 (Some (user_fn 1)) 6 0 3]"

definition example_after :: pool where
  "example_after = fst (snd (the (run (pool_do example_env) example_ops (example_pool, []))))"

lemma example_after_run:
  "run (pool_do example_env) example_ops (example_pool, [])
     = Some ([Int_val 0, Id_val 1, Id_val 2], example_after, [])"
proof -
  have "map_option (\<lambda>(vs, a, s). (vs, s)) (run (a_do example_env) example_ops (example_abs, []))
      = Some ([Int_val 0, Id_val 1, Id_val 2], [])" by code_simp
  then obtain a where "run (a_do example_env) example_ops (example_abs, [])
      = Some ([Int_val 0, Id_val 1, Id_val 2], a, [])" by auto
  from example_run [OF this] obtain p where p: "run (pool_do example_env) example_ops (example_pool, [])
      = Some ([Int_val 0, Id_val 1, Id_val 2], p, [])" by metis
  have "example_after = p" unfolding example_after_def p by simp
  with p show ?thesis by simp
qed

theorem pool_heap_exact_witness:
  "\<exists>a. pool_rel example_after a \<and> card (dom (nodes (pmem example_after))) = n_tasks a \<and>
    card (dom (tasks (pmem example_after))) = n_tasks a \<and>
    card (dom (itasks (pmem example_after))) = n_tasks a \<and>
    card (dom (ctxs (pmem example_after))) = card (dom (a_ctx a)) \<and>
    id_arrays (pmem example_after) = a_arrays a"
  by (rule pool_heap_exact [OF example_no_objects example_threads_start example_init example_after_run])

text \<open>
  C12.  The pending count of a request.  When no allocation fails, after every run a request has
  a context in the table exactly when tasks of it are queued, and the context's pending count
  is their number.
\<close>

theorem pool_pending_counts:
  assumes "no_objects m" "\<And>n. malloc_ok m n" "threads_start pc"
    and "thread_pool_init env pc True m s = Some (Inr p, s0)"
    and "run (pool_do env) ls (p, s0) = Some (vs, p', s')" "sum_list (map weight ls) < 2 ^ 32"
  shows "\<exists>a. pool_rel p' a \<and>
    (\<forall>r. if queued a r = 0 then find_req_context (pmem p') (req_hash p') r = Some NULL
         else \<exists>c cx. find_req_context (pmem p') (req_hash p') r = Some c \<and> c \<noteq> NULL \<and>
           ctxs (pmem p') c = Some cx \<and> unat (rc_pending_count cx) = queued a r)"
proof -
  obtain a where a: "run (a_do env) ls (a_fresh pc {..<NUM_WORKERS} m, s) = Some (vs, a, s')"
    "pool_rel p' a" by (rule run_from_init [OF assms(1,3-5)])
  have "count_inv a"
    by (rule count_run [OF count_inv_fresh [OF assms(1,2)] _ a(1)]) (use assms(6) in \<open>simp add: n_tasks_fresh\<close>)
  then have c: "count_ok a" by (simp add: count_inv_def)
  obtain xss where r: "rel p' a xss {} {} {}" using a(2) by (auto simp: pool_rel_def)
  have "if queued a q = 0 then find_req_context (pmem p') (req_hash p') q = Some NULL
      else \<exists>c cx. find_req_context (pmem p') (req_hash p') q = Some c \<and> c \<noteq> NULL \<and>
        ctxs (pmem p') c = Some cx \<and> unat (rc_pending_count cx) = queued a q" for q
  proof (cases "a_ctx a q")
    case None
    with count_okD(2) [OF c None] rel_find_none [OF r None] show ?thesis by simp
  next
    case (Some x)
    obtain q' cx where "find_req_context (pmem p') (req_hash p') q = Some q'" "q' \<noteq> NULL"
      "ctxs (pmem p') q' = Some cx" "rc_pending_count cx = ac_pending x"
      by (rule rel_find_some [OF r Some])
    with count_okD(3) [OF c Some] show ?thesis by auto
  qed
  with a(2) show ?thesis by blast
qed

theorem pool_pending_counts_witness:
  "\<exists>a. pool_rel example_after a \<and>
    (\<forall>r. if queued a r = 0
         then find_req_context (pmem example_after) (req_hash example_after) r = Some NULL
         else \<exists>c cx. find_req_context (pmem example_after) (req_hash example_after) r = Some c \<and>
           c \<noteq> NULL \<and> ctxs (pmem example_after) c = Some cx \<and>
           unat (rc_pending_count cx) = queued a r)"
  by (rule pool_pending_counts [OF example_no_objects example_malloc_ok example_threads_start
        example_init example_after_run]) (simp add: example_ops_def)

text \<open>
  C13.  A batch is worked off.  A batch that finds a worker with an empty queue, woken once per
  task, runs all its tasks in the order of the array, each followed by its completion callback,
  and after the last one the batch callback; then the queues and the table are as before.
\<close>

theorem batch_worked_off:
  assumes "pool_rel p a" "\<forall>n. malloc_ok a n" "a_running a"
    and ts: "ts \<noteq> []" "\<forall>t \<in> set ts. request_id t = q" "q \<noteq> 0" "length ts < 2 ^ 32"
    and sel: "a_select a = Some i" "a_queues a ! i = []" and none: "a_ctx a q = None"
    and run: "a_run_tasks env (batch_tasks ts (next_task_id p) cb data) s = Some s1"
    and batch_cb: "call_cb env bcb 0 True bdata s1 = Some s2"
  shows "\<exists>ids vs p' a'. ids \<noteq> NULL \<and>
    run (pool_do env) (Batch ts cb data bcb bdata # concat (replicate (length ts) [Wake q, Turn i])) (p, s)
      = Some (Ids_val ids # vs, p', s2) \<and>
    pool_rel p' a' \<and> a_queues a' = a_queues a \<and> a_ctx a' = a_ctx a"
proof -
  obtain xss where r: "rel p a xss {} {} {}" using assms(1) by (auto simp: pool_rel_def)
  note l = rel_lengths [OF r]
  have brk: "0 < brk a" using ownsD(6) [OF rel_owns [OF r]] relD(1) [OF r] by simp
  have i: "i < NUM_WORKERS" "a_states a ! i = WORKER_STATE_IDLE" using a_select_Some [OF sel(1)] by auto
  let ?new = "batch_tasks ts (a_next a) cb data" and ?n = "of_nat (length ts) :: u32"
  obtain v a1 where b: "a_batch ts cb data bcb bdata a = (v, a1)" "v \<noteq> NULL" "same_rest a a1"
    "a_queues a1 = (a_queues a)[i := a_queues a ! i @ ?new]"
    "a_ctx a1 = (a_ctx a)(q \<mapsto> \<lparr>ac_worker = i, ac_pending = ?n, ac_cb = bcb, ac_data = bdata\<rparr>)"
    by (rule a_batch_ok [OF assms(2) brk assms(3) ts(1,2) sel(1) none])
  let ?c = "\<lparr>ac_worker = i, ac_pending = ?n, ac_cb = bcb, ac_data = bdata\<rparr>"
  have new: "length ?new = length ts" "?new \<noteq> []" "\<forall>t \<in> set ?new. at_req t = q"
    using ts(1,2) by (auto simp: batch_tasks_def new_atask_def)
  have "\<exists>vs. run (a_do env) (concat (replicate (length ?new) [Wake q, Turn i])) (a1, s) = Some (vs,
      a1\<lparr>a_queues := (a_queues a1)[i := []], a_pend := (a_pend a1)[i := 0],
        a_ctx := (a_ctx a1)(q := None)\<rparr>, s2)"
    by (rule drain [of a1 q ?c i ?new env s s1 s2])
      (use b(3-5) l i sel(2) new ts(3,4) run batch_cb relD(7) [OF r] in
        \<open>simp_all add: same_rest_def unat_of_nat\<close>)
  then obtain vs where d: "run (a_do env) (concat (replicate (length ts) [Wake q, Turn i])) (a1, s)
      = Some (vs, a1\<lparr>a_queues := (a_queues a1)[i := []], a_pend := (a_pend a1)[i := 0],
        a_ctx := (a_ctx a1)(q := None)\<rparr>, s2)" using new(1) by auto
  let ?a' = "a1\<lparr>a_queues := (a_queues a1)[i := []], a_pend := (a_pend a1)[i := 0],
        a_ctx := (a_ctx a1)(q := None)\<rparr>"
  have eq: "a_queues ?a' = a_queues a" "a_ctx ?a' = a_ctx a"
    using b(4,5) sel(2) none list_update_id [of "a_queues a" i] by (simp_all add: fun_upd_idem)
  let ?ls = "Batch ts cb data bcb bdata # concat (replicate (length ts) [Wake q, Turn i])"
  have a: "run (a_do env) ?ls (a, s) = Some (Ids_val v # vs, ?a', s2)" using b(1) d by simp
  have "state_rel (p, s) (a, s)" using assms(1) by (simp add: state_rel_def)
  from pool_sim.run_sim [OF this, of env ?ls, unfolded a option_rel_Some2] obtain ps where
    "run (pool_do env) ?ls (p, s) = Some (Ids_val v # vs, ps)" "state_rel ps (?a', s2)" by auto
  with b(2) eq show ?thesis by (cases ps) (auto simp: state_rel_def simp del: run.simps)
qed

definition example_task :: "ptr \<Rightarrow> ThreadPoolTask" where
  "example_task arg = \<lparr>task_id = 0, request_id = 7, task_func = user_fn 1, task_arg = arg,
     is_completed = False, free_task_self = False\<rparr>"

theorem batch_worked_off_witness:
  "\<exists>p ids vs p' a'. run (pool_do example_env) [Start] (example_pool, []) = Some ([Int_val 0], p, []) \<and>
    ids \<noteq> NULL \<and>
    run (pool_do example_env)
      [Batch [example_task 11,
         example_task 12] 21 0 31 0,
       Wake 7, Turn 0, Wake 7, Turn 0] (p, [])
      = Some (Ids_val ids # vs, p', [11, 21, 1, 12, 21, 2, 31, 0]) \<and>
    pool_rel p' a' \<and> a_queues a' = replicate NUM_WORKERS [] \<and> a_ctx a' = Map.empty"
proof -
  let ?a = "example_abs\<lparr>a_running := True\<rparr>"
  have "run (a_do example_env) [Start] (example_abs, []) = Some ([Int_val 0], ?a, [])"
    by (simp add: a_start_def example_abs_def a_fresh_def)
  from example_run [OF this] obtain p where p:
    "run (pool_do example_env) [Start] (example_pool, []) = Some ([Int_val 0], p, [])" "pool_rel p ?a" by metis
  then have next_id: "next_task_id p = 1"
    by (auto simp: pool_rel_def rel_def example_abs_def a_fresh_def)
  let ?ts = "[example_task 11,
    example_task 12]"
  have sel: "a_select ?a = Some 0" by code_simp
  have tasks_run: "a_run_tasks example_env (batch_tasks ?ts 1 21 0) [] = Some [11, 21, 1, 12, 21, 2]"
    by code_simp
  have cb: "call_cb example_env 31 0 True 0 [11, 21, 1, 12, 21, 2] = Some [11, 21, 1, 12, 21, 2, 31, 0]"
    by code_simp
  have ab: "\<forall>n. malloc_ok ?a n" "a_running ?a" "a_queues ?a = replicate NUM_WORKERS []" "a_ctx ?a = Map.empty"
    by (simp_all add: example_abs_def a_fresh_def example_heap_def)
  have "\<exists>ids vs p' a'. ids \<noteq> NULL \<and>
    run (pool_do example_env) (Batch ?ts 21 0 31 0 # concat (replicate (length ?ts) [Wake 7, Turn 0])) (p, [])
      = Some (Ids_val ids # vs, p', [11, 21, 1, 12, 21, 2, 31, 0]) \<and>
    pool_rel p' a' \<and> a_queues a' = a_queues ?a \<and> a_ctx a' = a_ctx ?a"
    by (rule batch_worked_off [OF p(2) ab(1,2) _ _ _ _ sel])
      (use tasks_run cb next_id ab(3,4) in \<open>simp_all add: NUM_WORKERS_def example_task_def\<close>)
  with p(1) ab(3,4) show ?thesis by (simp add: numeral_2_eq_2 del: run.simps pool_do.simps)
qed

end
