(* ===== verification/TransportProps.thy ===== *)
theory TransportProps
  imports TransportLife PoolProps
begin

text \<open>
  The properties of the transport: what a send and a receive do to the devices, what the
  application gets back when it waits, and what every path leaves behind.
\<close>

section \<open>A transfer that is started\<close>

text \<open>A send or receive that gets its memory is live once the call returns.\<close>

lemma send_live:
  fixes st :: "'x ost"
  assumes h: "handle_with h p a st" "handles st h = Some oh" and e: "env_ok (theap st)"
    and r: "ready a i sk" and len: "chunk_bytes < unat len"
    and cs: "cs = chunk_list (ob_addr l) (ob_addr r) len" and wi: "wi = send_info ji l r len sk ck"
  obtains p1 m1 sync where
    "os_transport_send e h (Some ji) (Some l) (Some r) len sk ck True st =
      (let (status, x) = urma_write_with_notify e wi (hd cs) (dev st); st1 = with_pool h oh p1 m1 x st
       in if status = URMA_SUCCESS e then Some ((0, sync), st1)
          else do { st2 \<leftarrow> complete_request sync st1; Some ((minus_one32, sync), st2) })"
    "sync \<noteq> NULL" "live e h oh a i sk cs sync (send_posts e wi cs) st p1 m1"
proof -
  have p: "pool_rel p a" and m: "tm_ok (theap st)" using h(1) by (auto simp: handle_with_def)
  note lt = long_transfer(3,4) [OF len, of "ob_addr l" "ob_addr r", folded cs]
  then have ne: "cs \<noteq> []" by auto
  note ch = chunks_heap_facts [OF m ne]
  have t: "\<forall>t \<in> set (send_tasks sk n z). request_id t = sk" for n z
    by (auto simp: send_tasks_def group_task_def construct_worker_task_def)
  from h len cs wi show thesis
  proof (cases rule: send_start [where e = e])
    case (refused p1 a1 m1)
    from refused(5) [OF e] obtain x where
      "fst (a_batch (send_tasks sk (length cs - 1) x) NULL NULL NULL NULL a) = NULL" by blast
    moreover have "0 < length cs - 1" using lt(1) by simp
    moreover have "length cs - 1 < 2 ^ 32" by (rule le_less_trans [OF diff_le_self lt(2)])
    ultimately show thesis using ready_batch(1) [OF p r t length_send_tasks, of "length cs - 1" x] by simp
  next
    case (queued p1 v a1 m1 sync)
    have fs: "length (send_posts e wi cs) = length cs - 1" by (simp add: send_posts_def)
    have sy: "sync = brk (chunks_heap cs (theap st))" by (rule queued(2))
    have "list_all2 (task_does e m1 sync) (batch_tasks (send_tasks sk (length cs - 1) (sync + 2 + (length cs - 1)))
        (a_next a) NULL NULL) (send_posts e wi cs)"
      unfolding sy by (rule send_tasks_do [OF queued(7) [unfolded sy]])
        (use ch(3) lt(1) tm_okD(1) [OF ch(1)] in simp_all)
    then have "live e h oh a i sk cs sync (send_posts e wi cs) st p1 m1"
      unfolding live_def fs using queued(5-7) t length_send_tasks by blast
    with queued(1,3) show thesis by (rule that)
  qed
qed

lemma recv_live:
  fixes st :: "'x ost"
  assumes h: "handle_with h p a st" "handles st h = Some oh" and e: "env_ok (theap st)"
    and r: "ready a i ck" and len: "len \<noteq> 0"
    and cs: "cs = chunk_list (ob_addr hs) (od_dst d) len" and ri: "ri = recv_info hs d ck"
  obtains p1 m1 sync where
    "os_transport_recv e h (Some hs) (Some d) len ck True st =
      (let (ok, x) = post_until (URMA_SUCCESS e) (map (urma_recv_with_notify e ri) cs) (dev st);
           st1 = with_pool h oh p1 m1 x st
       in if ok then Some ((0, sync), st1)
          else do { st2 \<leftarrow> complete_request sync st1; Some ((minus_one32, sync), st2) })"
    "sync \<noteq> NULL" "live e h oh a i ck cs sync (recv_copies e ri cs) st p1 m1"
proof -
  have p: "pool_rel p a" and m: "tm_ok (theap st)" using h(1) by (auto simp: handle_with_def)
  note num = chunks_below_32 [OF len, of "ob_addr hs" "od_dst d", folded cs]
  then have ne: "cs \<noteq> []" by auto
  note ch = chunks_heap_facts [OF m ne]
  have t: "\<forall>t \<in> set (recv_tasks ck n z). request_id t = ck" for n z
    by (auto simp: recv_tasks_def group_task_def construct_worker_task_def)
  have key: "ri_request_id ri = ck" by (simp add: ri recv_info_def)
  from h len cs ri show thesis
  proof (cases rule: recv_start [where e = e])
    case (refused p1 a1 m1)
    from refused(5) [OF e] obtain x where
      "fst (a_batch (recv_tasks ck (length cs) x) NULL NULL NULL NULL a) = NULL" by blast
    with ready_batch(1) [OF p r t length_recv_tasks, of "length cs" x] num show thesis by simp
  next
    case (queued p1 v a1 m1 sync)
    have fs: "length (recv_copies e ri cs) = length cs" by (simp add: recv_copies_def)
    have sy: "sync = brk (chunks_heap cs (theap st))" by (rule queued(2))
    have "list_all2 (task_does e m1 sync) (batch_tasks (recv_tasks ck (length cs) (sync + 2 + length cs))
        (a_next a) NULL NULL) (recv_copies e ri cs)"
      unfolding sy key [symmetric] by (rule recv_tasks_do [OF queued(7) [unfolded sy, folded key]])
        (use ch(3) tm_okD(1) [OF ch(1)] in simp_all)
    then have "live e h oh a i ck cs sync (recv_copies e ri cs) st p1 m1"
      unfolding live_def fs using queued(5-7) t length_recv_tasks by blast
    with queued(1,3) show thesis by (rule that)
  qed
qed

section \<open>A concrete transport\<close>

text \<open>Devices that record what they are asked to do, and never fail.\<close>

definition example_ext :: "(u64 \<times> u64 \<times> u32) list ext" where
  "example_ext =
     \<lparr>URMA_SUCCESS = 0, URMA_FAIL = 1,
      urma_post_jfs_wr = (\<lambda>q wr x. (0, x @ map2 (\<lambda>s d. (sge_addr s, sge_addr d, sge_len s)) (wr_src wr) (wr_dst wr))),
      urma_post_jetty_send_wr = (\<lambda>q wr x. (0, x)),
      urma_post_jfr_wr = (\<lambda>q wr x. (0, x @ map (\<lambda>s. (sge_addr s, 0, sge_len s)) (rwr_src wr))),
      cudaMemcpyAsync = (\<lambda>d s n stream x. (0, x @ [(s, d, n)])),
      cudaEventRecord = (\<lambda>ev stream x. x @ [(0, 0, 0)])\<rparr>"

text \<open>Devices that take k posts; every later one fails.\<close>

definition example_broken :: "nat \<Rightarrow> (u64 \<times> u64 \<times> u32) list ext" where
  "example_broken k = example_ext\<lparr>
     urma_post_jfs_wr := (\<lambda>q wr x. if length x < k then urma_post_jfs_wr example_ext q wr x else (1, x)),
     urma_post_jfr_wr := (\<lambda>q wr x. if length x < k then urma_post_jfr_wr example_ext q wr x else (1, x))\<rparr>"

text \<open>A transport that has not been initialised; \<open>ok\<close> says which allocations succeed.\<close>

definition example_theap :: "(nat \<Rightarrow> bool) \<Rightarrow> tmem" where
  "example_theap ok =
     \<lparr>brk = 1, calls = 0, malloc_ok = ok, syncs = Map.empty, groups = Map.empty,
      blocks = Map.empty, chunk_cells = Map.empty, task_cells = Map.empty, arg_cells = Map.empty,
      inits = 0, init_ret = (\<lambda>_. 0)\<rparr>"

definition example_state :: "(nat \<Rightarrow> bool) \<Rightarrow> 'x list ost" where
  "example_state ok = \<lparr>g_inited = False, handles = Map.empty, theap = example_theap ok, pheap = example_heap, dev = []\<rparr>"

abbreviation example_ost :: "(nat \<Rightarrow> bool) \<Rightarrow> (u64 \<times> u64 \<times> u32) list ost" where
  "example_ost \<equiv> example_state"

lemmas example_ost_def = example_state_def

definition example_cfg :: os_transport_cfg where
  "example_cfg = \<lparr>cfg_event_mode = True, cfg_worker_thread_num = 64, cfg_jfce = 3, cfg_jfc = 4\<rparr>"

definition example_jetty :: urma_jetty_info where
  "example_jetty = \<lparr>ji_jfs = 5, ji_jetty = 0, ji_tjetty = 6, ji_jetty_mode = JETTY_MODE_SIMPLEX\<rparr>"

definition example_buffer :: "u64 \<Rightarrow> ost_buffer_info" where
  "example_buffer v = \<lparr>ob_addr = v, ob_tseg = 7\<rparr>"

definition example_device :: ost_device_info where
  "example_device = \<lparr>od_jfr = 8, od_dst = 0x900000, od_stream = 9, od_event = 10\<rparr>"

definition example_cr :: "u32 \<Rightarrow> urma_cr" where
  "example_cr key = \<lparr>cr_opc = URMA_CR_OPC_SEND, cr_imm_data = 0, cr_user_ctx = user_data key MIDDLE_CHUNK 1 0\<rparr>"

lemma example_theap_ok: "tm_ok (example_theap ok)" "env_ok (example_theap (\<lambda>_. True))"
  by (simp_all add: tm_ok_def env_ok_def example_theap_def)

lemma example_cr_key: "\<forall>cr \<in> set (replicate n (example_cr key)). cr_request_id cr = Some key"
  by (simp add: example_cr_def cr_of_wr)

text \<open>The transport of the witnesses once it has been initialised.\<close>

lemma example_started:
  fixes e :: "'x list ext"
  assumes "ok 0"
  obtains p st where
    "os_transport_init e example_threads True 2 (Some example_cfg) True (example_state ok) = Some ((0, 1), st)"
    "handle_with 1 p (a_started example_threads example_heap) st"
    "(\<forall>n. ok n) \<Longrightarrow> env_ok (theap st)" "dev st = []" "joinable (a_started example_threads example_heap)"
    "\<And>q. q \<noteq> 0 \<Longrightarrow> ready (a_started example_threads example_heap) 0 q"
proof -
  let ?o = "example_state ok :: 'x list ost"
  have s: "\<not> g_inited ?o" "tm_ok (theap ?o)"
    "malloc_ok (theap ?o) (calls (theap ?o))"
    "no_objects (pheap ?o)" "\<forall>i < NUM_WORKERS. fst (example_threads i) = 0"
    "brk (theap ?o) = 1"
    using example_theap_ok(1) [of ok] example_no_objects example_threads_ok assms
    by (simp_all add: example_state_def) (simp_all add: example_theap_def)
  obtain p st where i: "os_transport_init e example_threads True 2 (Some example_cfg) True ?o
      = Some ((0, 1), st)" "handle_with 1 p (a_started example_threads (pheap ?o)) st"
    "same_objs (theap ?o) (theap st)" "dev st = dev ?o"
    using transport_init_ok [OF s(1-5), of e 2 example_cfg] unfolding s(6) by metis
  have "env_ok (theap st)" if "\<forall>n. ok n"
    using same_objsD(2,9) [OF i(3)] that by (simp add: env_ok_def example_state_def example_theap_def)
  moreover have "joinable (a_started example_threads example_heap)"
    using joinable_fresh [of "{..<NUM_WORKERS}" example_threads example_heap] example_threads_ok(2)
      joinable_cong [of "a_started example_threads example_heap" "a_fresh example_threads {..<NUM_WORKERS} example_heap"]
    by (simp add: a_started_def)
  moreover have "ready (a_started example_threads example_heap) 0 q" if "q \<noteq> 0" for q
    by (rule started_ready) (use that example_malloc_ok in simp_all)
  ultimately show thesis using i by (intro that [of st p]) (simp_all add: example_state_def)
qed

section \<open>A transfer from its start to its end\<close>

text \<open>
  C1.  A send of more than 2 MiB.  On a handle with an idle worker and no request of this key, the
  call posts the first chunk and returns a synchronisation object; the completions of the request,
  each followed by a turn of its worker, post the following chunks one by one, in order; waiting
  then says what is known: still waiting, success when every chunk was posted, failure as soon as
  one post failed.  Once it returns, all memory of the request is gone and the pool is as before.
\<close>

theorem send_life:
  fixes st :: "'x ost"
  assumes "handle_with h p a st" "env_ok (theap st)" "ready a i sk" "chunk_bytes < unat len"
    and "cs = chunk_list (ob_addr l) (ob_addr r) len" "wi = send_info ji l r len sk ck"
    and first: "urma_write_with_notify e wi (hd cs) (dev st) = (URMA_SUCCESS e, x1)"
    and crs: "length crs \<le> length cs - 1" "\<forall>cr \<in> set crs. cr_request_id cr = Some sk"
    and posts: "seq (take (length crs) (send_posts e wi cs)) x1 = (rs, x2)"
  shows "\<exists>sync st1 vs st2 st3. sync \<noteq> NULL \<and> dev st1 = x1 \<and>
    os_transport_send e h (Some ji) (Some l) (Some r) len sk ck True st = Some ((0, sync), st1) \<and>
    run (ost_do e) (work_off h i crs) st1 = Some (vs, st2) \<and> dev st2 = x2 \<and>
    wait_and_free_sync h sync st2 = Some (wait_result (length cs - 1) rs, st3) \<and>
    (if wait_result (length cs - 1) rs = Waiting then st3 = st2 else transfer_gone h a st st3 \<and> dev st3 = x2)"
proof -
  obtain oh where oh: "handles st h = Some oh" using handle_withD [OF assms(1)] by metis
  note lt = long_transfer(3,4) [OF assms(4), of "ob_addr l" "ob_addr r", folded assms(5)]
  obtain p1 m1 sync where s: "os_transport_send e h (Some ji) (Some l) (Some r) len sk ck True st =
      (let (status, x) = urma_write_with_notify e wi (hd cs) (dev st); st1 = with_pool h oh p1 m1 x st
       in if status = URMA_SUCCESS e then Some ((0, sync), st1)
          else do { st2 \<leftarrow> complete_request sync st1; Some ((minus_one32, sync), st2) })"
    "sync \<noteq> NULL" "live e h oh a i sk cs sync (send_posts e wi cs) st p1 m1"
    by (rule send_live [OF assms(1) oh assms(2-6)])
  have n: "length (send_posts e wi cs) = length cs - 1" "0 < length cs - 1" "length cs - 1 < 2 ^ 32" "cs \<noteq> []"
    using lt le_less_trans [OF diff_le_self lt(2)] by (auto simp: send_posts_def)
  obtain vs st2 st3 where "run (ost_do e) (work_off h i crs) (with_pool h oh p1 m1 x1 st) = Some (vs, st2)" "dev st2 = x2"
    "wait_and_free_sync h sync st2 = Some (wait_result (length cs - 1) rs, st3)" "dev st3 = x2"
    "wait_result (length cs - 1) rs = Waiting \<Longrightarrow> st3 = st2"
    "wait_result (length cs - 1) rs \<noteq> Waiting \<Longrightarrow> transfer_gone h a st st3"
    using live_outcome [OF assms(1) oh assms(3) n(4) s(3), of crs x1 rs x2] n crs posts by (auto simp: n(1))
  then show ?thesis using s(1,2) first
    by (intro exI [of _ sync] exI [of _ "with_pool h oh p1 m1 x1 st"] exI [of _ vs] exI [of _ st2] exI [of _ st3]) simp
qed

theorem send_life_witness:
  "\<exists>st sync st1 vs st2 st3.
    os_transport_init example_ext example_threads True 2 (Some example_cfg) True (example_ost (\<lambda>_. True)) = Some ((0, 1), st) \<and>
    os_transport_send example_ext 1 (Some example_jetty) (Some (example_buffer 0x1000000))
      (Some (example_buffer 0x5000000)) 0x500000 77 78 True st = Some ((0, sync), st1) \<and>
    dev st1 = [(0x1000000, 0x5000000, 0x200000)] \<and>
    run (ost_do example_ext) (work_off 1 0 [example_cr 77, example_cr 77]) st1 = Some (vs, st2) \<and>
    dev st2 = [(0x1000000, 0x5000000, 0x200000), (0x1200000, 0x5200000, 0x200000), (0x1400000, 0x5400000, 0x100000)] \<and>
    wait_and_free_sync 1 sync st2 = Some (Returned 0, st3) \<and>
    transfer_gone 1 (a_started example_threads example_heap) st st3"
proof -
  obtain p st where i: "os_transport_init example_ext example_threads True 2 (Some example_cfg) True (example_ost (\<lambda>_. True))
      = Some ((0, 1), st)" "handle_with 1 p (a_started example_threads example_heap) st"
    "env_ok (theap st)" "dev st = []" "ready (a_started example_threads example_heap) 0 77"
    by (rule example_started [of "\<lambda>_. True" example_ext]) simp_all
  let ?l = "example_buffer 0x1000000" and ?r = "example_buffer 0x5000000"
  let ?cs = "chunk_list (ob_addr ?l) (ob_addr ?r) 0x500000" and ?wi = "send_info example_jetty ?l ?r 0x500000 77 78"
  have first: "urma_write_with_notify example_ext ?wi (hd ?cs) (dev st)
      = (URMA_SUCCESS example_ext, [(0x1000000, 0x5000000, 0x200000)])"
    unfolding i(4) by code_simp
  have posts: "seq (take (length [example_cr 77, example_cr 77]) (send_posts example_ext ?wi ?cs))
      [(0x1000000, 0x5000000, 0x200000)] = ([0, 0], [(0x1000000, 0x5000000, 0x200000),
        (0x1200000, 0x5200000, 0x200000), (0x1400000, 0x5400000, 0x100000)])" by code_simp
  have n: "length ?cs - 1 = 2" by code_simp
  have w: "wait_result 2 [0, 0] = Returned 0" by (simp add: wait_result_def failed_def)
  have crs: "\<forall>cr \<in> set [example_cr 77, example_cr 77]. cr_request_id cr = Some 77"
    using example_cr_key [of 2 77] by (simp add: numeral_2_eq_2)
  from send_life [OF i(2,3,5) _ refl refl first _ crs posts, unfolded n w] i(1) show ?thesis by simp metis
qed

text \<open>
  C2.  A receive.  The call posts one receive per chunk and returns a synchronisation object; the
  completions of the request, each followed by a turn of its worker, copy the chunks to the device
  one by one, in order, and record the event after the last; waiting and the clean-up are as for
  a send.
\<close>

theorem recv_life:
  fixes st :: "'x ost"
  assumes "handle_with h p a st" "env_ok (theap st)" "ready a i ck" "len \<noteq> 0"
    and "cs = chunk_list (ob_addr hs) (od_dst d) len" "ri = recv_info hs d ck"
    and posts: "post_until (URMA_SUCCESS e) (map (urma_recv_with_notify e ri) cs) (dev st) = (True, x1)"
    and crs: "length crs \<le> length cs" "\<forall>cr \<in> set crs. cr_request_id cr = Some ck"
    and copies: "seq (take (length crs) (recv_copies e ri cs)) x1 = (rs, x2)"
  shows "\<exists>sync st1 vs st2 st3. sync \<noteq> NULL \<and> dev st1 = x1 \<and>
    os_transport_recv e h (Some hs) (Some d) len ck True st = Some ((0, sync), st1) \<and>
    run (ost_do e) (work_off h i crs) st1 = Some (vs, st2) \<and> dev st2 = x2 \<and>
    wait_and_free_sync h sync st2 = Some (wait_result (length cs) rs, st3) \<and>
    (if wait_result (length cs) rs = Waiting then st3 = st2 else transfer_gone h a st st3 \<and> dev st3 = x2)"
proof -
  obtain oh where oh: "handles st h = Some oh" using handle_withD [OF assms(1)] by metis
  note num = chunks_below_32 [OF assms(4), of "ob_addr hs" "od_dst d", folded assms(5)]
  obtain p1 m1 sync where s: "os_transport_recv e h (Some hs) (Some d) len ck True st =
      (let (ok, x) = post_until (URMA_SUCCESS e) (map (urma_recv_with_notify e ri) cs) (dev st);
           st1 = with_pool h oh p1 m1 x st
       in if ok then Some ((0, sync), st1)
          else do { st2 \<leftarrow> complete_request sync st1; Some ((minus_one32, sync), st2) })"
    "sync \<noteq> NULL" "live e h oh a i ck cs sync (recv_copies e ri cs) st p1 m1"
    by (rule recv_live [OF assms(1) oh assms(2-6)])
  have n: "length (recv_copies e ri cs) = length cs" "cs \<noteq> []" using num by (auto simp: recv_copies_def)
  obtain vs st2 st3 where "run (ost_do e) (work_off h i crs) (with_pool h oh p1 m1 x1 st) = Some (vs, st2)" "dev st2 = x2"
    "wait_and_free_sync h sync st2 = Some (wait_result (length cs) rs, st3)" "dev st3 = x2"
    "wait_result (length cs) rs = Waiting \<Longrightarrow> st3 = st2"
    "wait_result (length cs) rs \<noteq> Waiting \<Longrightarrow> transfer_gone h a st st3"
    using live_outcome [OF assms(1) oh assms(3) n(2) s(3), of crs x1 rs x2] n(1) num crs copies by auto
  then show ?thesis using s(1,2) posts
    by (intro exI [of _ sync] exI [of _ "with_pool h oh p1 m1 x1 st"] exI [of _ vs] exI [of _ st2] exI [of _ st3]) simp
qed

theorem recv_life_witness:
  "\<exists>st sync st1 vs st2 st3.
    os_transport_init example_ext example_threads True 2 (Some example_cfg) True (example_ost (\<lambda>_. True)) = Some ((0, 1), st) \<and>
    os_transport_recv example_ext 1 (Some (example_buffer 0x1000000)) (Some example_device) 0x300000 78 True st
      = Some ((0, sync), st1) \<and>
    dev st1 = [(0x1000000, 0, 0x200000), (0x1200000, 0, 0x100000)] \<and>
    run (ost_do example_ext) (work_off 1 0 [example_cr 78, example_cr 78]) st1 = Some (vs, st2) \<and>
    dev st2 = [(0x1000000, 0, 0x200000), (0x1200000, 0, 0x100000),
      (0x1000000, 0x900000, 0x200000), (0x1200000, 0xB00000, 0x100000), (0, 0, 0)] \<and>
    wait_and_free_sync 1 sync st2 = Some (Returned 0, st3) \<and>
    transfer_gone 1 (a_started example_threads example_heap) st st3"
proof -
  obtain p st where i: "os_transport_init example_ext example_threads True 2 (Some example_cfg) True (example_ost (\<lambda>_. True))
      = Some ((0, 1), st)" "handle_with 1 p (a_started example_threads example_heap) st"
    "env_ok (theap st)" "dev st = []" "ready (a_started example_threads example_heap) 0 78"
    by (rule example_started [of "\<lambda>_. True" example_ext]) simp_all
  let ?hs = "example_buffer 0x1000000" and ?d = "example_device"
  let ?cs = "chunk_list (ob_addr ?hs) (od_dst ?d) 0x300000" and ?ri = "recv_info ?hs ?d 78"
  have posts: "post_until (URMA_SUCCESS example_ext) (map (urma_recv_with_notify example_ext ?ri) ?cs) (dev st)
      = (True, [(0x1000000, 0, 0x200000), (0x1200000, 0, 0x100000)])"
    unfolding i(4) by code_simp
  have copies: "seq (take (length [example_cr 78, example_cr 78]) (recv_copies example_ext ?ri ?cs))
      [(0x1000000, 0, 0x200000), (0x1200000, 0, 0x100000)] = ([0, 0], [(0x1000000, 0, 0x200000), (0x1200000, 0, 0x100000),
      (0x1000000, 0x900000, 0x200000), (0x1200000, 0xB00000, 0x100000), (0, 0, 0)])" by code_simp
  have n: "length ?cs = 2" by code_simp
  have w: "wait_result 2 [0, 0] = Returned 0" by (simp add: wait_result_def failed_def)
  have crs: "\<forall>cr \<in> set [example_cr 78, example_cr 78]. cr_request_id cr = Some 78"
    using example_cr_key [of 2 78] by (simp add: numeral_2_eq_2)
  from recv_life [OF i(2,3,5) _ refl refl posts _ crs copies, unfolded n w] i(1) show ?thesis by simp metis
qed

section \<open>Transfers that fail\<close>

text \<open>
  C8.  The first post of a send fails.  The call returns -1 with a synchronisation object all the
  same; waiting for it returns at once with -1, cancels the queued tasks, and everything is as
  before the call.
\<close>

theorem send_post_fails:
  fixes st :: "'x ost"
  assumes "handle_with h p a st" "env_ok (theap st)" "ready a i sk" "chunk_bytes < unat len"
    and "cs = chunk_list (ob_addr l) (ob_addr r) len" "wi = send_info ji l r len sk ck"
    and first: "urma_write_with_notify e wi (hd cs) (dev st) = (v, x1)" "v \<noteq> URMA_SUCCESS e"
  shows "\<exists>sync st1 st2. sync \<noteq> NULL \<and> dev st1 = x1 \<and>
    os_transport_send e h (Some ji) (Some l) (Some r) len sk ck True st = Some ((minus_one32, sync), st1) \<and>
    wait_and_free_sync h sync st1 = Some (Returned minus_one32, st2) \<and> dev st2 = x1 \<and> transfer_gone h a st st2"
proof -
  obtain oh where oh: "handles st h = Some oh" using handle_withD [OF assms(1)] by metis
  note lt = long_transfer(3,4) [OF assms(4), of "ob_addr l" "ob_addr r", folded assms(5)]
  obtain p1 m1 sync where s: "os_transport_send e h (Some ji) (Some l) (Some r) len sk ck True st =
      (let (status, x) = urma_write_with_notify e wi (hd cs) (dev st); st1 = with_pool h oh p1 m1 x st
       in if status = URMA_SUCCESS e then Some ((0, sync), st1)
          else do { st2 \<leftarrow> complete_request sync st1; Some ((minus_one32, sync), st2) })"
    "sync \<noteq> NULL" "live e h oh a i sk cs sync (send_posts e wi cs) st p1 m1"
    by (rule send_live [OF assms(1) oh assms(2-6)])
  have n: "0 < length (send_posts e wi cs)" "length (send_posts e wi cs) < 2 ^ 32" "cs \<noteq> []"
    using lt le_less_trans [OF diff_le_self lt(2)] by (auto simp: send_posts_def)
  obtain st2 st3 where "complete_request sync (with_pool h oh p1 m1 x1 st) = Some st2" "dev st2 = x1"
    "wait_and_free_sync h sync st2 = Some (Returned minus_one32, st3)" "dev st3 = x1" "transfer_gone h a st st3"
    by (rule live_abandoned [OF assms(1) oh assms(3) n(3) s(3) n(1,2)])
  then show ?thesis using s(1,2) first by (intro exI [of _ sync] exI [of _ st2] exI [of _ st3]) simp
qed

theorem send_post_fails_witness:
  "\<exists>st sync st1 st2.
    os_transport_init (example_broken 0) example_threads True 2 (Some example_cfg) True (example_ost (\<lambda>_. True))
      = Some ((0, 1), st) \<and> dev st1 = [] \<and>
    os_transport_send (example_broken 0) 1 (Some example_jetty) (Some (example_buffer 0x1000000))
      (Some (example_buffer 0x5000000)) 0x500000 77 78 True st = Some ((minus_one32, sync), st1) \<and>
    wait_and_free_sync 1 sync st1 = Some (Returned minus_one32, st2) \<and>
    transfer_gone 1 (a_started example_threads example_heap) st st2"
proof -
  obtain p st where i: "os_transport_init (example_broken 0) example_threads True 2 (Some example_cfg) True
      (example_ost (\<lambda>_. True)) = Some ((0, 1), st)" "handle_with 1 p (a_started example_threads example_heap) st"
    "env_ok (theap st)" "dev st = []" "ready (a_started example_threads example_heap) 0 77"
    by (rule example_started [of "\<lambda>_. True" "example_broken 0"]) simp_all
  let ?l = "example_buffer 0x1000000" and ?r = "example_buffer 0x5000000"
  have first: "urma_write_with_notify (example_broken 0) (send_info example_jetty ?l ?r 0x500000 77 78)
      (hd (chunk_list (ob_addr ?l) (ob_addr ?r) 0x500000)) (dev st) = (1, [])"
    unfolding i(4) by code_simp
  have "(1 :: int) \<noteq> URMA_SUCCESS (example_broken 0)" by (simp add: example_broken_def example_ext_def)
  from send_post_fails [OF i(2,3,5) _ refl refl first this] i(1) show ?thesis by simp metis
qed

text \<open>
  C9.  A post of a receive fails.  The receives after it are not posted, the call returns -1 with a
  synchronisation object, and waiting for it returns -1 at once and leaves everything as before.
\<close>

theorem recv_post_fails:
  fixes st :: "'x ost"
  assumes "handle_with h p a st" "env_ok (theap st)" "ready a i ck" "len \<noteq> 0"
    and "cs = chunk_list (ob_addr hs) (od_dst d) len" "ri = recv_info hs d ck"
    and posts: "post_until (URMA_SUCCESS e) (map (urma_recv_with_notify e ri) cs) (dev st) = (False, x1)"
  shows "\<exists>sync st1 st2. sync \<noteq> NULL \<and> dev st1 = x1 \<and>
    os_transport_recv e h (Some hs) (Some d) len ck True st = Some ((minus_one32, sync), st1) \<and>
    wait_and_free_sync h sync st1 = Some (Returned minus_one32, st2) \<and> dev st2 = x1 \<and> transfer_gone h a st st2"
proof -
  obtain oh where oh: "handles st h = Some oh" using handle_withD [OF assms(1)] by metis
  note num = chunks_below_32 [OF assms(4), of "ob_addr hs" "od_dst d", folded assms(5)]
  obtain p1 m1 sync where s: "os_transport_recv e h (Some hs) (Some d) len ck True st =
      (let (ok, x) = post_until (URMA_SUCCESS e) (map (urma_recv_with_notify e ri) cs) (dev st);
           st1 = with_pool h oh p1 m1 x st
       in if ok then Some ((0, sync), st1)
          else do { st2 \<leftarrow> complete_request sync st1; Some ((minus_one32, sync), st2) })"
    "sync \<noteq> NULL" "live e h oh a i ck cs sync (recv_copies e ri cs) st p1 m1"
    by (rule recv_live [OF assms(1) oh assms(2-6)])
  have n: "0 < length (recv_copies e ri cs)" "length (recv_copies e ri cs) < 2 ^ 32" "cs \<noteq> []"
    using num by (auto simp: recv_copies_def)
  obtain st2 st3 where "complete_request sync (with_pool h oh p1 m1 x1 st) = Some st2" "dev st2 = x1"
    "wait_and_free_sync h sync st2 = Some (Returned minus_one32, st3)" "dev st3 = x1" "transfer_gone h a st st3"
    by (rule live_abandoned [OF assms(1) oh assms(3) n(3) s(3) n(1,2)])
  then show ?thesis using s(1,2) posts by (intro exI [of _ sync] exI [of _ st2] exI [of _ st3]) simp
qed

theorem recv_post_fails_witness:
  "\<exists>st sync st1 st2.
    os_transport_init (example_broken 1) example_threads True 2 (Some example_cfg) True (example_ost (\<lambda>_. True))
      = Some ((0, 1), st) \<and> dev st1 = [(0x1000000, 0, 0x200000)] \<and>
    os_transport_recv (example_broken 1) 1 (Some (example_buffer 0x1000000)) (Some example_device) 0x500000 78 True st
      = Some ((minus_one32, sync), st1) \<and>
    wait_and_free_sync 1 sync st1 = Some (Returned minus_one32, st2) \<and>
    transfer_gone 1 (a_started example_threads example_heap) st st2"
proof -
  obtain p st where i: "os_transport_init (example_broken 1) example_threads True 2 (Some example_cfg) True
      (example_ost (\<lambda>_. True)) = Some ((0, 1), st)" "handle_with 1 p (a_started example_threads example_heap) st"
    "env_ok (theap st)" "dev st = []" "ready (a_started example_threads example_heap) 0 78"
    by (rule example_started [of "\<lambda>_. True" "example_broken 1"]) simp_all
  let ?hs = "example_buffer 0x1000000" and ?d = example_device
  have posts: "post_until (URMA_SUCCESS (example_broken 1)) (map (urma_recv_with_notify (example_broken 1)
      (recv_info ?hs ?d 78)) (chunk_list (ob_addr ?hs) (od_dst ?d) 0x500000)) (dev st)
      = (False, [(0x1000000, 0, 0x200000)])"
    unfolding i(4) by code_simp
  from recv_post_fails [OF i(2,3,5) _ refl refl posts] i(1) show ?thesis by simp metis
qed

lemma refused_gone:
  assumes "handles st h = Some oh" "pool_rel p1 a1" "pool_same a a1" "same_objs (theap st) m1"
  shows "transfer_gone h a st (with_pool h oh p1 m1 x st)"
proof -
  have "kept a a1" using assms(3) by (simp add: pool_same_def kept_def same_rest_def)
  with assms show ?thesis by (auto simp: transfer_gone_def pool_same_def)
qed

text \<open>A transfer of at most 2 MiB is one chunk.\<close>

lemma small_chunk_list:
  assumes "len \<noteq> 0" "unat len \<le> chunk_bytes"
  shows "chunk_list s d len = [\<lparr>ck_src = s, ck_dst = d, ck_len = len\<rparr>]"
  using assms by (simp add: chunk_list_cut cut.simps unsigned_eq_0_iff)

lemma small_send_post:
  fixes st :: "'x ost"
  assumes "handle_with h p a st" "len \<noteq> 0" "unat len \<le> chunk_bytes"
    and "cs = chunk_list (ob_addr l) (ob_addr r) len" "wi = send_info ji l r len sk ck"
    and "urma_write_with_notify e wi (hd cs) (dev st) = (status, x)"
  shows "os_transport_send e h (Some ji) (Some l) (Some r) len sk ck True st
    = Some ((if status = URMA_SUCCESS e then 0 else minus_one32, NULL), st\<lparr>dev := x\<rparr>)"
proof -
  have d: "h \<noteq> NULL" "g_inited st" using assms(1) by (simp_all add: handle_with_def)
  have "(ucast len :: u64) \<le> DEFAULT_CHUNK_SIZE"
    using assms(3) by (simp add: word_le_nat_alt word_facts DEFAULT_CHUNK_SIZE_def)
  with d assms(2,6) show ?thesis
    by (simp add: os_transport_send_def validate_send_input_def send_single_chunk_def assms(4,5) send_info_def
        small_chunk_list [OF assms(2,3)])
qed

text \<open>
  C6.  Whatever fails inside a send.  For every behaviour of the allocators, of the pool and of the
  devices, a send returns.  When it is longer than 2 MiB and no synchronisation object comes back, it
  has returned -1, has posted nothing and left everything as before.  In all other cases it has
  posted the first chunk and its result says how that went; a send of at most 2 MiB, whose first
  chunk is the whole buffer, then returns no object and has changed nothing but the devices.
\<close>

theorem send_all_or_nothing:
  fixes st :: "'x ost"
  assumes "handle_with h p a st" "len \<noteq> 0"
    and "cs = chunk_list (ob_addr l) (ob_addr r) len" "wi = send_info ji l r len sk ck"
  shows "\<exists>v sync st1. os_transport_send e h (Some ji) (Some l) (Some r) len sk ck True st = Some ((v, sync), st1) \<and>
    (if chunk_bytes < unat len \<and> sync = NULL then v = minus_one32 \<and> dev st1 = dev st \<and> transfer_gone h a st st1
     else (\<exists>status. urma_write_with_notify e wi (hd cs) (dev st) = (status, dev st1) \<and>
       v = (if status = URMA_SUCCESS e then 0 else minus_one32))) \<and>
    (unat len \<le> chunk_bytes \<longrightarrow> sync = NULL \<and> st1 = st\<lparr>dev := dev st1\<rparr>)"
proof (cases "chunk_bytes < unat len")
  case False
  obtain status x where x: "urma_write_with_notify e wi (hd cs) (dev st) = (status, x)"
    by (cases "urma_write_with_notify e wi (hd cs) (dev st)")
  from small_send_post [OF assms(1,2) _ assms(3,4) x] x False show ?thesis by simp
next
  case True
  obtain oh where oh: "handles st h = Some oh" using handle_withD [OF assms(1)] by metis
  from assms(1) oh True assms(3,4) show ?thesis
  proof (cases rule: send_start [where e = e])
    case (refused p1 a1 m1)
    with refused_gone [OF oh refused(2-4)] True show ?thesis by simp
  next
    case (queued p1 v a1 m1 sync)
    obtain status x where x: "urma_write_with_notify e wi (hd cs) (dev st) = (status, x)"
      by (cases "urma_write_with_notify e wi (hd cs) (dev st)")
    show ?thesis
      using queued(1,3) x True registeredD(6) [OF queued(7)] by (auto simp: complete_request_def)
  qed
qed

text \<open>The chunks are allocated, the synchronisation object is not.\<close>

lemma send_without_sync:
  fixes st :: "'x ost"
  assumes h: "handle_with h p a st" and len: "chunk_bytes < unat len"
    and "malloc_ok (theap st) (calls (theap st))" "\<not> malloc_ok (theap st) (Suc (calls (theap st)))"
  shows "\<exists>st1. os_transport_send e h (Some ji) (Some l) (Some r) len sk ck True st = Some ((minus_one32, NULL), st1)"
proof -
  obtain oh where d: "h \<noteq> NULL" "g_inited st" "handles st h = Some oh" "oh_thread_pool oh = Some p" "tm_ok (theap st)"
    using handle_withD [OF h] by metis
  note lt = long_transfer [OF len]
  let ?cs = "chunk_list (ob_addr l) (ob_addr r) len"
  let ?m = "chunks_heap ?cs (theap st)"
  have ne: "?cs \<noteq> []" by (rule chunk_list_nonempty [OF lt(1)])
  note ch = chunks_heap_facts [OF d(5) ne]
  have c0: "chunk_cells ?m (brk (theap st)) = Some (?cs ! 0)" using ch(3) ne by fastforce
  have b: "brk (theap st) \<noteq> NULL" "chunk_count len \<noteq> 0"
    using tm_okD(1) [OF d(5)] chunk_count_pos [of len] lt(1) by auto
  have "malloc1 ?m = (NULL, ?m\<lparr>calls := Suc (calls ?m)\<rparr>)"
    using assms(4) by (simp add: malloc_n_def chunks_heap_def)
  then have "construct_and_register_worker_task (brk (theap st)) (chunk_count len) kd f ui (p, ?m)
      = Some (NULL, p, ?m\<lparr>calls := Suc (calls ?m)\<rparr>)" for kd f ui
    using b by (simp add: construct_and_register_worker_task_def init_task_sync_def)
  then have reg: "register_tasks_and_bind_chunks (brk (theap st)) (chunk_count len) kd f ui (p, ?m)
      = Some (NULL, p, ?m\<lparr>calls := Suc (calls ?m)\<rparr>)" for kd f ui
    by (simp add: register_tasks_and_bind_chunks_def)
  obtain m2 where fr: "free_block (brk (theap st)) (?m\<lparr>calls := Suc (calls ?m)\<rparr>) = Some m2"
    using ch(2) b(1) by (simp add: free_block_def)
  have "validate_send_input h (Some ji) (Some l) (Some r) len True st = 0"
    using d(1,2) lt(1) by (simp add: validate_send_input_def)
  then show ?thesis
    using lt(2) some_chunks [OF d(5) assms(3) lt(1), of "ob_addr l" "ob_addr r"] c0 d(3,4) reg fr
    by (simp add: os_transport_send_def send_split_chunks_def register_on_handle_def get_pool_def set_pool_def Let_def)
qed

theorem send_all_or_nothing_witness:
  "\<exists>st st1 st2. handle_with 1 (the (get_pool 1 st)) (a_started example_threads example_heap) st \<and> dev st = [] \<and>
    os_transport_send example_ext 1 (Some example_jetty) (Some (example_buffer 0x1000000))
      (Some (example_buffer 0x5000000)) 0x500000 77 78 True st = Some ((minus_one32, NULL), st1) \<and>
    dev st1 = [] \<and> transfer_gone 1 (a_started example_threads example_heap) st st1 \<and>
    os_transport_send example_ext 1 (Some example_jetty) (Some (example_buffer 0x1000000))
      (Some (example_buffer 0x5000000)) 0x3000 77 78 True st = Some ((0, NULL), st2) \<and>
    dev st2 = [(0x1000000, 0x5000000, 0x3000)]"
proof -
  obtain p st0 where "os_transport_init example_ext example_threads True 2 (Some example_cfg) True
      (example_ost (\<lambda>_. True)) = Some ((0, 1), st0)" and
    i: "handle_with 1 p (a_started example_threads example_heap) st0" "dev st0 = []"
    by (rule example_started [of "\<lambda>_. True" example_ext]) simp_all
  let ?a = "a_started example_threads example_heap"
  let ?st = "st0\<lparr>theap := (theap st0)\<lparr>malloc_ok := \<lambda>n. n = calls (theap st0)\<rparr>\<rparr>"
  have h: "handle_with 1 p ?a ?st" using i(1) by (simp add: handle_with_def get_pool_def tm_ok_def)
  let ?l = "example_buffer 0x1000000" and ?r = "example_buffer 0x5000000"
  have big: "chunk_bytes < unat (0x500000 :: u32)" "\<not> chunk_bytes < unat (0x3000 :: u32)" by simp_all
  obtain st1 where s1: "os_transport_send example_ext 1 (Some example_jetty) (Some ?l) (Some ?r) 0x500000 77 78
      True ?st = Some ((minus_one32, NULL), st1)"
    using send_without_sync [OF h big(1), of example_ext example_jetty ?l ?r 77 78] by auto
  have g1: "dev st1 = []" "transfer_gone 1 ?a ?st st1"
    using send_all_or_nothing [OF h _ refl refl, where len = "0x500000" and e = example_ext and ji = example_jetty and
        l = "?l" and r = "?r" and sk = "77" and ck = "78"] s1 big(1) i(2) by simp_all
  have first: "urma_write_with_notify example_ext (send_info example_jetty ?l ?r 0x3000 77 78)
      (hd (chunk_list (ob_addr ?l) (ob_addr ?r) 0x3000)) [] = (0, [(0x1000000, 0x5000000, 0x3000)])"
    by code_simp
  have "URMA_SUCCESS example_ext = 0" by (simp add: example_ext_def)
  then obtain st2 where "os_transport_send example_ext 1 (Some example_jetty) (Some ?l) (Some ?r) 0x3000 77 78
      True ?st = Some ((0, NULL), st2)" "dev st2 = [(0x1000000, 0x5000000, 0x3000)]"
    using send_all_or_nothing [OF h _ refl refl, where len = "0x3000" and e = example_ext and ji = example_jetty and
        l = "?l" and r = "?r" and sk = "77" and ck = "78"] big(2) i(2) first by auto
  moreover have "get_pool 1 ?st = Some p" using h by (simp add: handle_with_def)
  ultimately show ?thesis using h i(2) s1 g1 by (intro exI [of _ ?st] exI [of _ st1] exI [of _ st2]) simp
qed

text \<open>
  C7.  Whatever fails inside a receive.  When \<open>os_transport_recv\<close> of a non-empty buffer returns no
  synchronisation object, because an allocation, an initialisation or the submission failed, its
  result is -1, it has posted nothing and left everything as it was before the call.  Otherwise it
  has posted the receives up to the first that failed, and its result says whether all succeeded.
\<close>

theorem recv_all_or_nothing:
  fixes st :: "'x ost"
  assumes "handle_with h p a st" "len \<noteq> 0"
    and "cs = chunk_list (ob_addr hs) (od_dst d) len" "ri = recv_info hs d ck"
  shows "\<exists>v sync st1. os_transport_recv e h (Some hs) (Some d) len ck True st = Some ((v, sync), st1) \<and>
    (if sync = NULL then v = minus_one32 \<and> dev st1 = dev st \<and> transfer_gone h a st st1
     else \<exists>ok. post_until (URMA_SUCCESS e) (map (urma_recv_with_notify e ri) cs) (dev st) = (ok, dev st1) \<and>
       v = (if ok then 0 else minus_one32))"
proof -
  obtain oh where oh: "handles st h = Some oh" using handle_withD [OF assms(1)] by metis
  from assms(1) oh assms(2-4) show ?thesis
  proof (cases rule: recv_start [where e = e])
    case (refused p1 a1 m1)
    with refused_gone [OF oh refused(2-4)] show ?thesis by simp
  next
    case (queued p1 v a1 m1 sync)
    obtain ok x where x: "post_until (URMA_SUCCESS e) (map (urma_recv_with_notify e ri) cs) (dev st) = (ok, x)"
      by (cases "post_until (URMA_SUCCESS e) (map (urma_recv_with_notify e ri) cs) (dev st)")
    show ?thesis
      using queued(1,3) x registeredD(6) [OF queued(7)] by (auto simp: complete_request_def)
  qed
qed

theorem recv_all_or_nothing_witness:
  "\<exists>st v sync st1.
    os_transport_init example_ext example_threads True 2 (Some example_cfg) True (example_ost (\<lambda>n. n \<noteq> 3))
      = Some ((0, 1), st) \<and>
    os_transport_recv example_ext 1 (Some (example_buffer 0x1000000)) (Some example_device) 0x300000 78 True st
      = Some ((v, sync), st1) \<and>
    (if sync = NULL then v = minus_one32 \<and> dev st1 = [] \<and>
       transfer_gone 1 (a_started example_threads example_heap) st st1
     else v = 0 \<and> dev st1 = [(0x1000000, 0, 0x200000), (0x1200000, 0, 0x100000)])"
proof -
  obtain p st where i: "os_transport_init example_ext example_threads True 2 (Some example_cfg) True
      (example_ost (\<lambda>n. n \<noteq> 3)) = Some ((0, 1), st)" "handle_with 1 p (a_started example_threads example_heap) st"
    "dev st = []"
    by (rule example_started [of "\<lambda>n. n \<noteq> 3" example_ext]) simp_all
  let ?hs = "example_buffer 0x1000000" and ?d = example_device
  have posts: "post_until (URMA_SUCCESS example_ext) (map (urma_recv_with_notify example_ext (recv_info ?hs ?d 78))
      (chunk_list (ob_addr ?hs) (od_dst ?d) 0x300000)) [] = (True, [(0x1000000, 0, 0x200000), (0x1200000, 0, 0x100000)])"
    by code_simp
  obtain v sync st1 where s: "os_transport_recv example_ext 1 (Some ?hs) (Some ?d) 0x300000 78 True st
      = Some ((v, sync), st1)" "if sync = NULL then v = minus_one32 \<and> dev st1 = dev st \<and>
       transfer_gone 1 (a_started example_threads example_heap) st st1
     else \<exists>ok. post_until (URMA_SUCCESS example_ext) (map (urma_recv_with_notify example_ext (recv_info ?hs ?d 78))
       (chunk_list (ob_addr ?hs) (od_dst ?d) 0x300000)) (dev st) = (ok, dev st1) \<and>
       v = (if ok then 0 else minus_one32)"
    using recv_all_or_nothing [OF i(2) _ refl refl, where len = "0x300000" and e = example_ext and hs = "?hs" and d = "?d"
        and ck = "78"] by auto
  show ?thesis
    by (intro exI [of _ st] exI [of _ v] exI [of _ sync] exI [of _ st1])
      (use i(1) s in \<open>auto simp only: posts i(3) prod.inject if_True split: if_splits\<close>)
qed

end
