(* ===== verification/SessionProps.thy ===== *)
theory SessionProps
  imports TransportProps
begin

text \<open>
  The properties of the transport as a whole: its initialisation and destruction, and a session
  from the one to the other.
\<close>

section \<open>Initialisation and destruction\<close>

text \<open>
  C28.  Initialisation.  When memory and threads are to be had, \<open>os_transport_init\<close> returns a handle
  whose pool runs with 64 idle workers, knows the completion queues of the configuration, and is
  ready for a request of any id but 0; a second initialisation returns -1 and changes nothing.
\<close>

theorem init_ready:
  fixes st :: "'x ost"
  assumes "\<not> g_inited st" "tm_ok (theap st)" "malloc_ok (theap st) (calls (theap st))"
    and "no_objects (pheap st)" "\<forall>n. malloc_ok (pheap st) n" "threads_start pc"
  shows "\<exists>h p a st'. os_transport_init e pc True ctx (Some cfg) True st = Some ((0, h), st') \<and>
    handle_with h p a st' \<and> same_objs (theap st) (theap st') \<and> dev st' = dev st \<and>
    length (workers p) = NUM_WORKERS \<and> (\<forall>w \<in> set (workers p). state w = WORKER_STATE_IDLE) \<and>
    urma_jfce p = cfg_jfce cfg \<and> urma_jfc p = cfg_jfc cfg \<and> urma_event_mode p = cfg_event_mode cfg \<and>
    (\<forall>q. q \<noteq> 0 \<longrightarrow> ready a 0 q) \<and>
    (\<forall>pc' ok ctx' cfg'. os_transport_init e pc' ok ctx' (Some cfg') True st' = Some ((minus_one32, NULL), st'))"
proof -
  have pc: "\<forall>i < NUM_WORKERS. fst (pc i) = 0" using assms(6) by (simp add: threads_start_def)
  obtain p st' where i: "os_transport_init e pc True ctx (Some cfg) True st = Some ((0, brk (theap st)), st')"
    "handle_with (brk (theap st)) p (a_started pc (pheap st)) st'" "same_objs (theap st) (theap st')"
    "dev st' = dev st" "urma_jfce p = cfg_jfce cfg" "urma_jfc p = cfg_jfc cfg"
    "urma_event_mode p = cfg_event_mode cfg"
    by (rule transport_init_ok [OF assms(1-4) pc, where ctx = ctx and cfg = cfg and e = e])
  have g: "g_inited st'" and p: "pool_rel p (a_started pc (pheap st))" using i(2) by (simp_all add: handle_with_def)
  then obtain xss where r: "rel p (a_started pc (pheap st)) xss {} {} {}" by (auto simp: pool_rel_def)
  have "set (map state (workers p)) \<subseteq> {WORKER_STATE_IDLE}"
    unfolding relD(8) [OF r] by (auto simp: a_started_def a_fresh_def)
  then have "\<forall>w \<in> set (workers p). state w = WORKER_STATE_IDLE" by auto
  moreover have "\<forall>q. q \<noteq> 0 \<longrightarrow> ready (a_started pc (pheap st)) 0 q"
    using started_ready assms(5) by blast
  moreover have "os_transport_init e pc' ok ctx' (Some cfg') True st' = Some ((minus_one32, NULL), st')"
    for pc' ok ctx' cfg' using g by (simp add: os_transport_init_def)
  ultimately show ?thesis using i rel_lengths(1) [OF r] by blast
qed

theorem init_ready_witness:
  "\<exists>h p a st. os_transport_init example_ext example_threads True 2 (Some example_cfg) True (example_ost (\<lambda>_. True))
      = Some ((0, h), st) \<and> handle_with h p a st \<and> urma_jfc p = 4 \<and> ready a 0 77"
proof -
  let ?st = "example_ost (\<lambda>_. True)"
  have s: "\<not> g_inited ?st" "tm_ok (theap ?st)" "malloc_ok (theap ?st) (calls (theap ?st))"
    "no_objects (pheap ?st)" "\<forall>n. malloc_ok (pheap ?st) n"
    using example_theap_ok(1) [of "\<lambda>_. True"] example_no_objects example_malloc_ok
    by (simp_all add: example_ost_def) (simp add: example_theap_def)
  obtain h p a st where "os_transport_init example_ext example_threads True 2 (Some example_cfg) True ?st = Some ((0, h), st)"
    "handle_with h p a st" "urma_jfc p = cfg_jfc example_cfg" "\<forall>q. q \<noteq> 0 \<longrightarrow> ready a 0 q"
    using init_ready [OF s example_threads_start, of example_ext 2 example_cfg] by blast
  then have "os_transport_init example_ext example_threads True 2 (Some example_cfg) True ?st = Some ((0, h), st) \<and>
      handle_with h p a st \<and> urma_jfc p = 4 \<and> ready a 0 77" by (simp add: example_cfg_def)
  then show ?thesis by blast
qed

text \<open>
  C29.  Failed initialisation.  When the handle or the pool cannot be allocated,
  \<open>os_transport_init\<close> returns -1 without a handle, leaves nothing allocated and can be tried again.
  When the k-th of the 64 threads does not start, the outcome depends on what the failed
  \<open>pthread_create\<close> leaves in the thread id, which POSIX does not specify: with 0 the threads that
  did start are joined and the result is the same clean -1; with any other value
  \<open>thread_pool_destroy\<close> joins a thread that does not exist, and the call is undefined.
\<close>

theorem init_fails_clean:
  fixes st :: "'x ost"
  assumes "\<not> g_inited st" "tm_ok (theap st)" "no_objects (pheap st)" "handles st (brk (theap st)) = None"
    and "\<not> malloc_ok (theap st) (calls (theap st)) \<or> \<not> pool_ok \<or> threads_fail_at k pc"
  shows "if malloc_ok (theap st) (calls (theap st)) \<and> pool_ok \<and> snd (pc k) \<noteq> 0
    then os_transport_init e pc pool_ok ctx (Some cfg) True st = None
    else \<exists>st'. os_transport_init e pc pool_ok ctx (Some cfg) True st = Some ((minus_one32, NULL), st') \<and>
      \<not> g_inited st' \<and> handles st' = handles st \<and> same_objs (theap st) (theap st') \<and> dev st' = dev st \<and>
      no_objects (pheap st') \<and> id_arrays (pheap st') = id_arrays (pheap st)"
proof (cases "malloc_ok (theap st) (calls (theap st)) \<and> pool_ok \<and> snd (pc k) \<noteq> 0")
  case True
  with assms(5) transport_init_undefined [OF assms(1,2), of k pc e ctx cfg] show ?thesis by simp
next
  case False
  with assms(5) have fail: "\<not> malloc_ok (theap st) (calls (theap st)) \<or> \<not> pool_ok \<or> threads_fail_at k pc \<and> snd (pc k) = 0"
    by blast
  show ?thesis unfolding if_not_P [OF False]
    by (rule transport_init_fails [OF assms(1-4) fail, where e = e and ctx = ctx and cfg = cfg]) blast
qed

theorem init_fails_clean_witness:
  "(\<exists>st'. os_transport_init example_ext (\<lambda>i. if i < 3 then (0, 9) else (11, 0)) True 2 (Some example_cfg) True
      (example_ost (\<lambda>_. True)) = Some ((minus_one32, NULL), st') \<and>
    \<not> g_inited st' \<and> handles st' = Map.empty \<and> same_objs (example_theap (\<lambda>_. True)) (theap st') \<and> dev st' = [] \<and>
    no_objects (pheap st') \<and> id_arrays (pheap st') = Map.empty) \<and>
   os_transport_init example_ext (\<lambda>i. if i < 3 then (0, 9) else (11, 5)) True 2 (Some example_cfg) True
      (example_ost (\<lambda>_. True)) = None"
proof (rule conjI)
  let ?st = "example_ost (\<lambda>_. True)" and ?pc = "\<lambda>v i. if i < (3 :: nat) then (0, 9) else (11 :: int, v)"
  have s: "\<not> g_inited ?st" "theap ?st = example_theap (\<lambda>_. True)" "handles ?st = Map.empty" "pheap ?st = example_heap"
    "dev ?st = []" "id_arrays example_heap = Map.empty" by (simp_all add: example_ost_def example_heap_def)
  have t: "threads_fail_at 3 (?pc v)" for v by (simp add: threads_fail_at_def NUM_WORKERS_def)
  have ok: "malloc_ok (example_theap (\<lambda>_. True)) n" for n by (simp add: example_theap_def)
  note init = init_fails_clean [of ?st True 3 "?pc v" example_ext 2 example_cfg for v, unfolded s]
  show "\<exists>st'. os_transport_init example_ext (?pc 0) True 2 (Some example_cfg) True ?st = Some ((minus_one32, NULL), st') \<and>
      \<not> g_inited st' \<and> handles st' = Map.empty \<and> same_objs (example_theap (\<lambda>_. True)) (theap st') \<and> dev st' = [] \<and>
      no_objects (pheap st') \<and> id_arrays (pheap st') = Map.empty"
    using init [of 0] s(1) t [of 0] example_theap_ok(1) [of "\<lambda>_. True"] example_no_objects by simp
  show "os_transport_init example_ext (?pc 5) True 2 (Some example_cfg) True ?st = None"
    using init [of 5] s(1) t [of 5] ok example_theap_ok(1) [of "\<lambda>_. True"] example_no_objects by simp
qed

section \<open>A handle that has been destroyed\<close>

text \<open>
  C30.  Stale handles.  After \<open>os_transport_destroy\<close> a send, a receive, a registration or a second
  destruction with the handle returns -1 and changes nothing, because the transport is no longer
  initialised; \<open>os_transport_wake_up_task\<close>, which does not ask, reads the released handle.  The flag
  is one for the whole library: once the transport is initialised again with a handle at another
  address, registration and destruction accept the stale handle too, and are undefined.
\<close>

theorem stale_handle:
  fixes st :: "'x ost"
  assumes "handle_with h p a st" "joinable a" "\<forall>i < NUM_WORKERS. a_pend a ! i = 0"
    and "malloc_ok (theap st) (calls (theap st))" "threads_start pc" "h \<noteq> brk (theap st)"
  shows "\<exists>st' st''. os_transport_destroy e h st = Some (0, st') \<and>
    os_transport_send e h ji l r len sk ck out st' = Some ((minus_one32, NULL), st') \<and>
    os_transport_recv e h l d len ck out st' = Some ((minus_one32, NULL), st') \<and>
    os_transport_reg_jfc jfce jfc h st' = Some (minus_one32, st') \<and>
    os_transport_destroy e h st' = Some (minus_one32, st') \<and>
    os_transport_wake_up_task h cr st' = None \<and>
    os_transport_init e pc True ctx (Some cfg) True st' = Some ((0, brk (theap st)), st'') \<and>
    os_transport_reg_jfc jfce jfc h st'' = None \<and> os_transport_destroy e h st'' = None \<and>
    os_transport_wake_up_task h cr st'' = None"
proof -
  have h: "h \<noteq> NULL" "tm_ok (theap st)" using assms(1) by (simp_all add: handle_with_def)
  obtain st' where d: "os_transport_destroy e h st = Some (0, st')" "\<not> g_inited st'" "handles st' h = None"
    "theap st' = theap st" "no_objects (pheap st')"
    by (rule transport_destroy_ok [OF assms(1-3), of e]) auto
  have pc: "\<forall>i < NUM_WORKERS. fst (pc i) = 0" using assms(5) by (simp add: threads_start_def)
  obtain p' st'' where i: "os_transport_init e pc True ctx (Some cfg) True st' = Some ((0, brk (theap st)), st'')"
    "handle_with (brk (theap st)) p' (a_started pc (pheap st')) st''"
    "handles st'' = (handles st')(brk (theap st) \<mapsto> new_handle ctx cfg (Some p'))"
    using transport_init_ok [OF d(2) _ _ d(5) pc, of e ctx cfg] h(2) assms(4) unfolding d(4) by metis
  have "g_inited st''" "handles st'' h = None" using i(2,3) d(3) assms(6) by (simp_all add: handle_with_def)
  then have 2: "os_transport_reg_jfc jfce jfc h st'' = None" "os_transport_destroy e h st'' = None"
    "os_transport_wake_up_task h cr st'' = None"
    using h(1) by (simp_all add: os_transport_reg_jfc_def os_transport_destroy_def os_transport_wake_up_task_def)
  have 1: "os_transport_send e h ji l r len sk ck out st' = Some ((minus_one32, NULL), st')"
    "os_transport_recv e h l d len ck out st' = Some ((minus_one32, NULL), st')"
    "os_transport_reg_jfc jfce jfc h st' = Some (minus_one32, st')" "os_transport_destroy e h st' = Some (minus_one32, st')"
    "os_transport_wake_up_task h cr st' = None"
    using d(2,3) by (simp_all add: os_transport_send_def validate_send_input_def os_transport_recv_def
      validate_recv_input_def os_transport_reg_jfc_def os_transport_destroy_def os_transport_wake_up_task_def)
  show ?thesis by (intro exI [of _ st'] exI [of _ st'']) (intro conjI d(1) 1 i(1) 2)
qed

theorem stale_handle_witness:
  "\<exists>st st' st''. os_transport_init example_ext example_threads True 2 (Some example_cfg) True (example_ost (\<lambda>_. True))
      = Some ((0, 1), st) \<and> os_transport_destroy example_ext 1 st = Some (0, st') \<and>
    os_transport_destroy example_ext 1 st' = Some (minus_one32, st') \<and>
    os_transport_init example_ext example_threads True 2 (Some example_cfg) True st' = Some ((0, brk (theap st)), st'') \<and>
    os_transport_destroy example_ext 1 st'' = None"
proof -
  let ?o = "example_ost (\<lambda>_. True)" and ?a = "a_started example_threads example_heap"
  have o: "\<not> g_inited ?o" "tm_ok (theap ?o)" "malloc_ok (theap ?o) (calls (theap ?o))" "no_objects (pheap ?o)"
    "brk (theap ?o) = 1" "pheap ?o = example_heap" "malloc_ok (theap ?o) = (\<lambda>_. True)"
    using example_theap_ok(1) [of "\<lambda>_. True"] example_no_objects
    by (simp_all add: example_ost_def) (simp_all add: example_theap_def)
  have pc: "\<forall>i < NUM_WORKERS. fst (example_threads i) = 0" using example_threads_ok(1) by simp
  obtain p st where i: "os_transport_init example_ext example_threads True 2 (Some example_cfg) True ?o = Some ((0, 1), st)"
    "handle_with 1 p ?a st" "same_objs (theap ?o) (theap st)" "1 < brk (theap st)"
    using transport_init_ok [OF o(1-4) pc, of example_ext 2 example_cfg] unfolding o(5,6) by metis
  obtain p' st0 where j: "joinable ?a" by (rule example_started [of "\<lambda>_. True" example_ext]) simp_all
  have pend: "\<forall>i < NUM_WORKERS. a_pend ?a ! i = 0" by (simp add: a_started_def a_fresh_def)
  have ok: "malloc_ok (theap st) (calls (theap st))" using same_objsD(2) [OF i(3)] o(7) by simp
  have ne: "1 \<noteq> brk (theap st)" using i(4) by simp
  from stale_handle [OF i(2) j pend ok example_threads_start ne, of example_ext _ _ _ _ _ _ _ _ _ _ _ 2 example_cfg] i(1)
  show ?thesis by blast
qed

section \<open>A session\<close>

text \<open>
  A session: initialisation, a send whose request gets the completions crs, a receive with the
  completions crs', destruction; the results of the calls and of the two waits.
\<close>

definition session ::
    "'x ext \<Rightarrow> (nat \<Rightarrow> int \<times> u64) \<Rightarrow> ptr \<Rightarrow> os_transport_cfg \<Rightarrow> urma_jetty_info \<Rightarrow> ost_buffer_info \<Rightarrow>
       ost_buffer_info \<Rightarrow> u32 \<Rightarrow> u32 \<Rightarrow> u32 \<Rightarrow> urma_cr list \<Rightarrow> ost_buffer_info \<Rightarrow> ost_device_info \<Rightarrow> u32 \<Rightarrow> u32 \<Rightarrow>
       urma_cr list \<Rightarrow> 'x ost \<Rightarrow> ((u32 list \<times> u32 waiting list) \<times> 'x ost) option" where
  "session e pc ctx cfg ji l r len sk ck crs hs d len' ck' crs' st =
     do {
       ((v1, h), st1) \<leftarrow> os_transport_init e pc True ctx (Some cfg) True st;
       ((v2, s1), st2) \<leftarrow> os_transport_send e h (Some ji) (Some l) (Some r) len sk ck True st1;
       (_, st3) \<leftarrow> run (ost_do e) (work_off h 0 crs) st2;
       (w1, st4) \<leftarrow> wait_and_free_sync h s1 st3;
       ((v3, s2), st5) \<leftarrow> os_transport_recv e h (Some hs) (Some d) len' ck' True st4;
       (_, st6) \<leftarrow> run (ost_do e) (work_off h 0 crs') st5;
       (w2, st7) \<leftarrow> wait_and_free_sync h s2 st6;
       (v4, st8) \<leftarrow> os_transport_destroy e h st7;
       Some (([v1, v2, v3, v4], [w1, w2]), st8)
     }"

lemma wait_result_full: "length rs = n \<Longrightarrow> wait_result n rs = Returned (if failed rs then minus_one32 else 0)"
  by (simp add: wait_result_def)

text \<open>
  C3.  A session.  Whatever the posts and copies of the workers report, every call of a session
  returns 0, both waits say whether all of them succeeded, the devices have seen every chunk of
  both transfers in order, and at the end neither heap holds an object of the transport.
\<close>

theorem session_complete:
  fixes st :: "'x ost"
  assumes st: "\<not> g_inited st" "tm_ok (theap st)" "env_ok (theap st)" "no_objects (pheap st)"
      "\<forall>n. malloc_ok (pheap st) n" "threads_start pc" "handles st (brk (theap st)) = None"
    and key: "sk \<noteq> 0" "ck' \<noteq> 0" and len: "chunk_bytes < unat len" "len' \<noteq> 0"
    and send: "cs = chunk_list (ob_addr l) (ob_addr r) len" "wi = send_info ji l r len sk ck"
      "urma_write_with_notify e wi (hd cs) (dev st) = (URMA_SUCCESS e, x1)"
      "length crs = length cs - 1" "\<forall>cr \<in> set crs. cr_request_id cr = Some sk"
      "seq (send_posts e wi cs) x1 = (rs, x2)"
    and recv: "cs' = chunk_list (ob_addr hs) (od_dst d) len'" "ri = recv_info hs d ck'"
      "post_until (URMA_SUCCESS e) (map (urma_recv_with_notify e ri) cs') x2 = (True, x3)"
      "length crs' = length cs'" "\<forall>cr \<in> set crs'. cr_request_id cr = Some ck'"
      "seq (recv_copies e ri cs') x3 = (rs', x4)"
  shows "\<exists>st'. session e pc ctx cfg ji l r len sk ck crs hs d len' ck' crs' st
      = Some (([0, 0, 0, 0], [Returned (if failed rs then minus_one32 else 0),
          Returned (if failed rs' then minus_one32 else 0)]), st') \<and>
    \<not> g_inited st' \<and> handles st' = handles st \<and> dev st' = x4 \<and> same_objs (theap st) (theap st') \<and>
    no_objects (pheap st') \<and> id_arrays (pheap st') = id_arrays (pheap st)"
proof -
  let ?h = "brk (theap st)" and ?a = "a_started pc (pheap st)"
  have pc: "\<forall>i < NUM_WORKERS. fst (pc i) = 0" using st(6) by (simp add: threads_start_def)
  have mok: "malloc_ok (theap st) (calls (theap st))" using st(3) by (simp add: env_ok_def)
  obtain p st1 where 1: "os_transport_init e pc True ctx (Some cfg) True st = Some ((0, ?h), st1)"
    "handle_with ?h p ?a st1" "handles st1 = (handles st)(?h \<mapsto> new_handle ctx cfg (Some p))"
    "same_objs (theap st) (theap st1)" "dev st1 = dev st"
    by (rule transport_init_ok [OF st(1,2) mok st(4) pc, where ctx = ctx and cfg = cfg and e = e])
  have env1: "env_ok (theap st1)" using st(3) same_objsD(2,9) [OF 1(4)] by (simp add: env_ok_def)
  have rdy: "ready ?a 0 sk" "ready ?a 0 ck'" using started_ready st(5) key by blast+
  have fs: "length (send_posts e wi cs) = length cs - 1" "length (recv_copies e ri cs') = length cs'"
    by (simp_all add: send_posts_def recv_copies_def)
  have rs: "length rs = length cs - 1" "length rs' = length cs'"
    using length_seq [of "send_posts e wi cs" x1] length_seq [of "recv_copies e ri cs'" x3] send(6) recv(6) fs by simp_all
  have tk: "take (length crs) (send_posts e wi cs) = send_posts e wi cs"
    "take (length crs') (recv_copies e ri cs') = recv_copies e ri cs'" using fs send(4) recv(4) by simp_all
  obtain s1 st2 vs st3 st4 where 2: "os_transport_send e ?h (Some ji) (Some l) (Some r) len sk ck True st1 = Some ((0, s1), st2)"
    "run (ost_do e) (work_off ?h 0 crs) st2 = Some (vs, st3)"
    "wait_and_free_sync ?h s1 st3 = Some (Returned (if failed rs then minus_one32 else 0), st4)"
    "transfer_gone ?h ?a st1 st4" "dev st4 = x2"
    using send_life [OF 1(2) env1 rdy(1) len(1) send(1,2) send(3) [folded 1(5)] _ send(5), unfolded tk, of rs x2]
      send(4,6) wait_result_full [OF rs(1)] by auto
  obtain p' a' where 3: "handle_with ?h p' a' st4" "\<And>j r. ready ?a j r \<Longrightarrow> ready a' j r" "kept ?a a'"
    "env_ok (theap st1) \<Longrightarrow> env_ok (theap st4)" "\<And>g. g \<noteq> ?h \<Longrightarrow> handles st4 g = handles st1 g"
    by (rule gone_handle [OF 1(2) 2(4)]) blast
  obtain s2 st5 ws st6 st7 where 4: "os_transport_recv e ?h (Some hs) (Some d) len' ck' True st4 = Some ((0, s2), st5)"
    "run (ost_do e) (work_off ?h 0 crs') st5 = Some (ws, st6)"
    "wait_and_free_sync ?h s2 st6 = Some (Returned (if failed rs' then minus_one32 else 0), st7)"
    "transfer_gone ?h a' st4 st7" "dev st7 = x4"
    using recv_life [OF 3(1) 3(4) [OF env1] 3(2) [OF rdy(2)] len(2) recv(1,2) recv(3) [folded 2(5)] _ recv(5),
        unfolded tk, of rs' x4] recv(4,6) wait_result_full [OF rs(2)] by auto
  obtain p'' a'' where 5: "handle_with ?h p'' a'' st7" "kept a' a''" "\<And>g. g \<noteq> ?h \<Longrightarrow> handles st7 g = handles st4 g"
    by (rule gone_handle [OF 3(1) 4(4)]) blast
  have k: "kept ?a a''" by (rule kept_trans [OF 3(3) 5(2)])
  have "joinable (a_fresh pc {..<NUM_WORKERS} (pheap st))"
    using st(6) by (intro joinable_fresh) (auto simp: threads_start_def)
  then have j: "joinable a''"
    using kept_joinable [OF k] joinable_cong [of ?a "a_fresh pc {..<NUM_WORKERS} (pheap st)"] by (simp add: a_started_def)
  have pend: "\<forall>i < NUM_WORKERS. a_pend a'' ! i = 0" using k by (simp add: kept_def a_started_def a_fresh_def)
  obtain st8 where 6: "os_transport_destroy e ?h st7 = Some (0, st8)" "\<not> g_inited st8"
    "handles st8 = (handles st7)(?h := None)" "theap st8 = theap st7" "dev st8 = dev st7"
    "no_objects (pheap st8)" "id_arrays (pheap st8) = a_arrays a''"
    by (rule transport_destroy_ok [OF 5(1) j pend, where e = e])
  have "handles st8 = handles st" using 6(3) 5(3) 3(5) 1(3) st(7) by (auto simp: fun_eq_iff)
  moreover have "same_objs (theap st) (theap st8)"
    using same_objs_trans 1(4) 2(4) 4(4) 6(4) unfolding transfer_gone_def by metis
  moreover have "id_arrays (pheap st8) = id_arrays (pheap st)" using 6(7) k by (simp add: kept_def a_started_def a_fresh_def)
  moreover have "session e pc ctx cfg ji l r len sk ck crs hs d len' ck' crs' st
      = Some (([0, 0, 0, 0], [Returned (if failed rs then minus_one32 else 0),
          Returned (if failed rs' then minus_one32 else 0)]), st8)"
    using 1(1) 2(1-3) 4(1-3) 6(1) by (simp add: session_def)
  ultimately show ?thesis using 6(2,5,6) 4(5) by (intro exI [of _ st8]) simp
qed

theorem session_complete_witness:
  "\<exists>st'. session example_ext example_threads 2 example_cfg example_jetty (example_buffer 0x1000000)
      (example_buffer 0x5000000) 0x500000 77 78 [example_cr 77, example_cr 77] (example_buffer 0x1000000)
      example_device 0x300000 79 [example_cr 79, example_cr 79] (example_ost (\<lambda>_. True))
      = Some (([0, 0, 0, 0], [Returned 0, Returned 0]), st') \<and>
    \<not> g_inited st' \<and> handles st' = Map.empty \<and>
    dev st' = [(0x1000000, 0x5000000, 0x200000), (0x1200000, 0x5200000, 0x200000), (0x1400000, 0x5400000, 0x100000),
      (0x1000000, 0, 0x200000), (0x1200000, 0, 0x100000), (0x1000000, 0x900000, 0x200000),
      (0x1200000, 0xB00000, 0x100000), (0, 0, 0)] \<and>
    same_objs (example_theap (\<lambda>_. True)) (theap st') \<and> no_objects (pheap st') \<and> id_arrays (pheap st') = Map.empty"
proof -
  let ?st = "example_ost (\<lambda>_. True)" and ?l = "example_buffer 0x1000000" and ?r = "example_buffer 0x5000000"
  let ?d = example_device and ?e = example_ext
  let ?cs = "chunk_list (ob_addr ?l) (ob_addr ?r) 0x500000" and ?wi = "send_info example_jetty ?l ?r 0x500000 77 78"
  let ?cs' = "chunk_list (ob_addr ?l) (od_dst ?d) 0x300000" and ?ri = "recv_info ?l ?d 79"
  let ?x1 = "[(0x1000000, 0x5000000, 0x200000)] :: (u64 \<times> u64 \<times> u32) list"
  let ?x2 = "[(0x1000000, 0x5000000, 0x200000), (0x1200000, 0x5200000, 0x200000), (0x1400000, 0x5400000, 0x100000)]
    :: (u64 \<times> u64 \<times> u32) list"
  let ?x3 = "?x2 @ [(0x1000000, 0, 0x200000), (0x1200000, 0, 0x100000)]"
  let ?x4 = "?x3 @ [(0x1000000, 0x900000, 0x200000), (0x1200000, 0xB00000, 0x100000), (0, 0, 0)]"
  have s: "\<not> g_inited ?st" "tm_ok (theap ?st)" "env_ok (theap ?st)" "no_objects (pheap ?st)"
    "\<forall>n. malloc_ok (pheap ?st) n" "handles ?st (brk (theap ?st)) = None"
    using example_theap_ok example_no_objects example_malloc_ok by (simp_all add: example_ost_def)
  have first: "urma_write_with_notify ?e ?wi (hd ?cs) (dev ?st) = (URMA_SUCCESS ?e, ?x1)" by code_simp
  have posts: "seq (send_posts ?e ?wi ?cs) ?x1 = ([0, 0], ?x2)" by code_simp
  have recvs: "post_until (URMA_SUCCESS ?e) (map (urma_recv_with_notify ?e ?ri) ?cs') ?x2 = (True, ?x3)" by code_simp
  have copies: "seq (recv_copies ?e ?ri ?cs') ?x3 = ([0, 0], ?x4)" by code_simp
  have n: "length [example_cr 77, example_cr 77] = length ?cs - 1" "length [example_cr 79, example_cr 79] = length ?cs'"
    by code_simp+
  have crs: "\<forall>cr \<in> set [example_cr k, example_cr k]. cr_request_id cr = Some k" for k
    using example_cr_key [of 2 k] by (simp add: numeral_2_eq_2)
  have k: "(77 :: u32) \<noteq> 0" "(79 :: u32) \<noteq> 0" "chunk_bytes < unat (0x500000 :: u32)" "(0x300000 :: u32) \<noteq> 0" by simp_all
  obtain st' where "session ?e example_threads 2 example_cfg example_jetty ?l ?r 0x500000 77 78
      [example_cr 77, example_cr 77] ?l ?d 0x300000 79 [example_cr 79, example_cr 79] ?st
      = Some (([0, 0, 0, 0], [Returned (if failed [0, 0] then minus_one32 else 0),
          Returned (if failed [0, 0] then minus_one32 else 0)]), st')"
    "\<not> g_inited st'" "handles st' = handles ?st" "dev st' = ?x4" "same_objs (theap ?st) (theap st')"
    "no_objects (pheap st')" "id_arrays (pheap st') = id_arrays (pheap ?st)"
    using session_complete [OF s(1-5) example_threads_start s(6) k refl refl first n(1) crs posts refl refl recvs
        n(2) crs copies] by blast
  moreover have "\<not> failed [0, 0]" by (simp add: failed_def)
  ultimately show ?thesis by (intro exI [of _ st']) (simp add: example_ost_def example_heap_def)
qed

end
