(* ===== verification/RequestProps.thy ===== *)
theory RequestProps
  imports TransportProps
begin

text \<open>
  The properties of the parts of a transfer: the chunks, the user data that travels with them, the
  work requests, the results of the tasks; and the calls that end before a request exists.
\<close>

section \<open>Chunks\<close>

text \<open>
  C20.  The chunks are the reference's.  The array \<open>common_split_chunks\<close> allocates and fills with
  64-bit arithmetic holds what cutting 2 MiB off the front, as long as more is left, gives; when
  the array cannot be allocated the result is -1 and the heap holds what it held.
\<close>

theorem split_is_cut:
  assumes "tm_ok m" "len \<noteq> 0"
  shows "common_split_chunks s d len m =
    (if malloc_ok m (calls m)
     then Some ((0, Some (brk m, of_nat (length (cut s d (unat len))))), chunks_heap (cut s d (unat len)) m)
     else Some ((minus_one32, None), m\<lparr>calls := Suc (calls m)\<rparr>))"
  using some_chunks [OF assms(1) _ assms(2), of s d] no_chunks(1) [OF assms(1)] chunk_count_list [of len s d]
  by (simp add: chunk_list_cut [symmetric] del: length_chunk_list)

theorem split_is_cut_witness:
  "common_split_chunks 0x1000 0x9000 0x200001 (example_theap (\<lambda>_. True)) = Some ((0, Some (1, 2)),
     chunks_heap [\<lparr>ck_src = 0x1000, ck_dst = 0x9000, ck_len = 0x200000\<rparr>,
       \<lparr>ck_src = 0x201000, ck_dst = 0x209000, ck_len = 1\<rparr>] (example_theap (\<lambda>_. True)))"
proof -
  have c: "cut 0x1000 0x9000 (unat (0x200001 :: u32)) = [\<lparr>ck_src = 0x1000, ck_dst = 0x9000, ck_len = 0x200000\<rparr>,
       \<lparr>ck_src = 0x201000, ck_dst = 0x209000, ck_len = 1\<rparr>]" by (simp add: cut.simps)
  have b: "brk (example_theap (\<lambda>_. True)) = 1" "malloc_ok (example_theap (\<lambda>_. True)) (calls (example_theap (\<lambda>_. True)))"
    by (simp_all add: example_theap_def)
  from split_is_cut [OF example_theap_ok(1) [of "\<lambda>_. True"], of "0x200001" "0x1000" "0x9000"] show ?thesis
    unfolding c using b by simp
qed

lemma chunk_places:
  assumes "cs = chunk_list s d len" "i < length cs"
  shows "ck_src (cs ! i) = s + of_nat (i * 2097152)" "ck_dst (cs ! i) = d + of_nat (i * 2097152)"
    "unat (ck_len (cs ! i)) = min 2097152 (unat len - i * 2097152)"
    "Suc i < length cs \<Longrightarrow> ck_len (cs ! i) = 2097152"
proof -
  have c: "i < unat (chunk_count len)" "cs ! i = chunk_at s d (ucast len) (of_nat i)"
    using assms(2) by (simp_all add: assms(1) nth_chunk_list)
  have e: "of_nat i * DEFAULT_CHUNK_SIZE = of_nat (i * 2097152)" by (simp add: DEFAULT_CHUNK_SIZE_def)
  show "ck_src (cs ! i) = s + of_nat (i * 2097152)" "ck_dst (cs ! i) = d + of_nat (i * 2097152)"
    unfolding c(2) chunk_at_def using e by simp_all
  show n: "unat (ck_len (cs ! i)) = min 2097152 (unat len - i * 2097152)"
    unfolding c(2) by (rule chunk_len [OF c(1)])
  assume "Suc i < length cs"
  then have "Suc i * 2097152 < unat len" using chunk_count_bounds(1) [of "Suc i" len] by (simp add: assms(1))
  then have "unat (ck_len (cs ! i)) = 2097152" using n by simp
  then show "ck_len (cs ! i) = 2097152" by (simp add: word_unat_eq_iff)
qed

text \<open>
  C21.  The chunks tile the buffer.  Chunk i begins 2 MiB times i into both buffers, every chunk but
  the last is 2 MiB long, the last is not empty and not longer, there are as many as the length
  rounded up says, and together they have the length of the transfer.
\<close>

theorem chunks_tile:
  assumes "len \<noteq> 0" "cs = chunk_list s d len"
  shows "length cs = (unat len + 2097151) div 2097152 \<and>
    (\<forall>i < length cs. ck_src (cs ! i) = s + of_nat (i * 2097152) \<and> ck_dst (cs ! i) = d + of_nat (i * 2097152) \<and>
      (if Suc i < length cs then ck_len (cs ! i) = 2097152 else 0 < ck_len (cs ! i) \<and> ck_len (cs ! i) \<le> 2097152)) \<and>
    sum_list (map (unat \<circ> ck_len) cs) = unat len"
proof (intro conjI allI impI)
  show l: "length cs = (unat len + 2097151) div 2097152" by (simp add: assms(2) unat_chunk_count)
  show "sum_list (map (unat \<circ> ck_len) cs) = unat len"
    unfolding assms(2) chunk_list_cut by (rule cut_total) (use unat_less_u32 [of len] in simp)
  fix i assume i: "i < length cs"
  note p = chunk_places [OF assms(2) i]
  show "ck_src (cs ! i) = s + of_nat (i * 2097152)" "ck_dst (cs ! i) = d + of_nat (i * 2097152)" by (rule p)+
  have "0 < unat (ck_len (cs ! i))" "unat (ck_len (cs ! i)) \<le> 2097152"
    using p(3) chunk_count_bounds(1) [of i len] i by (simp_all add: assms(2))
  then show "if Suc i < length cs then ck_len (cs ! i) = 2097152 else 0 < ck_len (cs ! i) \<and> ck_len (cs ! i) \<le> 2097152"
    using p(4) by (simp add: word_less_nat_alt word_le_nat_alt)
qed

theorem chunks_tile_witness:
  "length (chunk_list 0x1000 0x9000 0x500000) = 3 \<and>
    ck_src (chunk_list 0x1000 0x9000 0x500000 ! 2) = 0x401000 \<and>
    ck_len (chunk_list 0x1000 0x9000 0x500000 ! 1) = 0x200000 \<and>
    sum_list (map (unat \<circ> ck_len) (chunk_list 0x1000 0x9000 0x500000)) = 0x500000"
  using chunks_tile [OF _ refl, of "0x500000" "0x1000" "0x9000"] by simp

section \<open>User data\<close>

lemma user_data_eq:
  "user_data key t i n = user_data key' t' i' n' \<longleftrightarrow>
     key = key' \<and> t = t' \<and> unat i mod 64 = unat i' mod 64 \<and> unat n mod 2 ^ 24 = unat n' mod 2 ^ 24"
proof -
  have tk: "take_bit 6 i = take_bit 6 i' \<longleftrightarrow> unat i mod 64 = unat i' mod 64"
    "take_bit 24 (ucast n :: u64) = take_bit 24 (ucast n') \<longleftrightarrow> unat n mod 2 ^ 24 = unat n' mod 2 ^ 24"
    by (simp_all add: take_bit_eq_mod word_unat_eq_iff unat_mod word_facts)
  have t: "chunk_type_val t = chunk_type_val t' \<longleftrightarrow> t = t'" by (cases t; cases t') simp_all
  have k: "(ucast key :: u64) = ucast key' \<longleftrightarrow> key = key'" by (metis ucast_request_id user_data_fields(1))
  have "user_data key t i n = user_data key' t' i' n' \<longleftrightarrow>
      bs_request_id (user_data key t i n) = bs_request_id (user_data key' t' i' n') \<and>
      bs_chunk_type (user_data key t i n) = bs_chunk_type (user_data key' t' i' n') \<and>
      bs_chunk_id (user_data key t i n) = bs_chunk_id (user_data key' t' i' n') \<and>
      bs_chunk_size (user_data key t i n) = bs_chunk_size (user_data key' t' i' n')"
    using fields_ext by metis
  then show ?thesis unfolding user_data_fields tk t k .
qed

text \<open>
  C25.  What the user data carries.  Two words of user data are equal exactly when the request ids
  and the chunk types are equal, the chunk ids are equal modulo 64 and the sizes modulo 2 ^ 24: the
  key and the type can always be read back, a chunk id only below 64.
\<close>

theorem user_data_carries:
  "user_data key t i n = user_data key' t' i' n' \<longleftrightarrow>
     key = key' \<and> t = t' \<and> unat i mod 64 = unat i' mod 64 \<and> unat n mod 2 ^ 24 = unat n' mod 2 ^ 24"
  by (rule user_data_eq)

section \<open>Work requests and completions\<close>

text \<open>
  C22.  The work requests of a send.  The i-th post of the workers is a write with notification of
  chunk i + 1, from its place in the local to its place in the remote buffer, marked as the last
  chunk or a middle one, with its id and length and the keys of both sides; whatever completion
  it raises, on the sender or on the receiver, leads back to the request of that side.
\<close>

theorem send_work_requests:
  assumes "cs = chunk_list (ob_addr l) (ob_addr r) len" "wi = send_info ji l r len sk ck" "Suc i < length cs"
    and "wr = \<lparr>wr_opcode = URMA_OPC_WRITE_NOTIFY, wr_complete_enable = True, wr_inline_flag = False,
       wr_tjetty = ji_tjetty ji,
       wr_user_ctx = user_data sk (if i + 2 = length cs then LAST_CHUNK else MIDDLE_CHUNK) (of_nat (i + 1)) n,
       wr_src = [\<lparr>sge_addr = ob_addr l + of_nat ((i + 1) * 2097152), sge_len = n, sge_tseg = ob_tseg l\<rparr>],
       wr_dst = [\<lparr>sge_addr = ob_addr r + of_nat ((i + 1) * 2097152), sge_len = n, sge_tseg = ob_tseg r\<rparr>],
       wr_notify_data = user_data ck (if i + 2 = length cs then LAST_CHUNK else MIDDLE_CHUNK) (of_nat (i + 1)) n\<rparr>"
    and "n = ck_len (cs ! (i + 1))"
  shows "(send_posts e wi cs ! i) x = (if ji_jfs ji \<noteq> NULL then urma_post_jfs_wr e (ji_jfs ji) wr x
      else if ji_jetty ji \<noteq> NULL then urma_post_jetty_send_wr e (ji_jetty ji) wr x else (URMA_FAIL e, x)) \<and>
    cr_request_id \<lparr>cr_opc = URMA_CR_OPC_SEND, cr_imm_data = v, cr_user_ctx = wr_user_ctx wr\<rparr> = Some sk \<and>
    cr_request_id \<lparr>cr_opc = URMA_CR_OPC_WRITE_WITH_IMM, cr_imm_data = wr_notify_data wr, cr_user_ctx = v\<rparr> = Some ck"
proof -
  let ?a = "construct_send_task_arg wi (NULL + Suc i) (cs ! Suc i) (of_nat (Suc i)) (Suc (Suc i) = length cs) NULL"
  note c = chunk_places(1,2) [OF assms(1,3)]
  have "write_wr (sa_write_info ?a) (cs ! Suc i) = wr"
    using send_task_wr [of ?a ji l r _ sk ck, unfolded send_info_def [symmetric]] assms(2,4,5) c
    by (simp add: send_info_def send_task_wr)
  moreover have "wi_jfs (sa_write_info ?a) = ji_jfs ji" "wi_jetty (sa_write_info ?a) = ji_jetty ji"
    by (simp_all add: assms(2) send_info_def build_write_info_def construct_send_task_arg_def Let_def)
  moreover have "send_posts e wi cs ! i = send_action e wi NULL cs i" using assms(3) by (simp add: send_posts_def)
  ultimately have "(send_posts e wi cs ! i) x = (if ji_jfs ji \<noteq> NULL then urma_post_jfs_wr e (ji_jfs ji) wr x
      else if ji_jetty ji \<noteq> NULL then urma_post_jetty_send_wr e (ji_jetty ji) wr x else (URMA_FAIL e, x))"
    by (simp add: send_action_def urma_write_with_notify_def)
  then show ?thesis by (simp add: assms(4) cr_of_wr)
qed

theorem send_work_requests_witness:
  "(send_posts example_ext (send_info example_jetty (example_buffer 0x1000000) (example_buffer 0x5000000) 0x500000 77 78)
      (chunk_list 0x1000000 0x5000000 0x500000) ! 1) [] = (0, [(0x1400000, 0x5400000, 0x100000)]) \<and>
    cr_request_id \<lparr>cr_opc = URMA_CR_OPC_SEND, cr_imm_data = 0, cr_user_ctx = user_data 77 LAST_CHUNK 2 0x100000\<rparr> = Some 77"
proof -
  have n: "ck_len (chunk_list (ob_addr (example_buffer 0x1000000)) (ob_addr (example_buffer 0x5000000)) 0x500000 ! (1 + 1))
      = 0x100000" "length (chunk_list (ob_addr (example_buffer 0x1000000)) (ob_addr (example_buffer 0x5000000)) 0x500000) = 3"
    by code_simp+
  have b: "ob_addr (example_buffer k) = k" for k by (simp add: example_buffer_def)
  from send_work_requests [OF refl refl _ refl n(1) [symmetric], where e = example_ext and x = "[]" and v = 0 and
      ji = example_jetty and sk = 77 and ck = 78] show ?thesis
    unfolding n by (simp add: b example_jetty_def example_ext_def example_buffer_def)
qed

text \<open>Devices that take every post and append a note of it.\<close>

lemma seq_notes:
  assumes "\<forall>j \<in> set js. \<forall>x. f j x = (v, x @ [g j])"
  shows "seq (map f js) x = (replicate (length js) v, x @ map g js)"
  using assms by (induction js arbitrary: x) simp_all

lemma send_action_wr:
  assumes "wi = send_info ji l r len sk ck"
  obtains wr where "\<And>x. send_action e wi NULL cs i x =
      (if ji_jfs ji \<noteq> NULL then urma_post_jfs_wr e (ji_jfs ji) wr x
       else if ji_jetty ji \<noteq> NULL then urma_post_jetty_send_wr e (ji_jetty ji) wr x else (URMA_FAIL e, x))"
    "wr_user_ctx wr = user_data sk (if i + 2 = length cs then LAST_CHUNK else MIDDLE_CHUNK) (of_nat (i + 1)) (ck_len (cs ! (i + 1)))"
    "wr_notify_data wr = user_data ck (if i + 2 = length cs then LAST_CHUNK else MIDDLE_CHUNK) (of_nat (i + 1)) (ck_len (cs ! (i + 1)))"
proof -
  let ?a = "construct_send_task_arg wi (NULL + Suc i) (cs ! Suc i) (of_nat (Suc i)) (Suc (Suc i) = length cs) NULL"
  have "wi_jfs (sa_write_info ?a) = ji_jfs ji" "wi_jetty (sa_write_info ?a) = ji_jetty ji"
    by (simp_all add: assms send_info_def build_write_info_def construct_send_task_arg_def Let_def)
  then show thesis
    using send_task_wr [of ?a ji l r _ sk ck, unfolded send_info_def [symmetric]] assms
    by (intro that [of "write_wr (sa_write_info ?a) (cs ! Suc i)"])
      (simp_all add: send_action_def urma_write_with_notify_def send_info_def send_task_wr del: of_nat_Suc)
qed

text \<open>
  The words the chunks of a send carry: the first as a chunk that is not split, the last as the last,
  the others as middle chunks, whose ids repeat after 64.
\<close>

definition chunk_words :: "u32 \<Rightarrow> chunk_info list \<Rightarrow> u64 list" where
  "chunk_words key cs = user_data key NOT_SPLIT 0 (ck_len (hd cs)) #
     map (\<lambda>i. user_data key (if i + 2 = length cs then LAST_CHUNK else MIDDLE_CHUNK) (of_nat (i + 1)) (ck_len (cs ! (i + 1))))
       [0..<length cs - 1]"

lemma distinct_chunk_words:
  assumes "2 \<le> length cs" "length cs \<le> 4096" "\<And>i. Suc i < length cs \<Longrightarrow> ck_len (cs ! i) = 2097152"
  shows "distinct (chunk_words key cs) \<longleftrightarrow> length cs \<le> 66"
proof -
  let ?n = "length cs - 2" and ?w = "\<lambda>i. user_data key MIDDLE_CHUNK (of_nat (i + 1)) 2097152"
  let ?last = "user_data key LAST_CHUNK (of_nat (?n + 1)) (ck_len (cs ! (?n + 1)))"
  have "length cs - 1 = Suc ?n" using assms(1) by simp
  then have "[0..<length cs - 1] = [0..<?n] @ [?n]" by (simp only: upt_Suc_append le0)
  moreover have "map (\<lambda>i. user_data key (if i + 2 = length cs then LAST_CHUNK else MIDDLE_CHUNK) (of_nat (i + 1))
      (ck_len (cs ! (i + 1)))) [0..<?n] = map ?w [0..<?n]" using assms(1,3) by auto
  moreover have "?n + 2 = length cs" using assms(1) by simp
  ultimately have w: "chunk_words key cs = user_data key NOT_SPLIT 0 (ck_len (hd cs)) # map ?w [0..<?n] @ [?last]"
    by (simp add: chunk_words_def)
  have same: "?w i = ?w j \<longleftrightarrow> Suc i mod 64 = Suc j mod 64" if "i < ?n" "j < ?n" for i j
    using that assms(2) unfolding user_data_eq by (simp add: unat_of_nat64 del: of_nat_Suc)
  have "distinct (chunk_words key cs) \<longleftrightarrow> inj_on ?w {0..<?n}"
    unfolding w by (auto simp: user_data_eq distinct_map)
  also have "\<dots> \<longleftrightarrow> ?n \<le> 64"
  proof
    assume inj: "inj_on ?w {0..<?n}"
    show "?n \<le> 64"
    proof (rule ccontr)
      assume n: "\<not> ?n \<le> 64"
      then have l: "0 \<in> {0..<?n}" "64 \<in> {0..<?n}" by auto
      then have "?w 0 = ?w 64" using same [of 0 64] by simp
      from inj_onD [OF inj this l] show False by simp
    qed
  next
    assume n: "?n \<le> 64"
    show "inj_on ?w {0..<?n}"
    proof (rule inj_onI)
      fix i j assume i: "i \<in> {0..<?n}" "j \<in> {0..<?n}" "?w i = ?w j"
      then have "Suc i mod 64 = Suc j mod 64" using same [of i j] by simp
      moreover have "i < 64" "j < 64" using i n by auto
      moreover have "Suc k mod 64 = (if k = 63 then 0 else Suc k)" if "k < 64" for k :: nat using that by simp
      ultimately show "i = j" by (auto split: if_splits)
    qed
  qed
  finally show ?thesis using assms(1) by (simp only: le_diff_conv) simp
qed

text \<open>
  C26.  The words of a send's chunks.  On devices that take every post, a send worked off to its end
  posts one request per chunk; the words its completions carry on the sender, and those on the
  receiver, are all different exactly up to 66 chunks, the first, the last and 64 between them, a
  length of 132 MiB: in a longer send two chunks cannot be told apart by their completions.
\<close>

theorem chunk_ids_distinct:
  fixes st :: "urma_jfs_wr list ost"
  assumes "handle_with h p a st" "env_ok (theap st)" "ready a i sk" "chunk_bytes < unat len"
    and "cs = chunk_list (ob_addr l) (ob_addr r) len" "ji_jfs ji \<noteq> NULL \<or> ji_jetty ji \<noteq> NULL"
    and "\<And>q wr x. urma_post_jfs_wr e q wr x = (URMA_SUCCESS e, x @ [wr])"
    and "\<And>q wr x. urma_post_jetty_send_wr e q wr x = (URMA_SUCCESS e, x @ [wr])"
    and crs: "length crs = length cs - 1" "\<forall>cr \<in> set crs. cr_request_id cr = Some sk"
  shows "\<exists>sync st1 vs st2 wrs.
    os_transport_send e h (Some ji) (Some l) (Some r) len sk ck True st = Some ((0, sync), st1) \<and>
    run (ost_do e) (work_off h i crs) st1 = Some (vs, st2) \<and> dev st2 = dev st @ wrs \<and> length wrs = length cs \<and>
    (distinct (map wr_user_ctx wrs) \<longleftrightarrow> unat len \<le> 66 * 2097152) \<and>
    (distinct (map wr_notify_data wrs) \<longleftrightarrow> unat len \<le> 66 * 2097152)"
proof -
  let ?wi = "send_info ji l r len sk ck"
  obtain oh where oh: "handles st h = Some oh" using handle_withD [OF assms(1)] by metis
  note lt = long_transfer(3,4) [OF assms(4), of "ob_addr l" "ob_addr r", folded assms(5)]
  obtain p1 m1 sync where s: "os_transport_send e h (Some ji) (Some l) (Some r) len sk ck True st =
      (let (status, x) = urma_write_with_notify e ?wi (hd cs) (dev st); st1 = with_pool h oh p1 m1 x st
       in if status = URMA_SUCCESS e then Some ((0, sync), st1)
          else do { st2 \<leftarrow> complete_request sync st1; Some ((minus_one32, sync), st2) })"
    "live e h oh a i sk cs sync (send_posts e ?wi cs) st p1 m1"
    by (rule send_live [OF assms(1) oh assms(2-5) refl])
  let ?wr = "write_wr ?wi (hd cs)"
  have wr: "urma_write_with_notify e ?wi (hd cs) x = (URMA_SUCCESS e, x @ [?wr])" for x
    using assms(6-8) by (auto simp: urma_write_with_notify_def send_info_def build_write_info_def Let_def)
  have "\<forall>i. \<exists>w. (\<forall>x. send_action e ?wi NULL cs i x = (URMA_SUCCESS e, x @ [w])) \<and>
      wr_user_ctx w = user_data sk (if i + 2 = length cs then LAST_CHUNK else MIDDLE_CHUNK) (of_nat (i + 1)) (ck_len (cs ! (i + 1))) \<and>
      wr_notify_data w = user_data ck (if i + 2 = length cs then LAST_CHUNK else MIDDLE_CHUNK) (of_nat (i + 1)) (ck_len (cs ! (i + 1)))" (is "\<forall>i. ?P i")
  proof
    fix i show "?P i"
      by (rule send_action_wr [OF refl, of e ji l r len sk ck cs i]) (use assms(6-8) in auto)
  qed
  then obtain g where g: "\<forall>i x. send_action e ?wi NULL cs i x = (URMA_SUCCESS e, x @ [g i])"
    "\<forall>i. wr_user_ctx (g i) = user_data sk (if i + 2 = length cs then LAST_CHUNK else MIDDLE_CHUNK) (of_nat (i + 1)) (ck_len (cs ! (i + 1)))"
    "\<forall>i. wr_notify_data (g i) = user_data ck (if i + 2 = length cs then LAST_CHUNK else MIDDLE_CHUNK) (of_nat (i + 1)) (ck_len (cs ! (i + 1)))"
    by metis
  let ?wrs = "?wr # map g [0..<length cs - 1]"
  have posts: "seq (take (length crs) (send_posts e ?wi cs)) (dev st @ [?wr])
      = (replicate (length cs - 1) (URMA_SUCCESS e), dev st @ ?wrs)"
    using seq_notes [of "[0..<length cs - 1]" "send_action e ?wi NULL cs" "URMA_SUCCESS e" g] g(1) crs(1)
    by (simp add: send_posts_def)
  have n: "length (send_posts e ?wi cs) = length cs - 1" "0 < length cs - 1" "length cs - 1 < 2 ^ 32" "cs \<noteq> []"
    using lt le_less_trans [OF diff_le_self lt(2)] by (auto simp: send_posts_def)
  have pre: "0 < length (send_posts e ?wi cs)" "length (send_posts e ?wi cs) < 2 ^ 32" "length crs \<le> length (send_posts e ?wi cs)"
    using n(1-3) crs(1) by simp_all
  obtain vs st2 where 2: "run (ost_do e) (work_off h i crs) (with_pool h oh p1 m1 (dev st @ [?wr]) st) = Some (vs, st2)"
    "dev st2 = dev st @ ?wrs"
    by (rule live_outcome [OF assms(1) oh assms(3) n(4) s(2) pre crs(2) posts]) (rule that)
  have ids: "map wr_user_ctx ?wrs = chunk_words sk cs" "map wr_notify_data ?wrs = chunk_words ck cs"
    using g(2,3) n(4) by (simp_all add: chunk_words_def write_wr_def send_info_def build_write_info_def assms(5) [symmetric])
  have k: "length cs = (unat len + 2097151) div 2097152" by (simp add: assms(5) unat_chunk_count)
  then have "length cs \<le> 4096" "length cs \<le> 66 \<longleftrightarrow> unat len \<le> 66 * 2097152"
    using unat_less_u32 [of len] by auto
  moreover have "ck_len (cs ! i) = 2097152" if "Suc i < length cs" for i
    using chunk_places(4) [OF assms(5) _ that] that by simp
  ultimately have "distinct (chunk_words key cs) \<longleftrightarrow> unat len \<le> 66 * 2097152" for key
    using distinct_chunk_words [OF lt(1), of key] by simp
  then show ?thesis
    using s(1) wr 2 ids n(2) by (intro exI [of _ sync] exI [of _ "with_pool h oh p1 m1 (dev st @ [?wr]) st"]
      exI [of _ vs] exI [of _ st2] exI [of _ ?wrs]) simp
qed

text \<open>Devices that note the work requests, for the witness.\<close>

definition example_notes :: "urma_jfs_wr list ext" where
  "example_notes =
     \<lparr>URMA_SUCCESS = 0, URMA_FAIL = 1, urma_post_jfs_wr = (\<lambda>q wr x. (0, x @ [wr])),
      urma_post_jetty_send_wr = (\<lambda>q wr x. (0, x @ [wr])), urma_post_jfr_wr = (\<lambda>q wr x. (0, x)),
      cudaMemcpyAsync = (\<lambda>d s n stream x. (0, x)), cudaEventRecord = (\<lambda>ev stream x. x)\<rparr>"

theorem chunk_ids_distinct_witness:
  "\<exists>st s1 st1 vs1 st2 wrs1 s2 st3 vs2 st4 wrs2.
    os_transport_init example_notes example_threads True 2 (Some example_cfg) True (example_state (\<lambda>_. True)) = Some ((0, 1), st) \<and>
    os_transport_send example_notes 1 (Some example_jetty) (Some (example_buffer 0x10000000)) (Some (example_buffer 0x50000000))
      0x8400000 77 78 True st = Some ((0, s1), st1) \<and>
    run (ost_do example_notes) (work_off 1 0 (replicate 65 (example_cr 77))) st1 = Some (vs1, st2) \<and>
    dev st2 = wrs1 \<and> length wrs1 = 66 \<and> distinct (map wr_user_ctx wrs1) \<and> distinct (map wr_notify_data wrs1) \<and>
    os_transport_send example_notes 1 (Some example_jetty) (Some (example_buffer 0x10000000)) (Some (example_buffer 0x50000000))
      0x8400001 77 78 True st = Some ((0, s2), st3) \<and>
    run (ost_do example_notes) (work_off 1 0 (replicate 66 (example_cr 77))) st3 = Some (vs2, st4) \<and>
    dev st4 = wrs2 \<and> length wrs2 = 67 \<and> \<not> distinct (map wr_user_ctx wrs2) \<and> \<not> distinct (map wr_notify_data wrs2)"
proof -
  obtain p st where i: "os_transport_init example_notes example_threads True 2 (Some example_cfg) True (example_state (\<lambda>_. True))
      = Some ((0, 1), st)" "handle_with 1 p (a_started example_threads example_heap) st"
    "env_ok (theap st)" "dev st = []" "ready (a_started example_threads example_heap) 0 77"
    by (rule example_started [of "\<lambda>_. True" example_notes]) simp_all
  let ?l = "example_buffer 0x10000000" and ?r = "example_buffer 0x50000000"
  have k: "length (chunk_list s d 0x8400000) = 66" "length (chunk_list s d 0x8400001) = 67" for s d
    by (simp_all add: unat_chunk_count)
  have j: "ji_jfs example_jetty \<noteq> NULL \<or> ji_jetty example_jetty \<noteq> NULL" by (simp add: example_jetty_def)
  have e: "urma_post_jfs_wr example_notes q wr x = (URMA_SUCCESS example_notes, x @ [wr])"
    "urma_post_jetty_send_wr example_notes q wr x = (URMA_SUCCESS example_notes, x @ [wr])" for q wr x
    by (simp_all add: example_notes_def)
  note c = chunk_ids_distinct [OF i(2,3,5) _ refl j e _ example_cr_key, where l = ?l and r = ?r and ck = 78, unfolded i(4) append_Nil]
  from c [of "0x8400000" 65] obtain s1 st1 vs1 st2 wrs1 where 1:
    "os_transport_send example_notes 1 (Some example_jetty) (Some ?l) (Some ?r) 0x8400000 77 78 True st = Some ((0, s1), st1)"
    "run (ost_do example_notes) (work_off 1 0 (replicate 65 (example_cr 77))) st1 = Some (vs1, st2)"
    "dev st2 = wrs1" "length wrs1 = 66" "distinct (map wr_user_ctx wrs1)" "distinct (map wr_notify_data wrs1)"
    unfolding k by auto
  from c [of "0x8400001" 66] obtain s2 st3 vs2 st4 wrs2 where 2:
    "os_transport_send example_notes 1 (Some example_jetty) (Some ?l) (Some ?r) 0x8400001 77 78 True st = Some ((0, s2), st3)"
    "run (ost_do example_notes) (work_off 1 0 (replicate 66 (example_cr 77))) st3 = Some (vs2, st4)"
    "dev st4 = wrs2" "length wrs2 = 67" "\<not> distinct (map wr_user_ctx wrs2)" "\<not> distinct (map wr_notify_data wrs2)"
    unfolding k by auto
  show ?thesis
    by (rule exI [of _ st], rule exI [of _ s1], rule exI [of _ st1], rule exI [of _ vs1], rule exI [of _ st2],
        rule exI [of _ wrs1], rule exI [of _ s2], rule exI [of _ st3], rule exI [of _ vs2], rule exI [of _ st4],
        rule exI [of _ wrs2]) (intro conjI i(1) 1 2)
qed

text \<open>
  C23.  Completions.  A completion with an opcode the code does not know returns -1 and changes
  nothing; one of a request without queued tasks returns -1 and changes nothing but the pool's
  bookkeeping; otherwise the worker of the request is told to run a task of it, and only that: an
  earlier wake-up of this worker that it has not yet seen is overwritten.
\<close>

theorem completion_wakes:
  fixes st :: "'x ost"
  assumes "handle_with h p a st"
  shows "case cr_request_id cr of
      None \<Rightarrow> os_transport_wake_up_task h cr st = Some (-1, st)
    | Some q \<Rightarrow> (case a_ctx a q of
        None \<Rightarrow> (\<exists>p' st'. os_transport_wake_up_task h cr st = Some (-1, st') \<and> handle_with h p' a st' \<and>
          theap st' = theap st \<and> dev st' = dev st)
      | Some c \<Rightarrow> (\<exists>p' st'. os_transport_wake_up_task h cr st = Some (0, st') \<and>
          handle_with h p' (a\<lparr>a_pend := (a_pend a)[ac_worker c := q]\<rparr>) st' \<and>
          theap st' = theap st \<and> dev st' = dev st))"
proof -
  obtain oh where d: "h \<noteq> NULL" "g_inited st" "handles st h = Some oh" "oh_thread_pool oh = Some p"
    "pool_rel p a" "tm_ok (theap st)" by (rule handle_withD [OF assms])
  show ?thesis
  proof (cases "cr_request_id cr")
    case None
    then show ?thesis using d(3) by (simp add: os_transport_wake_up_task_def)
  next
    case (Some q)
    from wake_refine [OF d(5), of q] obtain v p' a' where w: "a_wake q a = (v, a')"
      "thread_pool_wake_up_worker_by_req_id p q = Some (v, p')" "pool_rel p' a'"
      by (cases "a_wake q a") (auto simp: option_rel_Some2)
    let ?st = "with_pool h oh p' (theap st) (dev st) st"
    have "os_transport_wake_up_task h cr st = Some (v, ?st)"
      using wake_on_pool [OF Some, of h oh p "theap st" "dev st" st] w(2)
      unfolding with_pool_self [OF d(3,4)] by simp
    moreover have "handle_with h p' a' ?st" using d(1,2,6) w(3) by (simp add: handle_with_def)
    ultimately show ?thesis using w(1) Some
      by (auto simp: a_wake_def split: option.splits intro!: exI [of _ p'] exI [of _ ?st])
  qed
qed

theorem completion_wakes_witness:
  "\<exists>st. os_transport_init example_ext example_threads True 2 (Some example_cfg) True (example_ost (\<lambda>_. True))
      = Some ((0, 1), st) \<and>
    os_transport_wake_up_task 1 \<lparr>cr_opc = URMA_CR_OPC_OTHER 7, cr_imm_data = 0, cr_user_ctx = 0\<rparr> st = Some (-1, st)"
proof -
  obtain p st where i: "os_transport_init example_ext example_threads True 2 (Some example_cfg) True
      (example_ost (\<lambda>_. True)) = Some ((0, 1), st)" "handle_with 1 p (a_started example_threads example_heap) st"
    by (rule example_started [of "\<lambda>_. True" example_ext]) simp
  from completion_wakes [OF i(2), of "\<lparr>cr_opc = URMA_CR_OPC_OTHER 7, cr_imm_data = 0, cr_user_ctx = 0\<rparr>"] i(1)
  show ?thesis by (simp add: cr_request_id_def)
qed

section \<open>Results\<close>

text \<open>The workers report the results rs one after the other.\<close>

fun report :: "ptr \<Rightarrow> int list \<Rightarrow> tmem \<Rightarrow> tmem option" where
  "report sync [] m = Some m"
| "report sync (r # rs) m = do { m1 \<leftarrow> mark_task_group_completed sync (r = 0) m; report sync rs m1 }"

lemma report_results:
  "sync \<noteq> NULL \<Longrightarrow> syncs m sync = Some s \<Longrightarrow>
     report sync rs m = Some (m\<lparr>syncs := (syncs m)(sync \<mapsto> after_results rs s)\<rparr>)"
  by (induction rs arbitrary: m s) (simp_all add: mark_task_group_completed_eq fun_upd_idem)

text \<open>
  C24.  Waiting.  For a request of n tasks, waiting returns -1 as soon as one result is a failure, 0
  when n successes have been reported, and goes on waiting before that; the order in which the
  results come in does not matter.
\<close>

theorem wait_decides:
  assumes "sync \<noteq> NULL" "syncs m sync = Some (request_sync (of_nat n) g c)" "0 < n" "n < 2 ^ 32"
    and "length rs \<le> n" "mset rs' = mset rs"
  shows "\<exists>m'. report sync rs' m = Some m' \<and> wait_for_task_complete sync m' =
    Some (if \<exists>r \<in> set rs. r \<noteq> 0 then Returned minus_one32 else if length rs = n then Returned 0 else Waiting)"
proof -
  have l: "length rs' = length rs" "set rs' = set rs" using assms(6) by (metis size_mset, metis set_mset_mset)
  let ?m = "m\<lparr>syncs := (syncs m)(sync \<mapsto> after_results rs' (request_sync (of_nat n) g c))\<rparr>"
  have "wait_for_task_complete sync ?m = Some (wait_result n rs')"
    by (rule wait_after_results) (use assms l in simp_all)
  moreover have "report sync rs' m = Some ?m" by (rule report_results [OF assms(1,2)])
  ultimately show ?thesis using l by (simp add: wait_result_def failed_def)
qed

theorem wait_decides_witness:
  "\<exists>m'. report 5 [0, 3] ((example_theap (\<lambda>_. True))\<lparr>syncs := [5 \<mapsto> request_sync (of_nat 3) 6 7]\<rparr>) = Some m' \<and>
    wait_for_task_complete 5 m' = Some (Returned minus_one32)"
  using wait_decides [of 5 "(example_theap (\<lambda>_. True))\<lparr>syncs := [5 \<mapsto> request_sync (of_nat 3) 6 7]\<rparr>" 3 6 7 "[3, 0]" "[0, 3]"]
  by simp

section \<open>Calls that end at once\<close>

text \<open>
  C27.  A send of at most 2 MiB is one post, of the whole buffer, marked as not split: it allocates
  nothing, leaves the pool alone, returns no object to wait for, and its result says whether the
  post succeeded.
\<close>

theorem small_send:
  fixes st :: "'x ost"
  assumes "h \<noteq> NULL" "g_inited st" "0 < len" "len \<le> 2097152"
    and "wr = \<lparr>wr_opcode = URMA_OPC_WRITE_NOTIFY, wr_complete_enable = True, wr_inline_flag = False,
       wr_tjetty = ji_tjetty ji, wr_user_ctx = user_data sk NOT_SPLIT 0 len,
       wr_src = [\<lparr>sge_addr = ob_addr l, sge_len = len, sge_tseg = ob_tseg l\<rparr>],
       wr_dst = [\<lparr>sge_addr = ob_addr r, sge_len = len, sge_tseg = ob_tseg r\<rparr>],
       wr_notify_data = user_data ck NOT_SPLIT 0 len\<rparr>"
    and "(if ji_jfs ji \<noteq> NULL then urma_post_jfs_wr e (ji_jfs ji) wr (dev st)
      else if ji_jetty ji \<noteq> NULL then urma_post_jetty_send_wr e (ji_jetty ji) wr (dev st) else (URMA_FAIL e, dev st))
      = (v, x)"
  shows "os_transport_send e h (Some ji) (Some l) (Some r) len sk ck True st
    = Some ((if v = URMA_SUCCESS e then 0 else minus_one32, NULL), st\<lparr>dev := x\<rparr>)"
proof -
  have "(ucast len :: u64) \<le> DEFAULT_CHUNK_SIZE"
    using assms(4) by (simp add: word_le_nat_alt word_facts)
  moreover have "validate_send_input h (Some ji) (Some l) (Some r) len True st = 0"
    using assms(1-3) by (auto simp: validate_send_input_def)
  moreover have "send_single_chunk e ji l r len sk ck (dev st) = (if v = URMA_SUCCESS e then 0 else minus_one32, x)"
    using assms(6) unfolding assms(5)
    by (auto simp: send_single_chunk_def build_write_info_def urma_write_with_notify_def write_wr_def Let_def split: if_splits)
  ultimately show ?thesis by (simp add: os_transport_send_def)
qed

theorem small_send_witness:
  "os_transport_send example_ext 1 (Some example_jetty) (Some (example_buffer 0x1000000)) (Some (example_buffer 0x5000000))
      0x200000 77 78 True ((example_ost (\<lambda>_. True))\<lparr>g_inited := True\<rparr>)
    = Some ((0, NULL), (example_ost (\<lambda>_. True))\<lparr>g_inited := True, dev := [(0x1000000, 0x5000000, 0x200000)]\<rparr>)"
proof -
  let ?st = "(example_ost (\<lambda>_. True))\<lparr>g_inited := True\<rparr>"
  have "os_transport_send example_ext 1 (Some example_jetty) (Some (example_buffer 0x1000000)) (Some (example_buffer 0x5000000))
      0x200000 77 78 True ?st = Some ((if 0 = URMA_SUCCESS example_ext then 0 else minus_one32, NULL),
        ?st\<lparr>dev := [(0x1000000, 0x5000000, 0x200000)]\<rparr>)"
    by (rule small_send [OF _ _ _ _ refl]) (simp_all add: example_ost_def example_jetty_def example_ext_def example_buffer_def)
  then show ?thesis by (simp add: example_ext_def)
qed



text \<open>
  C32.  Registering completion queues.  On a handle in use \<open>os_transport_reg_jfc\<close> returns 0 and stores
  the two queues and the event mode of the handle in the pool; the pool's tasks, the heap and the
  devices are untouched.
\<close>

theorem reg_jfc_stores:
  fixes st :: "'x ost"
  assumes "handle_with h p a st" "handles st h = Some oh"
  shows "\<exists>p' st'. os_transport_reg_jfc jfce jfc h st = Some (0, st') \<and> handle_with h p' a st' \<and>
    theap st' = theap st \<and> dev st' = dev st \<and> urma_jfce p' = jfce \<and> urma_jfc p' = jfc \<and>
    urma_event_mode p' = oh_event_mode oh \<and> workers p' = workers p \<and> pmem p' = pmem p"
proof -
  have d: "h \<noteq> NULL" "g_inited st" "oh_thread_pool oh = Some p" "pool_rel p a" "tm_ok (theap st)"
    using assms by (auto simp: handle_with_def get_pool_def)
  let ?p = "update_jfc_for_poll jfce jfc (oh_event_mode oh) p"
  let ?st = "st\<lparr>handles := (handles st)(h \<mapsto> oh\<lparr>oh_thread_pool := Some ?p\<rparr>)\<rparr>"
  have "os_transport_reg_jfc jfce jfc h st = Some (0, ?st)"
    using d assms(2) by (simp add: os_transport_reg_jfc_def set_pool_def)
  moreover have "handle_with h ?p a ?st" using d by (simp add: handle_with_def get_pool_def update_jfc_for_poll_def)
  ultimately show ?thesis by (intro exI [of _ ?p] exI [of _ ?st]) (simp add: update_jfc_for_poll_def)
qed

theorem reg_jfc_stores_witness:
  "\<exists>st p' st'. os_transport_init example_ext example_threads True 2 (Some example_cfg) True (example_ost (\<lambda>_. True))
      = Some ((0, 1), st) \<and> os_transport_reg_jfc 21 22 1 st = Some (0, st') \<and>
    handle_with 1 p' (a_started example_threads example_heap) st' \<and> urma_jfce p' = 21 \<and> urma_jfc p' = 22"
proof -
  obtain p st where i: "os_transport_init example_ext example_threads True 2 (Some example_cfg) True
      (example_ost (\<lambda>_. True)) = Some ((0, 1), st)" "handle_with 1 p (a_started example_threads example_heap) st"
    by (rule example_started [of "\<lambda>_. True" example_ext]) simp
  obtain oh where oh: "handles st 1 = Some oh" by (rule handle_withD [OF i(2)])
  from reg_jfc_stores [OF i(2) oh, of 21 22] i(1) show ?thesis by blast
qed

end
