(* ===== verification/TableContract.thy ===== *)
theory TableContract
  imports ReqTable Contracts
begin

text \<open>
  The request table as a provider of the dictionary contract: looking up, putting and deleting a
  context as the pool does it, with the allocation of the context and its release.
\<close>

type_synonym table = "mem \<times> req_table"

text \<open>The table holds the map A, contexts can be allocated, and none lives beyond the frontier.\<close>

definition table_rep :: "table \<Rightarrow> (u32 \<Rightarrow> actx option) \<Rightarrow> bool" where
  "table_rep t A \<longleftrightarrow> ht (fst t) (snd t) A \<and> (\<forall>n. malloc_ok (fst t) n) \<and> 0 < brk (fst t) \<and>
     (\<forall>q \<ge> brk (fst t). ctxs (fst t) q = None)"

definition table_look :: "u32 \<Rightarrow> table \<Rightarrow> actx option option" where
  "table_look r t =
     do {
       c \<leftarrow> find_req_context (fst t) (snd t) r;
       if c = NULL then Some None else map_option (\<lambda>cx. Some (actx_of cx)) (ctxs (fst t) c)
     }"

definition table_put :: "u32 \<times> actx \<Rightarrow> table \<Rightarrow> table option" where
  "table_put ra t =
     (let (c, m) = malloc1 (fst t); a = snd ra in
      if c = NULL then None
      else insert_req_context (m\<lparr>ctxs := (ctxs m)(c \<mapsto>
        \<lparr>rc_request_id = fst ra, rc_worker_idx = ac_worker a, rc_pending_count = ac_pending a,
         rc_batch_cb = ac_cb a, rc_batch_user_data = ac_data a, rc_next = NULL\<rparr>)\<rparr>) (snd t) c)"

definition table_del :: "u32 \<Rightarrow> table \<Rightarrow> table option" where
  "table_del r t = remove_req_context (fst t) (snd t) r"

lemma table_look_law:
  assumes "table_rep t A" shows "table_look r t = Some (A r)"
proof -
  from assms have t: "ht (fst t) (snd t) A" by (simp add: table_rep_def)
  show ?thesis
  proof (cases "A r")
    case None
    with find_req_context_none [OF t] show ?thesis by (simp add: table_look_def)
  next
    case (Some a)
    obtain c cx where "find_req_context (fst t) (snd t) r = Some c" "c \<noteq> NULL" "ctxs (fst t) c = Some cx" "actx_of cx = a"
      by (rule find_req_context_some [OF t Some])
    with Some show ?thesis by (simp add: table_look_def)
  qed
qed

lemma table_put_law:
  assumes "table_rep t A" "A r = None"
  shows "\<exists>t'. table_put (r, a) t = Some t' \<and> table_rep t' (A(r \<mapsto> a))"
proof -
  obtain m hash where t: "t = (m, hash)" by (cases t)
  have r: "ht m hash A" "\<forall>n. malloc_ok m n" "0 < brk m" "\<forall>q \<ge> brk m. ctxs m q = None"
    using assms(1) by (simp_all add: table_rep_def t)
  let ?c = "brk m" and ?m = "m\<lparr>brk := brk m + 1, calls := Suc (calls m)\<rparr>"
  let ?cx = "\<lparr>rc_request_id = r, rc_worker_idx = ac_worker a, rc_pending_count = ac_pending a,
     rc_batch_cb = ac_cb a, rc_batch_user_data = ac_data a, rc_next = NULL\<rparr>"
  have h: "ht ?m hash A" using r(1) ht_cong [of ?m m] by simp
  have new: "A (rc_request_id ?cx) = None" "ctxs ?m ?c = None" "?c \<noteq> NULL" using assms(2) r(3,4) by simp_all
  obtain m1 hash1 where ins: "insert_req_context (?m\<lparr>ctxs := (ctxs ?m)(?c \<mapsto> ?cx)\<rparr>) hash ?c = Some (m1, hash1)"
    "ht m1 hash1 (A(r \<mapsto> actx_of ?cx))"
    "m1 = ?m\<lparr>ctxs := (ctxs ?m)(?c \<mapsto> ?cx\<lparr>rc_next := hash (bucket (rc_request_id ?cx))\<rparr>)\<rparr>"
    by (rule insert_req_context_spec [OF h new]) simp
  have "actx_of ?cx = a" by (simp add: actx_of_def)
  moreover have "\<forall>n. malloc_ok m1 n" "0 < brk m1" "\<forall>q \<ge> brk m1. ctxs m1 q = None"
    using r(2-4) by (subst ins(3), simp)+
  ultimately have "table_rep (m1, hash1) (A(r \<mapsto> a))" using ins(2) by (simp add: table_rep_def)
  moreover have "table_put (r, a) t = Some (m1, hash1)"
    using ins(1) r(2,3) by (simp add: table_put_def malloc_n_def t)
  ultimately show ?thesis by blast
qed

lemma table_del_law:
  assumes "table_rep t A"
  shows "\<exists>t'. table_del r t = Some t' \<and> table_rep t' (A(r := None))"
proof -
  obtain m hash where t: "t = (m, hash)" by (cases t)
  have r: "ht m hash A" "\<forall>n. malloc_ok m n" "0 < brk m" "\<forall>q \<ge> brk m. ctxs m q = None"
    using assms by (simp_all add: table_rep_def t)
  show ?thesis
  proof (cases "A r")
    case None
    then have "A(r := None) = A" by (simp add: fun_upd_idem)
    with remove_req_context_none [OF r(1) None] assms show ?thesis by (simp add: table_del_def t)
  next
    case (Some a)
    obtain c cx where c: "ctxs m c = Some cx" "rc_request_id cx = r" using htD(4) [OF r(1) Some] by blast
    obtain m1 hash1 where rm: "remove_req_context m hash r = Some (m1, hash1)" "ht m1 hash1 (A(r := None))"
      "m1 = m\<lparr>ctxs := ctxs m1\<rparr>" "dom (ctxs m1) = dom (ctxs m) - {c}"
      by (rule remove_req_context_some [OF r(1) c])
    have "malloc_ok m1 = malloc_ok m" "brk m1 = brk m" by (subst rm(3), simp)+
    moreover have "ctxs m1 q = None" if "brk m \<le> q" for q using rm(4) r(4) that by (auto simp: domIff)
    ultimately have "table_rep (m1, hash1) (A(r := None))" using rm(2) r(2,3) by (simp add: table_rep_def)
    with rm(1) show ?thesis by (simp add: table_del_def t)
  qed
qed

interpretation req_dict: dictionary table_rep table_look table_put table_del
  by unfold_locales (rule table_look_law table_put_law table_del_law; assumption)+

text \<open>
  C18.  The request table is a finite map.  Contexts for new and different request ids, put one
  after the other whatever buckets they fall into, are all found and nothing else changes; deleting
  them again leaves the table as it was.
\<close>

theorem table_finite_map:
  assumes "table_rep t A" "distinct (map fst kvs)" "\<forall>k \<in> fst ` set kvs. A k = None"
  shows "\<exists>t1 t2. fold_opt table_put kvs t = Some t1 \<and> (\<forall>k. table_look k t1 = Some ((A ++ map_of kvs) k)) \<and>
    fold_opt table_del (map fst kvs) t1 = Some t2 \<and> (\<forall>k. table_look k t2 = Some (A k))"
proof -
  obtain t1 t2 where "fold_opt table_put kvs t = Some t1" "\<And>k. table_look k t1 = Some ((A ++ map_of kvs) k)"
    "fold_opt table_del (map fst kvs) t1 = Some t2" "table_rep t2 A"
    using req_dict.put_look_del [OF assms] by blast
  with req_dict.look [of t2 A] show ?thesis by blast
qed

definition example_table :: table where
  "example_table = (\<lparr>brk = 1, calls = 0, malloc_ok = (\<lambda>_. True), nodes = Map.empty, tasks = Map.empty,
     itasks = Map.empty, ctxs = Map.empty, id_arrays = Map.empty\<rparr>, \<lambda>_. NULL)"

theorem table_finite_map_witness:
  "\<exists>t1 t2. fold_opt table_put [(7, \<lparr>ac_worker = 3, ac_pending = 2, ac_cb = 0, ac_data = 0\<rparr>),
        (1031, \<lparr>ac_worker = 4, ac_pending = 1, ac_cb = 0, ac_data = 0\<rparr>)] example_table = Some t1 \<and>
    bucket 7 = bucket 1031 \<and>
    table_look 7 t1 = Some (Some \<lparr>ac_worker = 3, ac_pending = 2, ac_cb = 0, ac_data = 0\<rparr>) \<and>
    table_look 8 t1 = Some None \<and> fold_opt table_del [7, 1031] t1 = Some t2 \<and> table_look 7 t2 = Some None"
proof -
  have "bucket_ok (fst example_table) (snd example_table) h" for h
    by (auto simp: bucket_ok_def example_table_def intro!: exI [of _ "[]"])
  then have "table_rep example_table Map.empty"
    by (auto simp: table_rep_def ht_def example_table_def)
  from table_finite_map [OF this, of "[(7, \<lparr>ac_worker = 3, ac_pending = 2, ac_cb = 0, ac_data = 0\<rparr>),
      (1031, \<lparr>ac_worker = 4, ac_pending = 1, ac_cb = 0, ac_data = 0\<rparr>)]"]
  obtain t1 t2 where t: "fold_opt table_put [(7, \<lparr>ac_worker = 3, ac_pending = 2, ac_cb = 0, ac_data = 0\<rparr>),
      (1031, \<lparr>ac_worker = 4, ac_pending = 1, ac_cb = 0, ac_data = 0\<rparr>)] example_table = Some t1"
    "\<And>k. table_look k t1 = Some ((Map.empty ++ map_of [(7, \<lparr>ac_worker = 3, ac_pending = 2, ac_cb = 0, ac_data = 0\<rparr>),
      (1031, \<lparr>ac_worker = 4, ac_pending = 1, ac_cb = 0, ac_data = 0\<rparr>)]) k)"
    "fold_opt table_del [7, 1031] t1 = Some t2" "\<And>k. table_look k t2 = Some None" by auto
  moreover have "bucket 7 = bucket 1031" by code_simp
  ultimately show ?thesis by (intro exI [of _ t1] exI [of _ t2]) simp
qed

end
