(* ===== verification/QueueContract.thy ===== *)
theory QueueContract
  imports ThreadPool Contracts
begin

text \<open>
  The queue of a worker as a provider of the keyed queue contract: a task is added with the two
  objects a submission allocates for it, taken by its request id and then released as the worker
  does after running it, or cancelled.
\<close>

type_synonym wqueue = "mem \<times> WorkerThread"

text \<open>The queue holds the tasks xs, the heap its objects and no others, and memory is to be had.\<close>

definition queue_rep :: "wqueue \<Rightarrow> atask list \<Rightarrow> bool" where
  "queue_rep s xs \<longleftrightarrow> (\<forall>n. malloc_ok (fst s) n) \<and> length xs < 2 ^ 32 \<and>
     (\<exists>zs. wq (fst s) (snd s) zs \<and> xs = map (cell_atask (fst s)) zs \<and>
        owns (fst s) (cell_node ` set zs) (cell_task ` set zs) (cell_itask ` set zs)
          (dom (ctxs (fst s))) (dom (id_arrays (fst s))))"

definition queue_add :: "atask \<Rightarrow> wqueue \<Rightarrow> wqueue option" where
  "queue_add x s =
     (let (k, m1) = malloc1 (fst s); (t, m2) = malloc1 m1
      in if k = NULL \<or> t = NULL then None
         else do {
           (ok, m3, w) \<leftarrow> worker_queue_push
             (m2\<lparr>itasks := (itasks m2)(k \<mapsto>
                new_itask (at_fn x) (at_arg x) (at_cb x) (at_data x) (at_id x) (at_req x)),
                tasks := (tasks m2)(t \<mapsto> new_task (at_id x) (at_req x) k)\<rparr>) (snd s) t;
           if ok then Some (m3, w) else None
         })"

definition queue_take :: "u32 \<Rightarrow> wqueue \<Rightarrow> (atask option \<times> wqueue) option" where
  "queue_take q s =
     do {
       (t, m, w) \<leftarrow> worker_queue_pop_by_req (fst s) (snd s) q;
       if t = NULL then Some (None, m, w)
       else do {
         tk \<leftarrow> tasks m t;
         it \<leftarrow> itasks m (task_arg tk);
         m1 \<leftarrow> free_itask (task_arg tk) m;
         m2 \<leftarrow> free_task t m1;
         Some (Some (atask_of it), m2, w)
       }
     }"

definition queue_cancel :: "u32 \<Rightarrow> wqueue \<Rightarrow> (nat \<times> wqueue) option" where
  "queue_cancel q s =
     do { (n, m, w) \<leftarrow> cancel_in_worker_queue (fst s) (snd s) q; Some (unat n, m, w) }"

lemma queue_add_law:
  assumes "queue_rep s xs" "length xs < 2 ^ 32 - 1"
  shows "\<exists>s'. queue_add x s = Some s' \<and> queue_rep s' (xs @ [x])"
proof -
  obtain m w where s: "s = (m, w)" by (cases s)
  obtain zs where q: "wq m w zs" "xs = map (cell_atask m) zs" "\<forall>n. malloc_ok m n"
    and o: "owns m (cell_node ` set zs) (cell_task ` set zs) (cell_itask ` set zs) (dom (ctxs m)) (dom (id_arrays m))"
    using assms(1) by (auto simp: queue_rep_def s)
  let ?k = "brk m" and ?t = "brk m + 1"
  let ?it = "new_itask (at_fn x) (at_arg x) (at_cb x) (at_data x) (at_id x) (at_req x)"
  let ?tk = "new_task (at_id x) (at_req x) ?k"
  let ?m2 = "m\<lparr>brk := brk m + 2, calls := calls m + 2, itasks := (itasks m)(?k \<mapsto> ?it), tasks := (tasks m)(?t \<mapsto> ?tk)\<rparr>"
  note f = owns_fresh [OF o] and b = ownsD(8) [OF o]
  have t: "?t \<notin> cell_task ` set zs" using b [OF UnI1 [OF UnI1 [OF UnI1 [OF UnI2]]], of ?t] by auto
  have o2: "owns ?m2 (cell_node ` set zs) (insert ?t (cell_task ` set zs)) (insert ?k (cell_itask ` set zs))
      (dom (ctxs m)) (dom (id_arrays m))"
    using owns_write(2) [OF owns_write(3) [OF owns_bump(1) [OF o, where n = 2 and c = "calls m + 2"], of ?k ?it], of ?t ?tk] f(1) by simp
  have agree: "tasks ?m2 (cell_task z) = tasks m (cell_task z)" "itasks ?m2 (cell_itask z) = itasks m (cell_itask z)"
    "nodes ?m2 (cell_node z) = nodes m (cell_node z)" if "z \<in> set zs" for z
  proof -
    have "cell_task z \<noteq> ?t" "cell_itask z \<noteq> ?k" using that t f(4) by (metis image_eqI)+
    then show "tasks ?m2 (cell_task z) = tasks m (cell_task z)" "itasks ?m2 (cell_itask z) = itasks m (cell_itask z)"
      "nodes ?m2 (cell_node z) = nodes m (cell_node z)" by simp_all
  qed
  have w2: "wq ?m2 w zs" "map (cell_atask ?m2) zs = map (cell_atask m) zs"
    using wq_cong(1) [OF agree(3,1,2), of zs w] wq_cong(2) [OF agree(3,1,2), of zs] q(1) by simp_all
  have tk: "task_ok ?m2 ?t ?k" by (simp add: task_ok_def new_task_def new_itask_def)
  have ok: "malloc_ok ?m2 (calls ?m2)" using q(3) by simp
  obtain m3 w3 where p: "worker_queue_push ?m2 w ?t = Some (True, m3, w3)"
    "wq m3 w3 (zs @ [(brk ?m2, ?t, ?k)])"
    "map (cell_atask m3) (zs @ [(brk ?m2, ?t, ?k)]) = map (cell_atask ?m2) (zs @ [(brk ?m2, ?t, ?k)])"
    "qstep (with_node ?m2 ?t) m3 {} {} {} (cell_node ` set zs)" "same_worker w w3"
    by (rule worker_queue_push_spec [OF w2(1) ok o2 tk _ t f(4)]) simp
  have "owns (with_node ?m2 ?t) (insert (brk ?m2) (cell_node ` set zs)) (insert ?t (cell_task ` set zs))
      (insert ?k (cell_itask ` set zs)) (dom (ctxs m)) (dom (id_arrays m))"
    using owns_write(1) [OF owns_bump(1) [OF o2, where n = 1 and c = "Suc (calls ?m2)"], of "brk ?m2"] f(1) by (simp add: with_node_def)
  from qstep_owns [OF p(4) this] have "owns m3 (cell_node ` set (zs @ [(brk ?m2, ?t, ?k)]))
      (cell_task ` set (zs @ [(brk ?m2, ?t, ?k)])) (cell_itask ` set (zs @ [(brk ?m2, ?t, ?k)]))
      (dom (ctxs m3)) (dom (id_arrays m3))"
    by (simp add: qstep_fields [OF p(4)] with_node_def insert_commute)
  moreover have "cell_atask ?m2 (brk ?m2, ?t, ?k) = x" by (simp add: cell_atask_def atask_of_def new_itask_def)
  ultimately have "queue_rep (m3, w3) (xs @ [x])"
    unfolding queue_rep_def using p(2,3) w2(2) q(2,3) qstep_fields(7) [OF p(4)] assms(2)
    by (intro conjI exI [of _ "zs @ [(brk ?m2, ?t, ?k)]"]) (simp_all add: with_node_def)
  moreover have "queue_add x s = Some (m3, w3)"
    using p(1) q(3) f(1) by (simp add: queue_add_def s malloc_n_def Let_def numeral_2_eq_2)
  ultimately show ?thesis by blast
qed


text \<open>What the laws of the removing operations have in common: the cells that stay.\<close>

lemma queue_rep_rest:
  assumes rep: "queue_rep s xs" and w: "wq (fst s) (snd s) zs"
    and o: "owns (fst s) (cell_node ` set zs) (cell_task ` set zs) (cell_itask ` set zs)
      (dom (ctxs (fst s))) (dom (id_arrays (fst s)))"
    and len: "length ys \<le> length xs" and ys: "set ys = set zs - D" "D \<subseteq> set zs"
    and w1: "wq m1 w1 ys" "map (cell_atask m1) ys = map (cell_atask (fst s)) ys"
    and st: "qstep (fst s) m1 (cell_node ` D) (cell_task ` D) (cell_itask ` D) S"
  shows "queue_rep (m1, w1) (map (cell_atask (fst s)) ys)"
proof -
  have inj: "inj_on cell_node (set zs)" "inj_on cell_task (set zs)" "inj_on cell_itask (set zs)"
    using w wq_distinct_nodes [OF w] by (auto simp: wq_def distinct_map)
  have "f ` set ys = f ` set zs - f ` D" if "inj_on f (set zs)" for f :: "cell \<Rightarrow> ptr"
    using inj_on_image_set_diff [OF that _ ys(2), of "set zs"] ys(1) by simp
  then have eq: "cell_node ` set ys = cell_node ` set zs - cell_node ` D"
    "cell_task ` set ys = cell_task ` set zs - cell_task ` D"
    "cell_itask ` set ys = cell_itask ` set zs - cell_itask ` D" using inj by blast+
  have "owns m1 (cell_node ` set ys) (cell_task ` set ys) (cell_itask ` set ys) (dom (ctxs m1)) (dom (id_arrays m1))"
    using qstep_owns [OF st o] unfolding eq by (simp add: qstep_fields [OF st])
  then show ?thesis
    using rep len w1 qstep_fields(7) [OF st] by (auto simp: queue_rep_def)
qed

lemma queue_repE:
  assumes "queue_rep s xs"
  obtains zs where "wq (fst s) (snd s) zs" "xs = map (cell_atask (fst s)) zs"
    "owns (fst s) (cell_node ` set zs) (cell_task ` set zs) (cell_itask ` set zs)
      (dom (ctxs (fst s))) (dom (id_arrays (fst s)))"
    "NULL \<notin> cell_task ` set zs" "NULL \<notin> cell_itask ` set zs"
proof -
  obtain zs where "wq (fst s) (snd s) zs" "xs = map (cell_atask (fst s)) zs"
    and o: "owns (fst s) (cell_node ` set zs) (cell_task ` set zs) (cell_itask ` set zs)
      (dom (ctxs (fst s))) (dom (id_arrays (fst s)))"
    using assms by (auto simp: queue_rep_def)
  moreover have "NULL \<notin> cell_task ` set zs" "NULL \<notin> cell_itask ` set zs" using o by (auto simp: owns_def)
  ultimately show thesis using that by blast
qed

lemma queue_take_none_law:
  assumes "queue_rep s xs" "q \<notin> at_req ` set xs"
  shows "queue_take q s = Some (None, s)"
proof -
  obtain zs where z: "wq (fst s) (snd s) zs" "xs = map (cell_atask (fst s)) zs"
    by (rule queue_repE [OF assms(1)])
  have "List.extract (\<lambda>z. cell_req (fst s) z = q) zs = None"
    using assms(2) z(2) by (intro extract_NoneI) auto
  from worker_queue_pop_by_req_none [OF z(1) this] show ?thesis by (simp add: queue_take_def)
qed

lemma queue_take_some_law:
  assumes rep: "queue_rep s (xs @ x # ys)" and q: "at_req x = q" "q \<notin> at_req ` set xs"
  shows "\<exists>s'. queue_take q s = Some (Some x, s') \<and> queue_rep s' (xs @ ys)"
proof -
  obtain m w where s: "s = (m, w)" by (cases s)
  obtain zs where z: "wq m w zs" "xs @ x # ys = map (cell_atask m) zs"
    "owns m (cell_node ` set zs) (cell_task ` set zs) (cell_itask ` set zs) (dom (ctxs m)) (dom (id_arrays m))"
    "NULL \<notin> cell_task ` set zs" "NULL \<notin> cell_itask ` set zs"
    using queue_repE [OF rep] by (auto simp: s)
  obtain us c vs where zs: "zs = us @ c # vs" "xs = map (cell_atask m) us" "x = cell_atask m c" "ys = map (cell_atask m) vs"
    using z(2) [symmetric] by (auto simp: map_eq_append_conv map_eq_Cons_conv)
  have ex: "List.extract (\<lambda>z. cell_req m z = q) zs = Some (us, c, vs)"
    unfolding zs(1) by (rule extract_split) (use q zs(2,3) in \<open>metis image_eqI list.set_map\<close>)+
  obtain m1 w1 where p: "worker_queue_pop_by_req m w q = Some (cell_task c, m1, w1)" "wq m1 w1 (us @ vs)"
    "map (cell_atask m1) (us @ vs) = map (cell_atask m) (us @ vs)"
    "qstep m m1 {cell_node c} {} {} (cell_node ` set zs)"
    by (rule worker_queue_pop_by_req_some [OF z(1) ex])
  have dist: "distinct (map cell_task zs)" "distinct (map cell_itask zs)" using z(1) by (simp_all add: wq_def)
  have "cell_ok m (cell_node c, cell_task c, cell_itask c)" using z(1) by (simp add: wq_def zs(1))
  then obtain nd tk it where c: "nodes m (cell_node c) = Some nd" "tn_task nd = cell_task c"
    "tasks m (cell_task c) = Some tk" "task_arg tk = cell_itask c" "itasks m (cell_itask c) = Some it"
    by (rule cell_okD)
  have nn: "cell_task c \<noteq> NULL" "cell_itask c \<noteq> NULL" using z(4,5) by (auto simp: zs(1))
  have c1: "tasks m1 (cell_task c) = Some tk" "itasks m1 (cell_itask c) = Some it"
    using c by (simp_all add: qstep_fields [OF p(4)])
  obtain m2 where f2: "free_itask (cell_itask c) m1 = Some m2" "qstep m1 m2 {} {} {cell_itask c} {}"
    using qstep_free(3) [OF c1(2) nn(2)] by blast
  have "tasks m2 (cell_task c) = Some tk" using c1(1) by (simp add: qstep_fields [OF f2(2)])
  then obtain m3 where f3: "free_task (cell_task c) m2 = Some m3" "qstep m2 m3 {} {cell_task c} {} {}"
    using qstep_free(2) [OF _ nn(1)] by blast
  have st: "qstep m1 m3 {} {cell_task c} {cell_itask c} {}" using qstep_trans [OF f2(2) f3(2)] by simp
  have apart: "cell_task ` set (us @ vs) \<inter> {cell_task c} = {}" "cell_itask ` set (us @ vs) \<inter> {cell_itask c} = {}"
    using dist by (auto simp: zs(1))
  have fr: "wq m3 w1 (us @ vs)" "map (cell_atask m3) (us @ vs) = map (cell_atask m) (us @ vs)"
    using qstep_wq_frame [OF st _ apart] p(2,3) by simp_all
  have "qstep m m3 (cell_node ` {c}) (cell_task ` {c}) (cell_itask ` {c}) (cell_node ` set zs)"
    using qstep_trans [OF p(4) st] by simp
  moreover have "set (us @ vs) = set zs - {c}" using dist(1) by (auto simp: zs(1))
  moreover have "length (us @ vs) \<le> length (xs @ x # ys)" by (simp add: zs(2,4))
  ultimately have "queue_rep (m3, w1) (map (cell_atask m) (us @ vs))"
    using queue_rep_rest [OF rep, of zs "us @ vs" "{c}" m3 w1] z(1,3) fr by (auto simp: s zs(1))
  moreover have "x = atask_of it" using c by (simp add: zs(3) cell_atask_def)
  then have "queue_take q s = Some (Some x, m3, w1)"
    using p(1) c1 c(4) nn f2(1) f3(1) by (simp add: queue_take_def s)
  ultimately show ?thesis by (simp add: zs(2,4))
qed

lemma queue_cancel_law:
  assumes rep: "queue_rep s xs"
  shows "\<exists>s'. queue_cancel q s = Some (length (filter (\<lambda>x. at_req x = q) xs), s') \<and>
    queue_rep s' (filter (\<lambda>x. at_req x \<noteq> q) xs)"
proof -
  obtain m w where s: "s = (m, w)" by (cases s)
  obtain zs where z: "wq m w zs" "xs = map (cell_atask m) zs"
    "owns m (cell_node ` set zs) (cell_task ` set zs) (cell_itask ` set zs) (dom (ctxs m)) (dom (id_arrays m))"
    "NULL \<notin> cell_task ` set zs" "NULL \<notin> cell_itask ` set zs"
    using queue_repE [OF rep] by (auto simp: s)
  let ?ys = "filter (\<lambda>z. cell_req m z \<noteq> q) zs" and ?hit = "filter (\<lambda>z. cell_req m z = q) zs"
  let ?D = "{z \<in> set zs. cell_req m z = q}"
  have xs: "filter (\<lambda>x. at_req x \<noteq> q) xs = map (cell_atask m) ?ys" "length (filter (\<lambda>x. at_req x = q) xs) = length ?hit"
    by (simp_all add: z(2) filter_map comp_def)
  obtain m1 w1 where c: "cancel_in_worker_queue m w q = Some (of_nat (length ?hit), m1, w1)" "wq m1 w1 ?ys"
    "map (cell_atask m1) ?ys = map (cell_atask m) ?ys"
    "qstep m m1 (cell_node ` ?D) (cell_task ` ?D) (cell_itask ` ?D) (cell_node ` set zs)"
    by (rule cancel_in_worker_queue_spec [OF z(1,4,5)])
  have "length ?hit \<le> length xs" by (simp add: z(2))
  also have "length xs < 2 ^ 32" using rep by (simp add: queue_rep_def)
  finally have "unat (of_nat (length ?hit) :: u32) = length ?hit" by (simp add: unat_of_nat take_bit_nat_eq_self)
  then have "queue_cancel q s = Some (length (filter (\<lambda>x. at_req x = q) xs), m1, w1)"
    using c(1) xs(2) by (simp add: queue_cancel_def s)
  moreover have "queue_rep (m1, w1) (map (cell_atask m) ?ys)"
    using queue_rep_rest [OF rep, of zs ?ys ?D m1 w1] z(1,3) c(2-4) by (auto simp: s z(2))
  ultimately show ?thesis unfolding xs(1) by blast
qed

interpretation wq: keyed_fifo queue_rep queue_add "2 ^ 32 - 1" at_req queue_take queue_cancel
  by unfold_locales (rule queue_add_law queue_take_none_law queue_take_some_law queue_cancel_law; assumption)+


text \<open>
  C17.  The queue of a worker keeps the order of submission for each request and cancelling is taking
  them all.  After adding tasks, taking by a request id hands out exactly the tasks of that request
  in the order they came, then nothing; the cancellation of the request from the same queue reports
  that many and leaves the same tasks, those of the other requests in their order.
\<close>

theorem queue_keyed_order:
  assumes "queue_rep s xs" "length xs + length ys \<le> 2 ^ 32 - 1"
  shows "\<exists>s1 s2 s3. fold_opt queue_add ys s = Some s1 \<and>
    take_times (queue_take q) (length (filter (\<lambda>x. at_req x = q) (xs @ ys))) s1
      = Some (map Some (filter (\<lambda>x. at_req x = q) (xs @ ys)), s2) \<and>
    queue_rep s2 (filter (\<lambda>x. at_req x \<noteq> q) (xs @ ys)) \<and> queue_take q s2 = Some (None, s2) \<and>
    queue_cancel q s1 = Some (length (filter (\<lambda>x. at_req x = q) (xs @ ys)), s3) \<and>
    queue_rep s3 (filter (\<lambda>x. at_req x \<noteq> q) (xs @ ys))"
  by (rule wq.keyed_order [OF assms, of q]) blast

definition example_queue :: wqueue where
  "example_queue = (\<lparr>brk = 1, calls = 0, malloc_ok = (\<lambda>_. True), nodes = Map.empty, tasks = Map.empty,
     itasks = Map.empty, ctxs = Map.empty, id_arrays = Map.empty\<rparr>,
     \<lparr>tid = 1, state = WORKER_STATE_IDLE, worker_idx = 0, queue_head = NULL, queue_tail = NULL,
      queue_size = 0, pending_req = 0\<rparr>)"

definition queue_task :: "u64 \<Rightarrow> u32 \<Rightarrow> atask" where
  "queue_task i q = \<lparr>at_id = i, at_req = q, at_fn = user_fn 1, at_arg = 0, at_cb = 0, at_data = 0\<rparr>"

theorem queue_keyed_order_witness:
  "\<exists>s1 s2 s3. fold_opt queue_add [queue_task 1 5, queue_task 2 6, queue_task 3 5] example_queue = Some s1 \<and>
    take_times (queue_take 5) 2 s1 = Some ([Some (queue_task 1 5), Some (queue_task 3 5)], s2) \<and>
    queue_rep s2 [queue_task 2 6] \<and> queue_cancel 5 s1 = Some (2, s3) \<and> queue_rep s3 [queue_task 2 6]"
proof -
  have "queue_rep example_queue []"
    by (auto simp: queue_rep_def example_queue_def wq_def wq_shape_def owns_def)
  moreover have "length ([] :: atask list) + length [queue_task 1 5, queue_task 2 6, queue_task 3 5] \<le> 2 ^ 32 - 1"
    by simp
  moreover have "filter (\<lambda>x. at_req x = 5) ([] @ [queue_task 1 5, queue_task 2 6, queue_task 3 5])
      = [queue_task 1 5, queue_task 3 5]"
    "filter (\<lambda>x. at_req x \<noteq> 5) ([] @ [queue_task 1 5, queue_task 2 6, queue_task 3 5]) = [queue_task 2 6]"
    by (simp_all add: queue_task_def)
  ultimately show ?thesis
    using queue_keyed_order [of example_queue "[]" "[queue_task 1 5, queue_task 2 6, queue_task 3 5]" 5]
    by (auto simp: numeral_2_eq_2)
qed

end
