(* ===== verification/MockQueue.thy ===== *)
theory MockQueue
  imports Contracts
begin

text \<open>
  The queue of events of the test build (\<open>TEST_MODE\<close> in \<open>src/os_transport_thread_pool.c\<close>): a ring
  buffer in an allocated array of 64-bit words that doubles when it is full.  The four counters keep
  their 32 bits.  Reading a word that was never written, an index outside the array, a division by a
  capacity of 0 and a use of the pointer a failed \<open>malloc\<close> returned are undefined, that is \<open>None\<close>.
  The ring is interpreted as a first-in-first-out queue of at most 2147483648 events.
\<close>

section \<open>State\<close>

text \<open>The heap holds arrays of words; a word is \<open>None\<close> until it is written.\<close>

record event_heap = allocator +
  arrays :: "ptr \<rightharpoonup> u64 option list"

record MockEventQueue =
  events :: ptr
  cap :: u32
  head :: u32
  tail :: u32
  size :: u32

definition load :: "event_heap \<Rightarrow> ptr \<Rightarrow> u32 \<Rightarrow> u64 option" where
  "load m p i =
     do { ws \<leftarrow> arrays m p; if unat i < length ws then ws ! unat i else None }"

definition store :: "ptr \<Rightarrow> u32 \<Rightarrow> u64 \<Rightarrow> event_heap \<Rightarrow> event_heap option" where
  "store p i v m =
     do {
       ws \<leftarrow> arrays m p;
       if unat i < length ws then Some (m\<lparr>arrays := (arrays m)(p \<mapsto> ws[unat i := Some v])\<rparr>) else None
     }"

definition malloc_words :: "u32 \<Rightarrow> event_heap \<Rightarrow> ptr \<times> event_heap" where
  "malloc_words n m =
     (let (p, m1) = malloc_n (unat n) m
      in (p, if p = NULL then m1 else m1\<lparr>arrays := (arrays m1)(p \<mapsto> replicate (unat n) None)\<rparr>))"

definition free_words :: "ptr \<Rightarrow> event_heap \<Rightarrow> event_heap option" where
  "free_words p m =
     (if p = NULL then Some m
      else do { _ \<leftarrow> arrays m p; Some (m\<lparr>arrays := (arrays m)(p := None)\<rparr>) })"

definition rem_cap :: "u32 \<Rightarrow> u32 \<Rightarrow> u32 option" where
  "rem_cap i c = (if c = 0 then None else Some (i mod c))"

section \<open>The operations\<close>

definition mock_event_queue_init :: "u32 \<Rightarrow> event_heap \<Rightarrow> event_heap \<times> MockEventQueue" where
  "mock_event_queue_init c m =
     (let (p, m1) = malloc_words c m
      in (m1, \<lparr>events = p, cap = c, head = 0, tail = 0, size = 0\<rparr>))"

function copy_loop :: "MockEventQueue \<Rightarrow> ptr \<Rightarrow> u32 \<Rightarrow> event_heap \<Rightarrow> event_heap option" where
  "copy_loop q new_events i m =
     (if i < size q
      then do {
        j \<leftarrow> rem_cap (head q + i) (cap q);
        v \<leftarrow> load m (events q) j;
        m1 \<leftarrow> store new_events i v m;
        copy_loop q new_events (i + 1) m1
      }
      else Some m)"
  by pat_completeness auto

lemma unat_suc_less: "(i :: u32) < n \<Longrightarrow> unat (i + 1) = Suc (unat i)"
  using unsigned_less [where 'a = nat, of n] by (simp add: unat_word_ariths(1) word_less_nat_alt)

termination copy_loop
  by (relation "measure (\<lambda>(q, new, i, m). unat (size q) - unat i)")
    (auto simp: unat_suc_less word_less_nat_alt)

declare copy_loop.simps [simp del]

definition grow :: "event_heap \<times> MockEventQueue \<Rightarrow> (event_heap \<times> MockEventQueue) option" where
  "grow s =
     (let (m, q) = s; new_cap = cap q * 2; (new_events, m1) = malloc_words new_cap m
      in do {
        m2 \<leftarrow> copy_loop q new_events 0 m1;
        m3 \<leftarrow> free_words (events q) m2;
        Some (m3, q\<lparr>events := new_events, cap := new_cap, head := 0, tail := size q\<rparr>)
      })"

definition mock_event_queue_push ::
    "u64 \<Rightarrow> event_heap \<times> MockEventQueue \<Rightarrow> (event_heap \<times> MockEventQueue) option" where
  "mock_event_queue_push req_id s =
     do {
       (m, q) \<leftarrow> (if cap (snd s) \<le> size (snd s) then grow s else Some s);
       m1 \<leftarrow> store (events q) (tail q) req_id m;
       t \<leftarrow> rem_cap (tail q + 1) (cap q);
       Some (m1, q\<lparr>tail := t, size := size q + 1\<rparr>)
     }"

text \<open>The value handed out through the pointer, \<open>None\<close> when the function returns 0.\<close>

definition mock_event_queue_pop ::
    "event_heap \<times> MockEventQueue \<Rightarrow> (u64 option \<times> event_heap \<times> MockEventQueue) option" where
  "mock_event_queue_pop s =
     (let (m, q) = s in
      if size q = 0 then Some (None, s)
      else do {
        v \<leftarrow> load m (events q) (head q);
        h \<leftarrow> rem_cap (head q + 1) (cap q);
        Some (Some v, m, q\<lparr>head := h, size := size q - 1\<rparr>)
      })"

definition mock_event_queue_destroy :: "event_heap \<times> MockEventQueue \<Rightarrow> event_heap option" where
  "mock_event_queue_destroy s = free_words (events (snd s)) (fst s)"

section \<open>The ring holds a list\<close>

definition ring :: "event_heap \<times> MockEventQueue \<Rightarrow> u64 list \<Rightarrow> bool" where
  "ring s xs \<longleftrightarrow>
     (let (m, q) = s; c = unat (cap q) in
      (\<forall>n. malloc_ok m n) \<and> 0 < brk m \<and> 0 < events q \<and> events q < brk m \<and> dom (arrays m) = {events q} \<and>
      0 < c \<and> unat (head q) < c \<and> length xs \<le> c \<and> unat (size q) = length xs \<and>
      unat (tail q) = (unat (head q) + length xs) mod c \<and>
      (\<exists>ws. arrays m (events q) = Some ws \<and> length ws = c \<and>
         (\<forall>i < length xs. ws ! ((unat (head q) + i) mod c) = Some (xs ! i))))"

lemma rem_cap_nat:
  assumes "0 < unat c"
  shows "rem_cap i c = Some (i mod c)" "unat (i mod c) = unat i mod unat c"
  using assms by (auto simp: rem_cap_def unat_mod_distrib)

lemma unat_plus1_mod:
  assumes "unat (i :: u32) < unat c" shows "unat ((i + 1) mod c) = Suc (unat i) mod unat c"
proof -
  have "i < c" using assms by (simp add: word_less_nat_alt)
  then show ?thesis using unat_suc_less by (simp add: unat_mod_distrib)
qed

text \<open>A position of the ring, and that two different ones differ.\<close>

lemma ring_pos: "h < c \<Longrightarrow> i < c \<Longrightarrow> (h + i) mod c = (if h + i < c then h + i else h + i - c)" for c :: nat
  by (simp add: mod_if)

lemma ring_pos_inj: "h < c \<Longrightarrow> i < c \<Longrightarrow> j < c \<Longrightarrow> (h + i) mod c = (h + j) mod c \<longleftrightarrow> i = (j :: nat)"
  by (simp add: ring_pos) linarith

lemma copy_loop_spec:
  assumes "arrays m (events q) = Some ws" "arrays m new = Some ds" "events q \<noteq> new"
    and "length ws = unat (cap q)" "0 < unat (cap q)"
    and "unat (head q) + length xs < 2 ^ 32" "unat (size q) = length xs" "length xs \<le> length ds"
    and "\<And>i. i < length xs \<Longrightarrow> ws ! ((unat (head q) + i) mod unat (cap q)) = Some (xs ! i)"
    and "unat i \<le> length xs"
  shows "copy_loop q new i m =
    Some (m\<lparr>arrays := (arrays m)(new \<mapsto> take (unat i) ds @ map Some (drop (unat i) xs) @ drop (length xs) ds)\<rparr>)"
  using assms
proof (induction q new i m arbitrary: ds rule: copy_loop.induct)
  case (1 q new i m)
  show ?case
  proof (cases "i < size q")
    case False
    then have "unat i = length xs" using "1.prems"(7,10) by (simp add: word_less_nat_alt)
    with False "1.prems"(2) show ?thesis by (simp add: copy_loop.simps [of q new i m] fun_upd_idem)
  next
    case True
    then have i: "unat i < length xs" using "1.prems"(7) by (simp add: word_less_nat_alt)
    let ?m1 = "m\<lparr>arrays := (arrays m)(new \<mapsto> ds[unat i := Some (xs ! unat i)])\<rparr>"
    have "unat (head q + i) = unat (head q) + unat i" using i "1.prems"(6) by (simp add: unat_word_ariths(1))
    then have j: "rem_cap (head q + i) (cap q) = Some ((head q + i) mod cap q)"
      "unat ((head q + i) mod cap q) = (unat (head q) + unat i) mod unat (cap q)"
      using rem_cap_nat [OF "1.prems"(5)] by simp_all
    have l: "load m (events q) ((head q + i) mod cap q) = Some (xs ! unat i)"
      using "1.prems"(1,4,5,9) i j(2) by (simp add: load_def)
    have st: "store new i (xs ! unat i) m = Some ?m1" using "1.prems"(2,8) i by (simp add: store_def)
    have s: "unat (i + 1) = Suc (unat i)" by (rule unat_suc_less [OF True])
    have "copy_loop q new (i + 1) ?m1 = Some (?m1\<lparr>arrays := (arrays ?m1)(new \<mapsto>
        take (unat (i + 1)) (ds[unat i := Some (xs ! unat i)]) @ map Some (drop (unat (i + 1)) xs)
          @ drop (length xs) (ds[unat i := Some (xs ! unat i)]))\<rparr>)"
      by (rule "1.IH" [OF True j(1) l st]) (use "1.prems" i s in simp_all)
    moreover have "take (Suc (unat i)) (ds[unat i := Some (xs ! unat i)]) @ map Some (drop (Suc (unat i)) xs) @ zs
        = take (unat i) ds @ map Some (drop (unat i) xs) @ zs" for zs
      using i "1.prems"(8) by (simp add: take_Suc_conv_app_nth Cons_nth_drop_Suc [symmetric])
    ultimately show ?thesis
      using True j(1) l st s i
      by (simp add: copy_loop.simps [of q new i m] drop_update_cancel fun_upd_def cong: if_cong)
  qed
qed

text \<open>A full ring below half of the counters' range doubles: the same list, and room for more.\<close>

lemma grow_spec:
  assumes r: "ring s xs" and full: "cap (snd s) \<le> size (snd s)" and small: "length xs < 2 ^ 31"
  shows "\<exists>s'. grow s = Some s' \<and> ring s' xs \<and> unat (cap (snd s')) = 2 * length xs"
proof -
  obtain m q where s: "s = (m, q)" by (cases s)
  obtain ws where w: "arrays m (events q) = Some ws" "length ws = unat (cap q)"
    "\<And>i. i < length xs \<Longrightarrow> ws ! ((unat (head q) + i) mod unat (cap q)) = Some (xs ! i)"
    and f: "\<forall>n. malloc_ok m n" "0 < brk m" "0 < events q" "events q < brk m" "dom (arrays m) = {events q}"
      "0 < unat (cap q)" "unat (head q) < unat (cap q)" "length xs \<le> unat (cap q)" "unat (size q) = length xs"
    using r by (auto simp: ring_def s Let_def)
  have c: "unat (cap q) = length xs" using full f(8,9) by (simp add: s word_le_nat_alt)
  then have nc: "unat (cap q * 2) = 2 * length xs" using small by (simp add: unat_word_ariths(2))
  let ?new = "brk m" and ?n = "2 * length xs"
  let ?m1 = "m\<lparr>brk := brk m + max 1 ?n, calls := Suc (calls m), arrays := (arrays m)(?new \<mapsto> replicate ?n None)\<rparr>"
  have mw: "malloc_words (cap q * 2) m = (?new, ?m1)"
    using f(1,2) by (simp add: malloc_words_def malloc_n_def nc)
  have cp: "copy_loop q ?new 0 ?m1 = Some (?m1\<lparr>arrays := (arrays ?m1)(?new \<mapsto>
      take (unat (0 :: u32)) (replicate ?n None) @ map Some (drop (unat (0 :: u32)) xs) @ drop (length xs) (replicate ?n None))\<rparr>)"
    by (rule copy_loop_spec) (use w f c small in auto)
  let ?ws = "map Some xs @ replicate (length xs) None"
  have "grow s = Some (?m1\<lparr>arrays := [?new \<mapsto> ?ws]\<rparr>,
      q\<lparr>events := ?new, cap := cap q * 2, head := 0, tail := size q\<rparr>)" (is "_ = Some ?s")
  proof -
    have "(arrays m)(?new \<mapsto> v, events q := None) = [?new \<mapsto> v]" for v
      using f(4,5) by (intro ext) (auto simp: dom_def)
    then show ?thesis using mw cp f(3,4) w(1) by (simp add: grow_def s free_words_def)
  qed
  moreover have "ring ?s xs"
    using f c nc by (auto simp: ring_def Let_def nth_append)
  ultimately show ?thesis using nc by auto
qed

lemma push_room:
  assumes r: "ring s xs" and room: "length xs < unat (cap (snd s))"
  shows "\<exists>s'. mock_event_queue_push x s = Some s' \<and> ring s' (xs @ [x])"
proof -
  obtain m q where s: "s = (m, q)" by (cases s)
  obtain ws where w: "arrays m (events q) = Some ws" "length ws = unat (cap q)"
    "\<And>i. i < length xs \<Longrightarrow> ws ! ((unat (head q) + i) mod unat (cap q)) = Some (xs ! i)"
    and f: "\<forall>n. malloc_ok m n" "0 < brk m" "0 < events q" "events q < brk m" "dom (arrays m) = {events q}"
      "0 < unat (cap q)" "unat (head q) < unat (cap q)" "unat (size q) = length xs"
      "unat (tail q) = (unat (head q) + length xs) mod unat (cap q)"
    using r by (auto simp: ring_def s Let_def)
  have tl: "unat (tail q) < unat (cap q)" using f(6,9) by simp
  let ?ws = "ws[unat (tail q) := Some x]"
  let ?s = "(m\<lparr>arrays := (arrays m)(events q \<mapsto> ?ws)\<rparr>, q\<lparr>tail := (tail q + 1) mod cap q, size := size q + 1\<rparr>)"
  have "\<not> cap q \<le> size q" using room f(8) by (simp add: s word_le_nat_alt)
  then have "mock_event_queue_push x s = Some ?s"
    using w tl rem_cap_nat(1) [OF f(6)] by (simp add: mock_event_queue_push_def s store_def)
  moreover have "ring ?s (xs @ [x])"
  proof -
    have sz: "unat (size q + 1) = Suc (length xs)"
      using unat_suc_less [of "size q" "cap q"] room f(8) by (simp add: s word_less_nat_alt)
    have t: "unat ((tail q + 1) mod cap q) = (unat (head q) + length (xs @ [x])) mod unat (cap q)"
      using unat_plus1_mod [OF tl] f(9) by (simp add: mod_Suc_eq)
    have ws: "?ws ! ((unat (head q) + i) mod unat (cap q)) = Some ((xs @ [x]) ! i)" if "i < length (xs @ [x])" for i
    proof (cases "i = length xs")
      case True
      then show ?thesis using f(9) tl w(2) by simp
    next
      case False
      with that have i: "i < length xs" by simp
      with room s have "(unat (head q) + i) mod unat (cap q) \<noteq> unat (tail q)"
        using ring_pos_inj [OF f(7), of i "length xs"] f(9) by simp
      then show ?thesis using w(3) [OF i] i by (simp add: nth_append)
    qed
    show ?thesis
      unfolding ring_def Let_def
      using f(1-7) sz t room w(2) ws by (auto simp: s)
  qed
  ultimately show ?thesis by blast
qed

lemma push_law:
  assumes "ring s xs" "length xs < 2 ^ 31"
  shows "\<exists>s'. mock_event_queue_push x s = Some s' \<and> ring s' (xs @ [x])"
proof (cases "cap (snd s) \<le> size (snd s)")
  case False
  then have "length xs < unat (cap (snd s))"
    using assms(1) by (auto simp: ring_def Let_def word_le_nat_alt split: prod.splits)
  with push_room assms(1) show ?thesis by blast
next
  case True
  obtain s1 where g: "grow s = Some s1" "ring s1 xs" "unat (cap (snd s1)) = 2 * length xs"
    using grow_spec [OF assms(1) True assms(2)] by blast
  have ne: "0 < unat (cap (snd s1))" using g(2) by (auto simp: ring_def Let_def split: prod.splits)
  then have "length xs < unat (cap (snd s1))" using g(3) by simp
  moreover from this g(2) have "\<not> cap (snd s1) \<le> size (snd s1)"
    by (auto simp: ring_def Let_def word_le_nat_alt split: prod.splits)
  then have "mock_event_queue_push x s = mock_event_queue_push x s1"
    using True g(1) by (simp add: mock_event_queue_push_def)
  ultimately show ?thesis using push_room [OF g(2)] by simp
qed

lemma pop_empty_law: "ring s [] \<Longrightarrow> mock_event_queue_pop s = Some (None, s)"
  by (auto simp: ring_def mock_event_queue_pop_def Let_def unsigned_eq_0_iff split: prod.splits)

lemma pop_law:
  assumes r: "ring s (x # xs)"
  shows "\<exists>s'. mock_event_queue_pop s = Some (Some x, s') \<and> ring s' xs"
proof -
  obtain m q where s: "s = (m, q)" by (cases s)
  obtain ws where w: "arrays m (events q) = Some ws" "length ws = unat (cap q)"
    "\<And>i. i < length (x # xs) \<Longrightarrow> ws ! ((unat (head q) + i) mod unat (cap q)) = Some ((x # xs) ! i)"
    and f: "\<forall>n. malloc_ok m n" "0 < brk m" "0 < events q" "events q < brk m" "dom (arrays m) = {events q}"
      "0 < unat (cap q)" "unat (head q) < unat (cap q)" "Suc (length xs) \<le> unat (cap q)" "unat (size q) = Suc (length xs)"
      "unat (tail q) = (unat (head q) + Suc (length xs)) mod unat (cap q)"
    using r unfolding ring_def s Let_def by auto
  have h: "unat ((head q + 1) mod cap q) = Suc (unat (head q)) mod unat (cap q)" by (rule unat_plus1_mod [OF f(7)])
  have "size q \<noteq> 0" using f(9) by auto
  then have sz: "unat (size q - 1) = length xs" using f(9) by (simp add: unat_minus_one)
  let ?s = "(m, q\<lparr>head := (head q + 1) mod cap q, size := size q - 1\<rparr>)"
  have "mock_event_queue_pop s = Some (Some x, ?s)"
    using \<open>size q \<noteq> 0\<close> w(1,2) w(3) [of 0] f(7) rem_cap_nat(1) [OF f(6)]
    by (simp add: mock_event_queue_pop_def s load_def)
  moreover have "ring ?s xs"
  proof -
    have "ws ! ((Suc (unat (head q)) mod unat (cap q) + i) mod unat (cap q)) = Some (xs ! i)" if "i < length xs" for i
      using w(3) [of "Suc i"] that by (simp add: mod_add_left_eq)
    then show ?thesis
      unfolding ring_def Let_def using f sz h w(1,2) by (simp add: mod_add_left_eq)
  qed
  ultimately show ?thesis by blast
qed

interpretation mq: fifo ring mock_event_queue_push "2 ^ 31" mock_event_queue_pop
  by unfold_locales (rule push_law pop_empty_law pop_law; assumption)+

section \<open>Properties\<close>

lemma init_ring:
  assumes "\<forall>n. malloc_ok m n" "0 < brk m" "arrays m = Map.empty" "0 < c"
  shows "ring (mock_event_queue_init c m) []"
  using assms by (auto simp: mock_event_queue_init_def malloc_words_def malloc_n_def ring_def word_less_nat_alt)

lemma destroy_ring:
  assumes "ring s xs" shows "\<exists>m'. mock_event_queue_destroy s = Some m' \<and> arrays m' = Map.empty"
  using assms by (auto simp: ring_def mock_event_queue_destroy_def free_words_def Let_def dom_def fun_eq_iff split: prod.splits)

text \<open>
  C33.  The event queue of the test build is a first-in-first-out queue.  From its initialisation with
  a capacity above 0, any interleaving of at most 2147483648 pushes and pops hands out what a list
  would, across the wrap-around of the ring and across its growth, and destroying it then leaves no
  array behind.
\<close>

theorem mock_queue_fifo:
  assumes "\<forall>n. malloc_ok m n" "0 < brk m" "arrays m = Map.empty" "0 < c" "length ops \<le> 2 ^ 31"
  shows "\<exists>s m'. queue_ops mock_event_queue_push mock_event_queue_pop ops (mock_event_queue_init c m)
      = Some (fst (list_ops ops []), s) \<and>
    mock_event_queue_destroy s = Some m' \<and> arrays m' = Map.empty"
proof -
  have "length ([] :: u64 list) + length ops \<le> 2 ^ 31" using assms(5) by simp
  from mq.ops_spec [OF init_ring [OF assms(1-4)] this] destroy_ring show ?thesis by blast
qed

definition example_events :: "(nat \<Rightarrow> bool) \<Rightarrow> event_heap" where
  "example_events ok = \<lparr>brk = 1, calls = 0, malloc_ok = ok, arrays = Map.empty\<rparr>"

theorem mock_queue_fifo_witness:
  "\<exists>s m'. queue_ops mock_event_queue_push mock_event_queue_pop
      [Add 7, Add 8, Take, Add 9, Add 10, Take, Take, Take, Take] (mock_event_queue_init 1 (example_events (\<lambda>_. True)))
      = Some ([Some 7, Some 8, Some 9, Some 10, None], s) \<and> mock_event_queue_destroy s = Some m' \<and> arrays m' = Map.empty"
  using mock_queue_fifo [of "example_events (\<lambda>_. True)" 1 "[Add 7, Add 8, Take, Add 9, Add 10, Take, Take, Take, Take]"]
  by (simp add: example_events_def)

lemma copy_loop_stuck:
  assumes "0 < size q" "\<And>v. store new 0 v m = None" shows "copy_loop q new 0 m = None"
  using assms by (simp add: copy_loop.simps [of q new 0 m] bind_eq_None_conv)

lemma push_cap_0:
  assumes "cap (snd s) = 0" shows "mock_event_queue_push x s = None"
proof -
  have "cap (snd s') = 0" if "grow s = Some s'" for s'
    using that assms by (auto simp: grow_def split_def Let_def bind_eq_Some_conv)
  with assms show ?thesis
    by (cases "grow s") (auto simp: mock_event_queue_push_def rem_cap_def bind_eq_None_conv split_def)
qed

text \<open>
  C37.  What the growth of the event queue does not check.  A push onto a full queue is undefined when
  the allocation of the larger array fails, since the copy writes through the null pointer, and when
  the capacity is 2147483648, since its double wraps to 0 and the copy writes past an empty array; and
  a queue initialised with capacity 0 can take no event at all.
\<close>

theorem mock_queue_overflow:
  assumes "cap q \<le> size q" "0 < size q" "arrays m NULL = None"
    "\<not> malloc_ok m (calls m) \<or> cap q = 2147483648"
  shows "mock_event_queue_push x (m, q) = None \<and> mock_event_queue_push x (mock_event_queue_init 0 m0) = None"
proof
  obtain p m1 where p: "malloc_words (cap q * 2) m = (p, m1)" by (cases "malloc_words (cap q * 2) m")
  have "store p 0 v m1 = None" for v
    using p assms(3,4) by (auto simp: malloc_words_def malloc_n_def store_def bind_eq_None_conv split: if_splits)
  from copy_loop_stuck [OF assms(2) this] p assms(1)
  show "mock_event_queue_push x (m, q) = None" by (simp add: mock_event_queue_push_def grow_def)
  show "mock_event_queue_push x (mock_event_queue_init 0 m0) = None"
    by (rule push_cap_0) (simp add: mock_event_queue_init_def split_def Let_def)
qed

theorem mock_queue_overflow_witness:
  "mock_event_queue_push 8 (\<lparr>brk = 2, calls = 1, malloc_ok = (\<lambda>n. n < 1), arrays = [1 \<mapsto> [Some 7]]\<rparr>,
     \<lparr>events = 1, cap = 1, head = 0, tail = 0, size = 1\<rparr>) = None"
  by (rule mock_queue_overflow [THEN conjunct1]) simp_all

end
