(* ===== verification/PoolBehaviour.thy ===== *)
theory PoolBehaviour
  imports PoolProps
begin

text \<open>
  What single operations of a pool do after any run from its initialisation, where submissions go,
  what a cancellation removes, which task a turn runs, and what the pool does
  not do: run a request nobody wakes, remember two wake-ups, reach the tasks of a request on a
  worker other than the one its context names.
\<close>

section \<open>Workers are idle between the steps of a run\<close>

definition idle_all :: "apool \<Rightarrow> bool" where
  "idle_all a \<longleftrightarrow> \<not> a_destroying a \<and> a_states a = replicate NUM_WORKERS WORKER_STATE_IDLE"

lemma idle_allD:
  assumes "idle_all a"
  shows "\<not> a_destroying a" "i < NUM_WORKERS \<Longrightarrow> a_states a ! i = WORKER_STATE_IDLE"
    "length (a_states a) = NUM_WORKERS"
  using assms by (simp_all add: idle_all_def)

lemma idle_all_cong:
  "a_states a' = a_states a \<Longrightarrow> a_destroying a' = a_destroying a \<Longrightarrow> idle_all a' = idle_all a"
  by (simp add: idle_all_def)

lemma idle_same_rest: "same_rest a a' \<Longrightarrow> idle_all a' = idle_all a"
  by (rule idle_all_cong) (simp_all add: same_rest_def)

lemma idle_turn:
  assumes "idle_all a" "a_turn env i (a, s) = Some (a', s')" "i < NUM_WORKERS"
  shows "idle_all a'"
proof -
  have "(a_states a)[i := WORKER_STATE_IDLE] = a_states a"
    using list_update_id [of "a_states a" i] idle_allD(2) [OF assms(1,3)] by simp
  with assms have "a_states a' = a_states a \<and> a_destroying a' = a_destroying a"
    by (auto simp: idle_all_def a_turn_def a_finish_def a_set_pending_def Let_def
      split: if_splits option.splits Option.bind_splits)
  with assms(1) show ?thesis by (simp add: idle_all_def)
qed

lemma idle_do:
  assumes "idle_all a" "a_do env l (a, s) = Some (v, a', s')" shows "idle_all a'"
proof (cases l)
  case (Submit q func arg cb data)
  then obtain u where "a_submit q func arg cb data a = Some (u, a')" using assms(2) by auto
  then show ?thesis by (cases rule: a_submit_cases) (simp_all add: idle_same_rest assms(1))
next
  case (Batch ts cb data bcb bdata)
  then obtain u where "a_batch ts cb data bcb bdata a = (u, a')"
    using assms(2) by (auto simp: Let_def split: prod.splits)
  then show ?thesis by (cases rule: a_batch_cases) (simp_all add: idle_same_rest assms(1))
next
  case (Turn i)
  with assms idle_turn [OF assms(1), of env i s a' s'] show ?thesis by (auto split: if_splits)
qed (use assms idle_all_cong [of a' a] in
  \<open>auto simp: a_wake_def a_cancel_def a_start_def a_set_pending_def Let_def split: option.splits if_splits\<close>)

interpretation pool_idle: invariant_simulation "pool_do env" "a_do env" state_rel "\<lambda>as. idle_all (fst as)" for env
proof
  fix l as as' v and env :: "'w env"
  assume "idle_all (fst as)" "a_do env l as = Some (v, as')"
  then show "idle_all (fst as')" using idle_do [of "fst as" env l "snd as" v "fst as'" "snd as'"] by simp
qed

lemma idle_fresh: "idle_all (a_fresh pc {..<NUM_WORKERS} m)"
proof -
  have "map (\<lambda>i. if i < NUM_WORKERS then WORKER_STATE_IDLE else WORKER_STATE_INIT) [0..<NUM_WORKERS]
      = replicate NUM_WORKERS WORKER_STATE_IDLE" by (rule nth_equalityI) simp_all
  then show ?thesis by (simp add: idle_all_def a_fresh_def)
qed

lemma tasks_run:
  assumes "count_inv a" "n_tasks a + sum_list (map weight ls) < 2 ^ 32"
    "run (a_do env) ls (a, s) = Some (vs, a', s')"
  shows "n_tasks a' \<le> n_tasks a + sum_list (map weight ls)"
  using assms
proof (induction ls arbitrary: a s vs)
  case (Cons l ls)
  then obtain v a1 s1 us where 1: "a_do env l (a, s) = Some (v, a1, s1)"
    "run (a_do env) ls (a1, s1) = Some (us, a', s')"
    by (auto split: Option.bind_splits)
  with count_do [OF Cons.prems(1) _ 1(1)] Cons.prems(2) have c: "count_inv a1"
    "n_tasks a1 \<le> n_tasks a + weight l" by auto
  with Cons.IH [OF c(1) _ 1(2)] Cons.prems(2) show ?case by simp
qed simp

text \<open>A run from the initialisation of a pool, with all that its invariants say of the end.\<close>

lemma good_run:
  assumes "no_objects m" "\<And>n. malloc_ok m n" "threads_start pc"
    "thread_pool_init env pc True m s = Some (Inr p, s0)"
    "run (pool_do env) ls (p, s0) = Some (vs, p', s')" "sum_list (map weight ls) < 2 ^ 32"
  obtains a where "run (a_do env) ls (a_fresh pc {..<NUM_WORKERS} m, s) = Some (vs, a, s')"
    "pool_rel p' a" "idle_all a" "count_inv a" "n_tasks a \<le> sum_list (map weight ls)"
proof -
  obtain a where a: "run (a_do env) ls (a_fresh pc {..<NUM_WORKERS} m, s) = Some (vs, a, s')" "pool_rel p' a"
    by (rule run_from_init [OF assms(1,3-5)])
  have "idle_all a" using pool_idle.abstract_run_inv [OF _ a(1)] idle_fresh by simp
  moreover have "count_inv a" by (rule count_run [OF count_inv_fresh [OF assms(1,2)] _ a(1)])
    (use assms(6) in \<open>simp add: n_tasks_fresh\<close>)
  moreover have "n_tasks a \<le> sum_list (map weight ls)"
    using tasks_run [OF count_inv_fresh [OF assms(1,2)] _ a(1)] assms(6) by (simp add: n_tasks_fresh)
  ultimately show thesis using that [OF a] by blast
qed

section \<open>Where a submission goes\<close>

definition free_worker :: "apool \<Rightarrow> nat option" where
  "free_worker a = List.find (\<lambda>i. a_queues a ! i = []) [0..<NUM_WORKERS]"

lemma queue_le_n_tasks: "i < length (a_queues a) \<Longrightarrow> length (a_queues a ! i) \<le> n_tasks a"
  using length_concat_update [of i "a_queues a" "[]"] by (simp add: n_tasks_def)

lemma select_free:
  assumes "idle_all a" "n_tasks a < 2 ^ 32" "length (a_queues a) = NUM_WORKERS"
  shows "a_select a = free_worker a"
proof -
  have "(a_states a ! i = WORKER_STATE_IDLE \<and> (of_nat (length (a_queues a ! i)) :: u32) = 0) = (a_queues a ! i = [])"
    if "i < NUM_WORKERS" for i
  proof -
    have "length (a_queues a ! i) < 2 ^ 32" using queue_le_n_tasks [of i a] assms(2,3) that by simp
    then have "unat (of_nat (length (a_queues a ! i)) :: u32) = length (a_queues a ! i)"
      by (simp add: unat_of_nat take_bit_nat_eq_self)
    then have "(of_nat (length (a_queues a ! i)) :: u32) = 0 \<longleftrightarrow> length (a_queues a ! i) = 0"
      unfolding unsigned_eq_0_iff [where 'a = nat, symmetric] by (simp only:)
    with idle_allD(2) [OF assms(1) that] show ?thesis by simp
  qed
  then show ?thesis unfolding a_select_def free_worker_def by (intro find_cong) auto
qed

definition counted :: "u32 \<Rightarrow> nat \<Rightarrow> (u32 \<Rightarrow> actx option) \<Rightarrow> actx" where
  "counted q i C = (case C q of
     None \<Rightarrow> \<lparr>ac_worker = i, ac_pending = 1, ac_cb = NULL, ac_data = NULL\<rparr>
   | Some c \<Rightarrow> c\<lparr>ac_pending := ac_pending c + 1\<rparr>)"

lemma a_submit_ok:
  assumes "\<forall>n. malloc_ok a n" "0 < brk a" "a_running a"
  shows "\<exists>a'. (case a_select a of
      None \<Rightarrow> a_submit q (Some fn) arg cb data a = Some (0, a') \<and> a_queues a' = a_queues a \<and> a_ctx a' = a_ctx a
    | Some i \<Rightarrow> a_submit q (Some fn) arg cb data a = Some (a_next a, a') \<and>
        a_queues a' = (a_queues a)[i := a_queues a ! i @ [new_atask (a_next a) q fn arg cb data]] \<and>
        a_ctx a' = (a_ctx a)(q \<mapsto> counted q i (a_ctx a)))"
  using assms
proof (cases "a_select a")
  case None
  with assms show ?thesis
    by (simp add: a_submit_def malloc_n_def Let_def a_select_def)
next
  case (Some i)
  with assms show ?thesis
    by (cases "a_ctx a q")
      (simp_all add: a_submit_def malloc_n_def Let_def a_select_def a_count_def a_enqueue_def counted_def new_atask_def)
qed

lemma submit_pool:
  assumes "pool_rel p a" "a_submit q func arg cb data a = Some (v, a')"
  obtains p' where "thread_pool_submit_task p q func arg cb data = Some (v, p')" "pool_rel p' a'"
  using submit_refine [OF assms(1), of q func arg cb data] assms(2) by (auto simp: option_rel_Some2)

text \<open>
  C14.  Where a submission goes.  After any run, in a pool that has been started, a submission takes
  the first worker whose queue is empty: the task goes there with the next id, which is returned,
  and is counted for its request.  When all 64 queues hold a task the submission is refused with 0,
  and no queue and no count changes: there is no shortest queue to fall back on, since no worker is
  ever seen busy.
\<close>

theorem submit_placement:
  assumes "no_objects m" "\<And>n. malloc_ok m n" "threads_start pc"
    and "thread_pool_init env pc True m s = Some (Inr p, s0)"
    and "run (pool_do env) ls (p, s0) = Some (vs, p', s')" "sum_list (map weight ls) < 2 ^ 32"
    and "is_running p'"
  shows "\<exists>a p'' a''. pool_rel p' a \<and> pool_rel p'' a'' \<and> (case free_worker a of
      None \<Rightarrow> thread_pool_submit_task p' q (Some fn) arg cb data = Some (0, p'') \<and>
        a_queues a'' = a_queues a \<and> a_ctx a'' = a_ctx a
    | Some i \<Rightarrow> thread_pool_submit_task p' q (Some fn) arg cb data = Some (next_task_id p', p'') \<and>
        a_queues a'' = (a_queues a)[i := [new_atask (next_task_id p') q fn arg cb data]] \<and>
        a_ctx a'' = (a_ctx a)(q \<mapsto> counted q i (a_ctx a)))"
proof -
  obtain a where a: "pool_rel p' a" "idle_all a" "count_inv a" "n_tasks a \<le> sum_list (map weight ls)"
    by (rule good_run [OF assms(1-6)])
  have f: "is_running p' = a_running a" "next_task_id p' = a_next a" using a(1) by (auto simp: pool_rel_def relD)
  have len: "length (a_queues a) = NUM_WORKERS" using a(3) by (simp add: count_inv_def count_ok_def)
  have sel: "a_select a = free_worker a" by (rule select_free [OF a(2) _ len]) (use a(4) assms(6) in simp)
  obtain v a'' where sub: "a_submit q (Some fn) arg cb data a = Some (v, a'')"
    "case free_worker a of None \<Rightarrow> v = 0 \<and> a_queues a'' = a_queues a \<and> a_ctx a'' = a_ctx a
      | Some i \<Rightarrow> v = a_next a \<and>
          a_queues a'' = (a_queues a)[i := a_queues a ! i @ [new_atask (a_next a) q fn arg cb data]] \<and>
          a_ctx a'' = (a_ctx a)(q \<mapsto> counted q i (a_ctx a))"
    using a_submit_ok [of a q fn arg cb data] a(3) f(1) assms(7) sel
    by (cases "free_worker a") (auto simp: count_inv_def)
  obtain p'' where "thread_pool_submit_task p' q (Some fn) arg cb data = Some (v, p'')" "pool_rel p'' a''"
    by (rule submit_pool [OF a(1) sub(1)])
  moreover have "a_queues a ! i = []" if "free_worker a = Some i" for i
    using that by (auto simp: free_worker_def find_Some_iff)
  ultimately show ?thesis
    using a(1) sub(2) f(2) by - (rule exI [of _ a], rule exI [of _ p''], rule exI [of _ a''], auto split: option.splits)
qed

definition example_after_abs :: apool where
  "example_after_abs = fst (snd (the (run (a_do example_env) example_ops (example_abs, []))))"

lemma example_after_abs: "pool_rel example_after example_after_abs"
proof -
  have "map_option (\<lambda>(vs, a, s). (vs, s)) (run (a_do example_env) example_ops (example_abs, []))
      = Some ([Int_val 0, Id_val 1, Id_val 2], [])" by code_simp
  then obtain a where a: "run (a_do example_env) example_ops (example_abs, [])
      = Some ([Int_val 0, Id_val 1, Id_val 2], a, [])" by auto
  then have "example_after_abs = a" by (simp add: example_after_abs_def)
  moreover obtain p where "run (pool_do example_env) example_ops (example_pool, [])
      = Some ([Int_val 0, Id_val 1, Id_val 2], p, [])" "pool_rel p a" by (rule example_run [OF a])
  ultimately show ?thesis using example_after_run by simp
qed

lemma example_after_fields: "is_running example_after" "next_task_id example_after = 3"
proof -
  have "a_running example_after_abs" "a_next example_after_abs = 3" by code_simp+
  then show "is_running example_after" "next_task_id example_after = 3"
    using example_after_abs by (auto simp: pool_rel_def relD)
qed

lemma example_weight: "sum_list (map weight example_ops) < 2 ^ 32"
  by (simp add: example_ops_def)

theorem submit_placement_witness:
  "\<exists>a p'' a''. pool_rel example_after a \<and> pool_rel p'' a'' \<and> (case free_worker a of
      None \<Rightarrow> thread_pool_submit_task example_after 9 (Some (user_fn 1)) 5 0 0 = Some (0, p'') \<and>
        a_queues a'' = a_queues a \<and> a_ctx a'' = a_ctx a
    | Some i \<Rightarrow> thread_pool_submit_task example_after 9 (Some (user_fn 1)) 5 0 0 = Some (3, p'') \<and>
        a_queues a'' = (a_queues a)[i := [new_atask 3 9 (user_fn 1) 5 0 0]] \<and>
        a_ctx a'' = (a_ctx a)(9 \<mapsto> counted 9 i (a_ctx a)))"
  using submit_placement [OF example_no_objects example_malloc_ok example_threads_start example_init
      example_after_run example_weight example_after_fields(1), of 9 "user_fn 1" 5 0 0]
  unfolding example_after_fields(2) .

section \<open>Cancelling and waking\<close>

lemma sint_small: "n < 2 ^ 31 \<Longrightarrow> sint (of_nat n :: u32) = int n"
  by (simp add: signed_of_nat signed_take_bit_int_eq_self)

text \<open>
  C16.  What a cancellation removes.  After any run, cancelling a request that has no context returns 0
  and changes nothing.  Otherwise it removes the tasks of the request from the queue of the worker
  the context names and returns their number; all other tasks stay, in their order, and the context
  goes away exactly when no task of the request is left in any queue.
\<close>

theorem cancel_removes:
  assumes "no_objects m" "\<And>n. malloc_ok m n" "threads_start pc"
    and "thread_pool_init env pc True m s = Some (Inr p, s0)"
    and "run (pool_do env) ls (p, s0) = Some (vs, p', s')" "sum_list (map weight ls) < 2 ^ 31"
    and "is_running p'"
  shows "\<exists>a p'' a''. pool_rel p' a \<and> pool_rel p'' a'' \<and> (case a_ctx a q of
      None \<Rightarrow> thread_pool_cancel_tasks_by_req p' q = Some (0, p'') \<and> a'' = a
    | Some c \<Rightarrow>
        let i = ac_worker c; n = length (filter (\<lambda>t. at_req t = q) (a_queues a ! i)) in
        thread_pool_cancel_tasks_by_req p' q = Some (int n, p'') \<and>
        a_queues a'' = (a_queues a)[i := filter (\<lambda>t. at_req t \<noteq> q) (a_queues a ! i)] \<and>
        queued a'' q = queued a q - n \<and> (a_ctx a'' q = None \<longleftrightarrow> queued a'' q = 0) \<and>
        (a_ctx a'')(q := None) = (a_ctx a)(q := None))"
proof -
  obtain a where a: "pool_rel p' a" "count_inv a" "n_tasks a \<le> sum_list (map weight ls)"
    by (rule good_run [OF assms(1-5)]) (use assms(6) in simp)
  have run: "a_running a" using a(1) assms(7) by (auto simp: pool_rel_def relD)
  obtain v a'' where c: "a_cancel q a = (v, a'')" by (cases "a_cancel q a")
  with cancel_refine [OF a(1), of q] obtain p'' where p'': "thread_pool_cancel_tasks_by_req p' q = Some (v, p'')"
    "pool_rel p'' a''" by (auto simp: option_rel_Some2)
  show ?thesis
  proof (cases "a_ctx a q")
    case None
    with c run have "v = 0" "a'' = a" by (simp_all add: a_cancel_def)
    with a(1) p'' None show ?thesis by auto
  next
    case (Some x)
    let ?i = "ac_worker x" and ?n = "length (filter (\<lambda>t. at_req t = q) (a_queues a ! ac_worker x))"
    have ok: "count_ok a" using a(2) by (simp add: count_inv_def)
    have i: "?i < length (a_queues a)" using count_okD(1,3) [OF ok] Some by auto
    have "?n \<le> n_tasks a" using queue_le_n_tasks [OF i] length_filter_le le_trans by blast
    then have n: "?n < 2 ^ 31" using a(3) assms(6) by simp
    then have "sint (of_nat ?n :: u32) = int ?n" by (rule sint_small)
    moreover have "(0 < (of_nat ?n :: u32)) = (0 < ?n)"
      using n by (simp add: word_less_nat_alt unat_of_nat)
    moreover have "a'' = (if 0 < (of_nat ?n :: u32) then a_set_pending q x (ac_pending x - of_nat ?n)
          (a\<lparr>a_queues := (a_queues a)[?i := filter (\<lambda>t. at_req t \<noteq> q) (a_queues a ! ?i)]\<rparr>)
        else a\<lparr>a_queues := (a_queues a)[?i := filter (\<lambda>t. at_req t \<noteq> q) (a_queues a ! ?i)]\<rparr>)"
      "v = sint (of_nat ?n :: u32)"
      using c run Some by (simp_all add: a_cancel_def Let_def)
    ultimately have v: "v = int ?n" "a_queues a'' = (a_queues a)[?i := filter (\<lambda>t. at_req t \<noteq> q) (a_queues a ! ?i)]"
      "(a_ctx a'')(q := None) = (a_ctx a)(q := None)" by (auto simp: a_set_pending_def)
    have "queued a'' q = queued a q - ?n"
      using queued_remove(1) [OF i, of q "filter (\<lambda>t. at_req t \<noteq> q) (a_queues a ! ?i)" ?n q]
        queued_cong [of a'' "a\<lparr>a_queues := a_queues a''\<rparr>" q] v(2)
      by (simp add: conj_commute cong: conj_cong)
    moreover have "count_ok a''" using count_cancel [OF a(2) c] by (simp add: count_inv_def)
    then have "a_ctx a'' q = None \<longleftrightarrow> queued a'' q = 0"
      using count_okD(2,3) [of a'' q] by (cases "a_ctx a'' q") auto
    ultimately show ?thesis using a(1) p'' v Some
      by - (rule exI [of _ a], rule exI [of _ p''], rule exI [of _ a''], simp add: Let_def)
  qed
qed

theorem cancel_removes_witness:
  "\<exists>a p'' a''. pool_rel example_after a \<and> pool_rel p'' a'' \<and> (case a_ctx a 7 of
      None \<Rightarrow> thread_pool_cancel_tasks_by_req example_after 7 = Some (0, p'') \<and> a'' = a
    | Some c \<Rightarrow>
        let i = ac_worker c; n = length (filter (\<lambda>t. at_req t = 7) (a_queues a ! i)) in
        thread_pool_cancel_tasks_by_req example_after 7 = Some (int n, p'') \<and>
        a_queues a'' = (a_queues a)[i := filter (\<lambda>t. at_req t \<noteq> 7) (a_queues a ! i)] \<and>
        queued a'' 7 = queued a 7 - n \<and> (a_ctx a'' 7 = None \<longleftrightarrow> queued a'' 7 = 0) \<and>
        (a_ctx a'')(7 := None) = (a_ctx a)(7 := None))"
  by (rule cancel_removes [OF example_no_objects example_malloc_ok example_threads_start example_init
      example_after_run _ example_after_fields(1)]) (simp add: example_ops_def)

text \<open>
  C36.  A worker remembers one wake-up.  Two wake-ups of requests that live on the same worker, in
  particular two for the same request, without a turn between them leave the pool exactly as the
  second alone does.
\<close>

theorem wakes_collapse:
  assumes "pool_rel p a" "a_ctx a q = Some c" "a_ctx a r = Some d" "ac_worker d = ac_worker c"
  shows "\<exists>p'. run (pool_do env) [Wake q, Wake r] (p, s) = Some ([Int_val 0, Int_val 0], p', s) \<and>
    run (pool_do env) [Wake r] (p, s) = Some ([Int_val 0], p', s)"
proof -
  obtain xss where rel: "rel p a xss {} {} {}" using assms(1) by (auto simp: pool_rel_def)
  obtain x cx where x: "find_req_context (pmem p) (req_hash p) q = Some x" "x \<noteq> NULL"
    "ctxs (pmem p) x = Some cx" "rc_worker_idx cx = ac_worker c"
    by (rule rel_find_some [OF rel assms(2)])
  obtain y cy where y: "find_req_context (pmem p) (req_hash p) r = Some y" "y \<noteq> NULL"
    "ctxs (pmem p) y = Some cy" "rc_worker_idx cy = ac_worker c" "ac_worker d < NUM_WORKERS"
    by (rule rel_find_some [OF rel assms(3)]) (use assms(4) in simp)
  have "ac_worker c < length (workers p)" using y(5) assms(4) rel_lengths(1) [OF rel] by simp
  with x y show ?thesis
    by (simp add: thread_pool_wake_up_worker_by_req_id_def set_worker_def Let_def)
qed

theorem wakes_collapse_witness:
  "\<exists>p'. run (pool_do example_env) [Wake 7, Wake 7] (example_after, []) = Some ([Int_val 0, Int_val 0], p', []) \<and>
    run (pool_do example_env) [Wake 7] (example_after, []) = Some ([Int_val 0], p', [])"
proof -
  have "map_option ac_worker (a_ctx example_after_abs 7) = Some 0" by code_simp
  then obtain c where "a_ctx example_after_abs 7 = Some c" by auto
  from wakes_collapse [OF example_after_abs this this refl] show ?thesis .
qed

end
