(* ===== verification/PoolIds.thy ===== *)
theory PoolIds
  imports PoolBehaviour
begin

text \<open>
  The task ids of a run: those a submission returns, those a batch submission leaves in the array it
  returns, and those of the tasks in the queues.  The ids come from one 64-bit counter, and a batch
  takes as many of them in a row as it has tasks.
\<close>

section \<open>The ids in the results of a run\<close>

text \<open>
  The ids a sequence of results hands to the application, in order: the id of a single submission,
  the array of a batch, looked up in the arrays A of the final heap; a refusal hands out none.
\<close>

fun ids_of_val :: "(ptr \<Rightarrow> u64 list option) \<Rightarrow> pool_val \<Rightarrow> u64 list" where
  "ids_of_val A (Id_val n) = (if n = 0 then [] else [n])"
| "ids_of_val A (Ids_val v) = (if v = NULL then [] else case A v of None \<Rightarrow> [] | Some ns \<Rightarrow> ns)"
| "ids_of_val A _ = []"

definition ids_of :: "(ptr \<Rightarrow> u64 list option) \<Rightarrow> pool_val list \<Rightarrow> u64 list" where
  "ids_of A vs = concat (map (ids_of_val A) vs)"

text \<open>Every batch that was taken has its array of ids in A.\<close>

fun has_array :: "(ptr \<Rightarrow> u64 list option) \<Rightarrow> pool_val \<Rightarrow> bool" where
  "has_array A (Ids_val v) = (v = NULL \<or> A v \<noteq> None)"
| "has_array A _ = True"

lemma ids_of_val_mono:
  assumes "A \<subseteq>\<^sub>m B" "has_array A v"
  shows "ids_of_val B v = ids_of_val A v" "has_array B v"
  using assms by (cases v; force simp: map_le_def dom_def split: option.splits)+

lemma ids_of_simps [simp]: "ids_of A [] = []" "ids_of A (v # vs) = ids_of_val A v @ ids_of A vs"
  by (simp_all add: ids_of_def)

text \<open>A block of n ids in a row.\<close>

lemma block_ids:
  assumes "unat a + n < 2 ^ 64"
  shows "sorted_wrt (<) (map (\<lambda>j. a + of_nat j :: u64) [0..<n])"
    "\<forall>x \<in> set (map (\<lambda>j. a + of_nat j :: u64) [0..<n]). a \<le> x \<and> x < a + of_nat n" "a \<le> a + of_nat n"
proof -
  have u: "unat (a + of_nat j) = unat a + j" if "j \<le> n" for j using unat_add_small [of a j] assms that by simp
  show "sorted_wrt (<) (map (\<lambda>j. a + of_nat j :: u64) [0..<n])"
    by (auto simp: sorted_wrt_iff_nth_less word_less_nat_alt u)
  show "\<forall>x \<in> set (map (\<lambda>j. a + of_nat j :: u64) [0..<n]). a \<le> x \<and> x < a + of_nat n"
    by (auto simp: word_less_nat_alt word_le_nat_alt u)
  show "a \<le> a + of_nat n" by (simp add: word_le_nat_alt u)
qed

section \<open>The ids of one operation\<close>

definition queued_ids :: "apool \<Rightarrow> u64 set" where
  "queued_ids a = at_id ` set (concat (a_queues a))"

lemma queued_ids_update:
  assumes "a_queues a' = (a_queues a)[i := ys]"
    and "i < length (a_queues a) \<Longrightarrow> set ys \<subseteq> set (a_queues a ! i) \<union> set zs"
  shows "queued_ids a' \<subseteq> queued_ids a \<union> set (map at_id zs)"
proof (cases "i < length (a_queues a)")
  case True
  have "set (concat (a_queues a')) \<subseteq> set ys \<union> set (concat (a_queues a))"
    unfolding assms(1) using set_update_subset_insert [of "a_queues a" i ys] by auto
  moreover have "set (a_queues a ! i) \<subseteq> set (concat (a_queues a))" using nth_mem [OF True] by auto
  ultimately have "set (concat (a_queues a')) \<subseteq> set (concat (a_queues a)) \<union> set zs"
    using assms(2) [OF True] by blast
  then show ?thesis unfolding queued_ids_def set_map by blast
qed (use assms(1) in \<open>simp add: queued_ids_def list_update_beyond\<close>)

text \<open>
  What one operation with result v does to the ids: A is the arrays it leaves, and the ids it hands
  out lie between the two values of the counter.
\<close>

definition ids_step :: "apool \<Rightarrow> pool_val \<Rightarrow> apool \<Rightarrow> bool" where
  "ids_step a v a' \<longleftrightarrow> a_arrays a \<subseteq>\<^sub>m a_arrays a' \<and> has_array (a_arrays a') v \<and> a_next a \<le> a_next a' \<and>
     sorted_wrt (<) (ids_of_val (a_arrays a') v) \<and>
     (\<forall>n \<in> set (ids_of_val (a_arrays a') v). a_next a \<le> n \<and> n < a_next a') \<and>
     queued_ids a' \<subseteq> queued_ids a \<union> set (ids_of_val (a_arrays a') v)"

lemma ids_step_none:
  assumes "a_arrays a' = a_arrays a" "has_array (a_arrays a) v" "a_next a \<le> a_next a'"
    and "ids_of_val (a_arrays a) v = []" "queued_ids a' \<subseteq> queued_ids a"
  shows "ids_step a v a'"
  using assms by (simp add: ids_step_def)

lemma ids_step_int:
  assumes "a_queues a' = a_queues a" "a_arrays a' = a_arrays a" "a_next a' = a_next a"
  shows "ids_step a (Int_val n) a'"
  using assms by (simp add: ids_step_def queued_ids_def)

lemma a_submit_arrays:
  assumes "a_submit q func arg cb data a = Some (v, a')" shows "a_arrays a' = a_arrays a"
  using assms by (auto simp: a_submit_def a_count_def a_enqueue_def malloc_n_def Let_def
    split: option.splits if_splits)

lemma submit_ids:
  assumes "a_submit q func arg cb data a = Some (v, a')" "unat (a_next a) + 1 < 2 ^ 64" "0 < a_next a"
  shows "ids_step a (Id_val v) a'"
proof -
  have up: "a_next a \<le> a_next a + 1" "a_next a < a_next a + 1"
    using unat_add_small [of "a_next a" 1] assms(2) by (simp_all add: word_le_nat_alt word_less_nat_alt)
  note arr = a_submit_arrays [OF assms(1)]
  from assms(1) show ?thesis
  proof (cases rule: a_submit_cases)
    case no
    with arr up(1) show ?thesis by (intro ids_step_none) (auto simp: queued_ids_def)
  next
    case (yes fn i)
    have "queued_ids a' \<subseteq> queued_ids a \<union> set (map at_id [new_atask (a_next a) q fn arg cb data])"
      by (rule queued_ids_update [OF yes(5)]) simp
    then have "queued_ids a' \<subseteq> queued_ids a \<union> {a_next a}" by (simp add: new_atask_def)
    moreover have "ids_of_val (a_arrays a') (Id_val v) = [a_next a]" using yes(1) assms(3) by simp
    ultimately show ?thesis using up yes(1,6) arr unfolding ids_step_def by simp
  qed
qed

lemma batch_ids:
  assumes "a_batch ts cb data bcb bdata a = (v, a')" "unat (a_next a) + length ts < 2 ^ 64" "pool_rel p a"
  shows "ids_step a (Ids_val v) a'"
  using assms(1)
proof (cases rule: a_batch_cases)
  case no
  from no(6) [OF assms(2)] have "a_next a \<le> a_next a'" by (simp add: word_le_nat_alt)
  with no show ?thesis by (intro ids_step_none) (simp_all add: queued_ids_def)
next
  case (yes i)
  obtain xss where r: "rel p a xss {} {} {}" using assms(3) by (auto simp: pool_rel_def)
  have "a_arrays a v = None"
    using owns_brk_None(5) [OF rel_owns [OF r]] relD(1,4) [OF r] a_batch_address [OF assms(1) yes(4)] by simp
  then have le: "a_arrays a \<subseteq>\<^sub>m a_arrays a'" unfolding yes(8) by (auto simp: map_le_def dom_def)
  have ids: "ids_of_val (a_arrays a') (Ids_val v) = map (\<lambda>j. a_next a + of_nat j) [0..<length ts]"
    using yes(4,8) by (simp add: batch_tasks_ids)
  have "queued_ids a' \<subseteq> queued_ids a \<union> set (map at_id (batch_tasks ts (a_next a) cb data))"
    by (rule queued_ids_update [OF yes(6)]) simp
  then have q: "queued_ids a' \<subseteq> queued_ids a \<union> set (ids_of_val (a_arrays a') (Ids_val v))"
    unfolding ids batch_tasks_ids .
  show ?thesis
    unfolding ids_step_def using le q block_ids [OF assms(2)] yes(4,7,8) unfolding ids by simp
qed

lemma do_ids:
  assumes "a_do env l (a, s) = Some (v, a', s')" "unat (a_next a) + weight l < 2 ^ 64" "pool_rel p a" "ids_inv a"
  shows "ids_step a v a'"
proof (cases l)
  case (Submit q func arg cb data)
  with assms show ?thesis using submit_ids [of q func arg cb data a _ a'] by (auto simp: ids_inv_def ids_ok_def)
next
  case (Batch ts cb data bcb bdata)
  with assms show ?thesis using batch_ids [of ts cb data bcb bdata a _ a' p] by (auto split: prod.splits)
next
  case (Cancel q)
  then obtain u where u: "a_cancel q a = (u, a')" "v = Int_val u" using assms(1) by (auto split: prod.splits)
  have "\<exists>i ys. a_queues a' = (a_queues a)[i := ys] \<and> (i < length (a_queues a) \<longrightarrow> set ys \<subseteq> set (a_queues a ! i))"
  proof (cases "a_queues a' = a_queues a")
    case True
    then show ?thesis by (intro exI [of _ 0] exI [of _ "a_queues a ! 0"]) (simp add: list_update_same_conv list_update_beyond)
  next
    case False
    with u(1) show ?thesis by (auto simp: a_cancel_def a_set_pending_def Let_def split: if_splits option.splits intro!: exI)
  qed
  then obtain i ys where "a_queues a' = (a_queues a)[i := ys]" "i < length (a_queues a) \<longrightarrow> set ys \<subseteq> set (a_queues a ! i)"
    by blast
  with queued_ids_update [of a' a i ys "[]"] have "queued_ids a' \<subseteq> queued_ids a" by simp
  moreover have "a_arrays a' = a_arrays a" "a_next a' = a_next a"
    using u(1) by (auto simp: a_cancel_def a_set_pending_def Let_def split: if_splits option.splits)
  ultimately show ?thesis using u(2) by (intro ids_step_none) simp_all
next
  case (Turn i)
  show ?thesis
  proof (cases "i < NUM_WORKERS")
    case True
    with Turn assms(1) have t: "a_turn env i (a, s) = Some (a', s')" "v = Turn_done" by auto
    have "queued_ids a' \<subseteq> queued_ids a"
    proof (cases "a_queues a' = a_queues a")
      case False
      then obtain bs t cs where "a_queues a ! i = bs @ t # cs" "a_queues a' = (a_queues a)[i := bs @ cs]"
        using a_turn_queues [OF t(1)] by blast
      then show ?thesis using queued_ids_update [of a' a i "bs @ cs" "[]"] by auto
    qed (simp add: queued_ids_def)
    with a_turn_queues [OF t(1)] a_turn_keeps(3) [OF t(1)] t(2) show ?thesis by (intro ids_step_none) simp_all
  next
    case False
    with Turn assms(1) show ?thesis by (intro ids_step_none) auto
  qed
next
  case Start
  with assms(1) have "a_queues a' = a_queues a \<and> a_arrays a' = a_arrays a \<and> a_next a' = a_next a \<and> (\<exists>n. v = Int_val n)"
    by (auto simp: a_start_def split: if_splits)
  then show ?thesis by (auto simp: ids_step_int)
next
  case (Wake q)
  with assms(1) have "a_queues a' = a_queues a \<and> a_arrays a' = a_arrays a \<and> a_next a' = a_next a \<and> (\<exists>n. v = Int_val n)"
    by (auto simp: a_wake_def split: option.splits)
  then show ?thesis by (auto simp: ids_step_int)
qed

section \<open>The ids of a run\<close>

lemma run_ids:
  assumes "pool_rel p a" "ids_inv a" "unat (a_next a) + sum_list (map weight ls) < 2 ^ 64"
    and "run (pool_do env) ls (p, s) = Some (vs, p', s')"
  obtains a' where "pool_rel p' a'" "ids_inv a'" "a_next a \<le> a_next a'" "a_arrays a \<subseteq>\<^sub>m a_arrays a'"
    "\<forall>v \<in> set vs. has_array (a_arrays a') v" "sorted_wrt (<) (ids_of (a_arrays a') vs)"
    "\<forall>n \<in> set (ids_of (a_arrays a') vs). a_next a \<le> n \<and> n < a_next a'"
    "queued_ids a' \<subseteq> queued_ids a \<union> set (ids_of (a_arrays a') vs)"
  using assms
proof (induction ls arbitrary: p a s vs thesis)
  case Nil
  then show ?case by simp
next
  case (Cons l ls)
  from Cons.prems(5) obtain v p1 s1 us where 1: "pool_do env l (p, s) = Some (v, p1, s1)"
    "run (pool_do env) ls (p1, s1) = Some (us, p', s')" "vs = v # us"
    by (auto split: Option.bind_splits)
  have "state_rel (p, s) (a, s)" using Cons.prems(2) by (simp add: state_rel_def)
  with pool_do_refine [of "(p, s)" "(a, s)" env l] 1(1) obtain a1 where a1: "a_do env l (a, s) = Some (v, a1, s1)"
    "pool_rel p1 a1" by (auto simp: option_rel_Some1 state_rel_def)
  have w: "unat (a_next a) + weight l < 2 ^ 64" using Cons.prems(4) by simp
  have i: "ids_inv a1" "unat (a_next a1) + sum_list (map weight ls) < 2 ^ 64"
    using ids_do [OF Cons.prems(3) w a1(1)] Cons.prems(4) by auto
  have st: "ids_step a v a1" by (rule do_ids [OF a1(1) w Cons.prems(2,3)])
  obtain a' where a': "pool_rel p' a'" "ids_inv a'" "a_next a1 \<le> a_next a'" "a_arrays a1 \<subseteq>\<^sub>m a_arrays a'"
    "\<forall>v \<in> set us. has_array (a_arrays a') v" "sorted_wrt (<) (ids_of (a_arrays a') us)"
    "\<forall>n \<in> set (ids_of (a_arrays a') us). a_next a1 \<le> n \<and> n < a_next a'"
    "queued_ids a' \<subseteq> queued_ids a1 \<union> set (ids_of (a_arrays a') us)"
    by (rule Cons.IH [OF _ a1(2) i 1(2)])
  have v: "ids_of_val (a_arrays a') v = ids_of_val (a_arrays a1) v" "has_array (a_arrays a') v"
    using ids_of_val_mono [OF a'(4)] st by (simp_all add: ids_step_def)
  note st' = st [unfolded ids_step_def, folded v(1)]
  show ?case
  proof (rule Cons.prems(1))
    show "a_next a \<le> a_next a'" "a_arrays a \<subseteq>\<^sub>m a_arrays a'"
      using st' a'(3,4) by (auto intro: order_trans map_le_trans)
    show "\<forall>v \<in> set vs. has_array (a_arrays a') v" using v(2) a'(5) 1(3) by simp
    show "sorted_wrt (<) (ids_of (a_arrays a') vs)"
      unfolding 1(3) using st' a'(6,7) by (auto simp: sorted_wrt_append intro: less_le_trans)
    show "\<forall>n \<in> set (ids_of (a_arrays a') vs). a_next a \<le> n \<and> n < a_next a'"
      unfolding 1(3) using st' a'(3,7) by (auto intro: order_trans less_le_trans)
    show "queued_ids a' \<subseteq> queued_ids a \<union> set (ids_of (a_arrays a') vs)"
      unfolding 1(3) using st' a'(8) by auto
  qed (rule a'(1,2))+
qed

text \<open>
  C19.  Task ids.  Take any run from initialisation with fewer than 2 to the 64 - 1 tasks, whatever
  allocations fail, and put the ids it hands out in a row, that of each single submission and the
  arrays of the batch submissions, which the heap holds at the end.  They increase strictly, so no id
  is given twice, and lie between 1 and the pool's next id; the tasks in the queues at the end have
  distinct ids, all of them among these.
\<close>

theorem task_ids_distinct:
  assumes "no_objects m" "threads_start pc" "thread_pool_init env pc True m s = Some (Inr p, s0)"
    and "run (pool_do env) ls (p, s0) = Some (vs, p', s')" "sum_list (map weight ls) < 2 ^ 64 - 1"
  shows "sorted_wrt (<) (ids_of (id_arrays (pmem p')) vs) \<and>
    (\<forall>n \<in> set (ids_of (id_arrays (pmem p')) vs). 0 < n \<and> n < next_task_id p') \<and>
    (\<forall>v \<in> set vs. has_array (id_arrays (pmem p')) v) \<and>
    (\<exists>a. pool_rel p' a \<and> distinct (map at_id (concat (a_queues a))) \<and>
      (\<forall>t \<in> set (concat (a_queues a)). at_id t \<in> set (ids_of (id_arrays (pmem p')) vs)))"
proof -
  let ?a = "a_fresh pc {..<NUM_WORKERS} m"
  note i = init_pool [OF assms(1-3)]
  have b: "unat (a_next ?a) + sum_list (map weight ls) < 2 ^ 64" using assms(5) by (simp add: a_fresh_def)
  have q: "queued_ids ?a = {}" "a_next ?a = 1" by (simp_all add: queued_ids_def a_fresh_def concat_replicate_Nil)
  obtain a where a: "pool_rel p' a" "ids_inv a" "a_next ?a \<le> a_next a" "a_arrays ?a \<subseteq>\<^sub>m a_arrays a"
    "\<forall>v \<in> set vs. has_array (a_arrays a) v" "sorted_wrt (<) (ids_of (a_arrays a) vs)"
    "\<forall>n \<in> set (ids_of (a_arrays a) vs). a_next ?a \<le> n \<and> n < a_next a"
    "queued_ids a \<subseteq> queued_ids ?a \<union> set (ids_of (a_arrays a) vs)"
    by (rule run_ids [OF i(2) ids_inv_fresh b assms(4)])
  have p: "next_task_id p' = a_next a" "id_arrays (pmem p') = a_arrays a" using a(1) by (auto simp: pool_rel_def relD)
  have "distinct (map at_id (concat (a_queues a)))" using a(2) by (simp add: ids_inv_def ids_ok_def)
  moreover have "queued_ids a \<subseteq> set (ids_of (a_arrays a) vs)" using a(8) q(1) by simp
  then have "\<forall>t \<in> set (concat (a_queues a)). at_id t \<in> set (ids_of (a_arrays a) vs)"
    unfolding queued_ids_def image_subset_iff .
  moreover have "\<forall>n \<in> set (ids_of (a_arrays a) vs). 0 < n \<and> n < a_next a"
    using a(7) unfolding q(2) by (auto simp: word_le_nat_alt word_less_nat_alt)
  ultimately show ?thesis unfolding p using a(1,5,6) by (intro conjI exI [of _ a])
qed

definition batch_ops :: "pool_op list" where
  "batch_ops = [Start, Submit 7 (Some (user_fn 1)) 5 9 3, Batch [example_task 11, example_task 12] 21 0 31 0,
     Submit 8 (Some (user_fn 1)) 6 0 3]"

definition batch_ops_abs :: "pool_val list \<times> apool \<times> nat list" where
  "batch_ops_abs = the (run (a_do example_env) batch_ops (example_abs, []))"

lemma batch_ops_runs: "run (a_do example_env) batch_ops (example_abs, []) \<noteq> None"
  by code_simp

lemma batch_ops_result:
  "fst batch_ops_abs = [Int_val 0, Id_val 1, Ids_val 5, Id_val 4]" "snd (snd batch_ops_abs) = []"
  "(5 :: ptr) \<noteq> NULL" "a_arrays (fst (snd batch_ops_abs)) 5 = Some [2, 3]" "a_next (fst (snd batch_ops_abs)) = 5"
  by code_simp+

theorem task_ids_distinct_witness:
  "\<exists>v p' a. run (pool_do example_env) batch_ops (example_pool, [])
      = Some ([Int_val 0, Id_val 1, Ids_val v, Id_val 4], p', []) \<and> v \<noteq> NULL \<and>
    id_arrays (pmem p') v = Some [2, 3] \<and> next_task_id p' = 5 \<and> sorted_wrt (<) [1, 2, 3, 4 :: u64] \<and>
    pool_rel p' a \<and> distinct (map at_id (concat (a_queues a))) \<and>
    set (map at_id (concat (a_queues a))) \<subseteq> {1, 2, 3, 4}"
proof -
  let ?a = "fst (snd batch_ops_abs)"
  have run: "run (a_do example_env) batch_ops (example_abs, [])
      = Some (fst batch_ops_abs, ?a, snd (snd batch_ops_abs))" using batch_ops_runs by (auto simp: batch_ops_abs_def)
  obtain v where r: "fst batch_ops_abs = [Int_val 0, Id_val 1, Ids_val v, Id_val 4]" "snd (snd batch_ops_abs) = []"
    "v \<noteq> NULL" "a_arrays ?a v = Some [2, 3]" "a_next ?a = 5" by (rule that [OF batch_ops_result])
  have "run (a_do example_env) batch_ops (example_abs, [])
      = Some ([Int_val 0, Id_val 1, Ids_val v, Id_val 4], ?a, [])" unfolding run r(1,2) ..
  from example_run [OF this] obtain p where p: "run (pool_do example_env) batch_ops (example_pool, [])
      = Some ([Int_val 0, Id_val 1, Ids_val v, Id_val 4], p, [])" "pool_rel p ?a" by metis
  then have f: "id_arrays (pmem p) = a_arrays ?a" "next_task_id p = a_next ?a" by (auto simp: pool_rel_def relD)
  have "sum_list (map weight batch_ops) < 2 ^ 64 - 1" by (simp add: batch_ops_def)
  then obtain a where "sorted_wrt (<) (ids_of (id_arrays (pmem p)) [Int_val 0, Id_val 1, Ids_val v, Id_val 4])"
    "pool_rel p a" "distinct (map at_id (concat (a_queues a)))"
    "\<forall>t \<in> set (concat (a_queues a)). at_id t \<in> set (ids_of (id_arrays (pmem p)) [Int_val 0, Id_val 1, Ids_val v, Id_val 4])"
    using task_ids_distinct [OF example_no_objects example_threads_start example_init p(1)] by metis
  moreover have "ids_of (id_arrays (pmem p)) [Int_val 0, Id_val 1, Ids_val v, Id_val 4] = [1, 2, 3, 4]"
    using r f by simp
  ultimately show ?thesis
    using p(1) r f by - (rule exI [of _ v], rule exI [of _ p], rule exI [of _ a], auto)
qed

end
