(* ===== verification/PoolLimits.thy ===== *)
theory PoolLimits
  imports PoolBehaviour
begin

text \<open>
  What a wake-up makes a worker do, and what the pool never does by itself: run a task of a request
  that nobody wakes, before or during its destruction, or reach tasks of a request that are queued
  on another worker than the one the request's context names.
\<close>

section \<open>A wake-up and a turn\<close>

text \<open>
  C15.  A wake-up and a turn of the request's worker run the first queued task of the request and no
  other: its function, then its completion callback, which is told success whatever the function
  returned, then, after the last task that was counted, the batch callback; the task leaves the
  queue, the others keep their order, and the count goes down by one, the context with it at 0.
\<close>

theorem turn_runs_next:
  assumes "pool_rel p a" "idle_all a" "a_ctx a q = Some c" "q \<noteq> 0"
    and "a_queues a ! ac_worker c = bs @ t # cs" "at_req t = q" "\<forall>u \<in> set bs. at_req u \<noteq> q"
    and "exec env (at_fn t) (at_arg t) s = Some (ret, s1)"
    and "call_cb env (at_cb t) (at_id t) True (at_data t) s1 = Some s2"
    and "(if ac_pending c = 1 then call_cb env (ac_cb c) 0 True (ac_data c) s2 else Some s2) = Some s3"
  shows "\<exists>p' a'. run (pool_do env) [Wake q, Turn (ac_worker c)] (p, s) = Some ([Int_val 0, Turn_done], p', s3) \<and>
    pool_rel p' a' \<and> a_queues a' = (a_queues a)[ac_worker c := bs @ cs] \<and>
    a_ctx a' = (a_ctx a)(q := if ac_pending c = 1 then None else Some (c\<lparr>ac_pending := ac_pending c - 1\<rparr>))"
proof -
  obtain xss where rel: "rel p a xss {} {} {}" using assms(1) by (auto simp: pool_rel_def)
  have i: "ac_worker c < NUM_WORKERS" by (rule relD(14) [OF rel assms(3)])
  have ex: "List.extract (\<lambda>t. at_req t = q) (a_queues a ! ac_worker c) = Some (bs, t, cs)"
    unfolding assms(5) by (rule extract_split) (use assms(6,7) in auto)
  have t: "a_run_task env t s = Some s2" using assms(8,9) by (simp add: a_run_task_def)
  have one: "ac_pending c - 1 = 0 \<longleftrightarrow> ac_pending c = 1" by simp
  let ?a = "a_set_pending q c (ac_pending c - 1)
      (a\<lparr>a_queues := (a_queues a)[ac_worker c := bs @ cs], a_pend := (a_pend a)[ac_worker c := 0]\<rparr>)"
  have "run (a_do env) [Wake q, Turn (ac_worker c)] (a, s) = Some ([Int_val 0, Turn_done], ?a, s3)"
    by (rule wake_turn [OF assms(3) refl i rel_lengths(4,3) [OF rel] idle_allD(2) [OF assms(2) i] assms(4) ex t])
      (use assms(10) one in simp)
  moreover have "state_rel (p, s) (a, s)" using assms(1) by (simp add: state_rel_def)
  ultimately obtain p' where "run (pool_do env) [Wake q, Turn (ac_worker c)] (p, s)
      = Some ([Int_val 0, Turn_done], p', s3)" "pool_rel p' ?a"
    using pool_sim.run_sim [of "(p, s)" "(a, s)" env "[Wake q, Turn (ac_worker c)]"]
    by (auto simp: option_rel_Some2 state_rel_def simp del: run.simps)
  then show ?thesis
    by - (rule exI [of _ p'], rule exI [of _ ?a], simp add: a_set_pending_def del: run.simps)
qed

lemma example_after_queues:
  "idle_all example_after_abs" "a_pend example_after_abs = replicate NUM_WORKERS 0"
  "a_ctx example_after_abs 7 = Some \<lparr>ac_worker = 0, ac_pending = 1, ac_cb = 0, ac_data = 0\<rparr>"
  "a_queues example_after_abs ! 0 = [\<lparr>at_id = 1, at_req = 7, at_fn = user_fn 1, at_arg = 5, at_cb = 9, at_data = 3\<rparr>]"
  by code_simp+

theorem turn_runs_next_witness:
  "\<exists>p' a'. run (pool_do example_env) [Wake 7, Turn 0] (example_after, []) = Some ([Int_val 0, Turn_done], p', [5, 9, 1]) \<and>
    pool_rel p' a' \<and> a_queues a' = (a_queues example_after_abs)[0 := []] \<and>
    a_ctx a' = (a_ctx example_after_abs)(7 := None)"
  using turn_runs_next [OF example_after_abs example_after_queues(1,3), of "[]"
      "\<lparr>at_id = 1, at_req = 7, at_fn = user_fn 1, at_arg = 5, at_cb = 9, at_data = 3\<rparr>" "[]" example_env "[]" 0 "[5]"
      "[5, 9, 1]" "[5, 9, 1]"] example_after_queues(4)
  by (simp add: example_env_def call_cb_def del: run.simps)

section \<open>Without a wake-up nothing runs\<close>

lemma replicate_update [simp]: "(replicate n x)[i := x] = replicate n x"
  by (cases "i < n") (simp_all add: list_update_same_conv list_update_beyond)

definition quiet :: "apool \<Rightarrow> bool" where
  "quiet a \<longleftrightarrow> idle_all a \<and> a_pend a = replicate NUM_WORKERS 0"

lemma quiet_turn: "quiet a \<Longrightarrow> i < NUM_WORKERS \<Longrightarrow> a_turn env i (a, s) = Some (a, s)"
  by (simp add: quiet_def idle_all_def a_turn_def)

lemma quiet_do:
  assumes "quiet a" "a_do env l (a, s) = Some (v, a', s')" "\<And>q. l = Wake q \<Longrightarrow> q = 0"
  shows "quiet a' \<and> s' = s"
proof -
  have q: "idle_all a'" using idle_do assms(1,2) by (auto simp: quiet_def)
  have p: "a_pend a = replicate NUM_WORKERS 0" using assms(1) by (simp add: quiet_def)
  have "a_pend a' = a_pend a \<and> s' = s"
  proof (cases l)
    case (Submit q func arg cb data)
    then obtain u where u: "a_submit q func arg cb data a = Some (u, a')" "s' = s" using assms(2) by auto
    from u(1) show ?thesis by (cases rule: a_submit_cases) (simp_all add: same_rest_def u(2))
  next
    case (Batch ts cb data bcb bdata)
    then obtain u where u: "a_batch ts cb data bcb bdata a = (u, a')" "s' = s"
      using assms(2) by (auto simp: Let_def split: prod.splits)
    from u(1) show ?thesis by (cases rule: a_batch_cases) (simp_all add: same_rest_def u(2))
  next
    case (Turn i)
    with assms(2) quiet_turn [OF assms(1), of i env s] show ?thesis by (auto split: if_splits)
  next
    case (Wake q)
    with assms(2,3) p have "a_pend a' = a_pend a \<or> (\<exists>i. a_pend a' = (replicate NUM_WORKERS 0)[i := 0])" "s' = s"
      by (auto simp: a_wake_def Let_def split: option.splits)
    then show ?thesis using p by auto
  qed (use assms(2) in \<open>auto simp: a_cancel_def a_start_def a_set_pending_def Let_def
      split: option.splits if_splits\<close>)
  with q p show ?thesis by (simp add: quiet_def)
qed

lemma quiet_run:
  assumes "quiet a" "run (a_do env) ls (a, s) = Some (vs, a', s')" "\<And>q. Wake q \<in> set ls \<Longrightarrow> q = 0"
  shows "quiet a' \<and> s' = s"
  using assms
proof (induction ls arbitrary: a s vs)
  case (Cons l ls)
  then obtain v a1 s1 us where 1: "a_do env l (a, s) = Some (v, a1, s1)"
    "run (a_do env) ls (a1, s1) = Some (us, a', s')"
    by (auto split: Option.bind_splits)
  have "quiet a1 \<and> s1 = s" by (rule quiet_do [OF Cons.prems(1) 1(1)]) (use Cons.prems(3) in simp)
  with Cons.IH [OF _ 1(2)] Cons.prems(3) show ?case by simp
qed simp

text \<open>
  C34.  Without a wake-up nothing runs, and destruction discards.  When no request but request 0 is
  ever woken, no turn of any worker calls a function of the application; and destroying the pool then
  frees all queued tasks without running them.  In particular a request with id 0 is never run,
  however often it is woken, since 0 is how a worker marks that it has nothing to do.
\<close>

theorem unwoken_not_run:
  assumes "no_objects m" "threads_start pc" "thread_pool_init env pc True m s = Some (Inr p, s0)"
    and "run (pool_do env) ls (p, s0) = Some (vs, p', s')" "\<forall>q. Wake q \<in> set ls \<longrightarrow> q = 0"
  shows "s' = s \<and> (\<exists>m'. thread_pool_destroy env (p', s') = Some (m', s') \<and> no_objects m')"
proof -
  obtain a where a: "run (a_do env) ls (a_fresh pc {..<NUM_WORKERS} m, s) = Some (vs, a, s')" "pool_rel p' a"
    by (rule run_from_init [OF assms(1-4)])
  have "quiet (a_fresh pc {..<NUM_WORKERS} m)" using idle_fresh [of pc m] by (simp add: quiet_def a_fresh_def)
  from quiet_run [OF this a(1)] assms(5) have q: "quiet a" "s' = s" by blast+
  have j: "joinable a"
    by (rule joinable_run [OF joinable_fresh _ a(1)]) (use assms(2) in \<open>simp_all add: a_fresh_def threads_start_def\<close>)
  let ?a = "a\<lparr>a_destroying := True\<rparr>"
  have "\<exists>a'. a_join_loop env [0..<NUM_WORKERS] (?a, s') = Some (a', s') \<and> a_arrays a' = a_arrays ?a"
    by (rule a_join_loop_idle) (use q(1) in \<open>auto simp: quiet_def idle_all_def\<close>)
  with destroy_refine [OF a(2) j, of env s'] q(2) show ?thesis by (auto simp: option_rel_Some2)
qed

theorem unwoken_not_run_witness:
  "\<exists>vs p' s' m'. run (pool_do example_env) [Start, Submit 0 (Some (user_fn 1)) 5 9 3, Wake 0, Turn 0] (example_pool, [])
      = Some ([Int_val 0, Id_val 1, Int_val 0, Turn_done], p', []) \<and>
    thread_pool_destroy example_env (p', []) = Some (m', []) \<and> no_objects m'"
proof -
  let ?ls = "[Start, Submit 0 (Some (user_fn 1)) 5 9 3, Wake 0, Turn 0]"
  have "map_option fst (run (a_do example_env) ?ls (example_abs, []))
      = Some [Int_val 0, Id_val 1, Int_val 0, Turn_done]" by code_simp
  then obtain a s' where "run (a_do example_env) ?ls (example_abs, [])
      = Some ([Int_val 0, Id_val 1, Int_val 0, Turn_done], a, s')" by auto
  from example_run [OF this] obtain p' where p': "run (pool_do example_env) ?ls (example_pool, [])
      = Some ([Int_val 0, Id_val 1, Int_val 0, Turn_done], p', s')" by metis
  with unwoken_not_run [OF example_no_objects example_threads_start example_init p'] show ?thesis by auto
qed

section \<open>Tasks on another worker\<close>

text \<open>The worker of the request may have the wake-up to look at; no other worker has one.\<close>

definition only_woken :: "nat \<Rightarrow> u32 \<Rightarrow> apool \<Rightarrow> bool" where
  "only_woken i q a \<longleftrightarrow> (a_pend a)[i := 0] = replicate NUM_WORKERS 0 \<and> a_pend a ! i \<in> {0, q}"

lemma stranded_do:
  assumes a: "idle_all a" "only_woken (ac_worker c) q a" "a_ctx a q = Some c" "ac_worker c < NUM_WORKERS"
    "\<forall>t \<in> set (a_queues a ! ac_worker c). at_req t \<noteq> q"
    and l: "l = Wake q \<or> l = Cancel q \<or> (\<exists>i. l = Turn i)"
  shows "\<exists>v pend. a_do env l (a, s) = Some (v, a\<lparr>a_pend := pend\<rparr>, s) \<and> only_woken (ac_worker c) q (a\<lparr>a_pend := pend\<rparr>)"
proof -
  let ?i = "ac_worker c"
  have len: "length (a_pend a) = NUM_WORKERS" using a(2) unfolding only_woken_def by (metis length_list_update length_replicate)
  have same: "a\<lparr>a_pend := a_pend a\<rparr> = a" by simp
  from l show ?thesis
  proof (elim disjE exE)
    assume l: "l = Wake q"
    have "only_woken ?i q (a\<lparr>a_pend := (a_pend a)[?i := q]\<rparr>)" using a(2,4) len by (simp add: only_woken_def)
    with l a(3) show ?thesis by (auto simp: a_wake_def)
  next
    assume l: "l = Cancel q"
    have f: "filter (\<lambda>t. at_req t \<noteq> q) (a_queues a ! ?i) = a_queues a ! ?i" "filter (\<lambda>t. at_req t = q) (a_queues a ! ?i) = []"
      using a(5) by (simp_all add: filter_id_conv filter_empty_conv)
    have "\<exists>v. a_cancel q a = (v, a)" using a(3) f by (simp add: a_cancel_def)
    then obtain v where "a_do env l (a, s) = Some (v, a, s)" using l by auto
    with a(2) same show ?thesis by - (rule exI [of _ v], rule exI [of _ "a_pend a"], simp)
  next
    fix i assume l: "l = Turn i"
    show ?thesis
    proof (cases "i < NUM_WORKERS \<and> a_pend a ! i \<noteq> 0")
      case False
      then have "a_do env l (a, s) = Some (Turn_done, a, s)"
        using l a(1) by (auto simp: a_turn_def idle_all_def)
      with a(2) same show ?thesis by - (rule exI [of _ Turn_done], rule exI [of _ "a_pend a"], simp)
    next
      case True
      have "i = ?i"
      proof (rule ccontr)
        assume "i \<noteq> ?i"
        then have "a_pend a ! i = (a_pend a)[?i := 0] ! i" by simp
        also have "\<dots> = 0" using a(2) True by (simp add: only_woken_def)
        finally show False using True by simp
      qed
      then have i: "i = ?i" "a_pend a ! ?i = q" "q \<noteq> 0" using True a(2) by (auto simp: only_woken_def)
      have "List.extract (\<lambda>t. at_req t = q) (a_queues a ! ?i) = None" using a(5) by (intro extract_NoneI) auto
      then have "a_do env l (a, s) = Some (Turn_done, a\<lparr>a_pend := (a_pend a)[?i := 0]\<rparr>, s)"
        using l i a(1,4) by (simp add: a_turn_def idle_all_def)
      moreover have "only_woken ?i q (a\<lparr>a_pend := (a_pend a)[?i := 0]\<rparr>)" using a(2,4) len by (simp add: only_woken_def)
      ultimately show ?thesis by blast
    qed
  qed
qed

text \<open>
  C35.  Tasks queued on another worker than the one the context of their request names are out of
  reach.  In a pool where nothing is pending and the named worker holds no task of the request, no
  sequence of wake-ups and cancellations of the request and of turns of any workers runs a task or
  changes a queue or a count.  A second submission for a request whose first task is still queued
  ends there.
\<close>

theorem other_worker_stranded:
  assumes "pool_rel p a" "quiet a" "a_ctx a q = Some c"
    and "\<forall>t \<in> set (a_queues a ! ac_worker c). at_req t \<noteq> q"
    and "\<forall>l \<in> set ls. l = Wake q \<or> l = Cancel q \<or> (\<exists>i. l = Turn i)"
  shows "\<exists>vs p' a'. run (pool_do env) ls (p, s) = Some (vs, p', s) \<and> pool_rel p' a' \<and>
    a_queues a' = a_queues a \<and> a_ctx a' = a_ctx a"
proof -
  obtain xss where rel: "rel p a xss {} {} {}" using assms(1) by (auto simp: pool_rel_def)
  have i: "ac_worker c < NUM_WORKERS" by (rule relD(14) [OF rel assms(3)])
  have "\<exists>vs pend. run (a_do env) ls (b, s) = Some (vs, b\<lparr>a_pend := pend\<rparr>, s)"
    if "idle_all b" "only_woken (ac_worker c) q b" "a_ctx b q = Some c"
      "\<forall>t \<in> set (a_queues b ! ac_worker c). at_req t \<noteq> q" for b
    using that assms(5)
  proof (induction ls arbitrary: b)
    case Nil
    show ?case by - (rule exI [of _ "[]"], rule exI [of _ "a_pend b"], simp)
  next
    case (Cons l ls)
    from Cons.prems(5) have "l = Wake q \<or> l = Cancel q \<or> (\<exists>i. l = Turn i)" by simp
    from stranded_do [OF Cons.prems(1-3) i Cons.prems(4) this, of env s] obtain v pend where
      1: "a_do env l (b, s) = Some (v, b\<lparr>a_pend := pend\<rparr>, s)" "only_woken (ac_worker c) q (b\<lparr>a_pend := pend\<rparr>)" by metis
    have "idle_all (b\<lparr>a_pend := pend\<rparr>)" using Cons.prems(1) by (simp add: idle_all_def)
    from Cons.IH [OF this 1(2)] Cons.prems(3-5) obtain vs pend' where
      "run (a_do env) ls (b\<lparr>a_pend := pend\<rparr>, s) = Some (vs, b\<lparr>a_pend := pend'\<rparr>, s)" by auto
    with 1(1) show ?case by auto
  qed
  from this [of a] assms(2-4) i obtain vs pend where
    a': "run (a_do env) ls (a, s) = Some (vs, a\<lparr>a_pend := pend\<rparr>, s)"
    by (auto simp: quiet_def only_woken_def list_update_same_conv)
  have "state_rel (p, s) (a, s)" using assms(1) by (simp add: state_rel_def)
  from pool_sim.run_sim [OF this, of env ls] a' obtain p' where "run (pool_do env) ls (p, s) = Some (vs, p', s)"
    "pool_rel p' (a\<lparr>a_pend := pend\<rparr>)" by (auto simp: option_rel_Some2 state_rel_def)
  then show ?thesis by - (rule exI [of _ vs], rule exI [of _ p'], rule exI [of _ "a\<lparr>a_pend := pend\<rparr>"], simp)
qed

definition twice_ops :: "pool_op list" where
  "twice_ops = [Start, Submit 7 (Some (user_fn 1)) 5 0 0, Submit 7 (Some (user_fn 1)) 6 0 0, Wake 7, Turn 0]"

text \<open>After two submissions for request 7 and its first task, the second task never runs.\<close>

theorem other_worker_stranded_witness:
  "\<exists>p vs p' a'. run (pool_do example_env) twice_ops (example_pool, [])
      = Some ([Int_val 0, Id_val 1, Id_val 2, Int_val 0, Turn_done], p, [5]) \<and>
    run (pool_do example_env) [Wake 7, Turn 0, Turn 1, Cancel 7, Wake 7, Turn 0] (p, [5]) = Some (vs, p', [5]) \<and>
    pool_rel p' a' \<and> map at_arg (a_queues a' ! 1) = [6]"
proof -
  let ?a = "fst (snd (the (run (a_do example_env) twice_ops (example_abs, []))))"
  have "map_option (\<lambda>(vs, a, s). (vs, s)) (run (a_do example_env) twice_ops (example_abs, []))
      = Some ([Int_val 0, Id_val 1, Id_val 2, Int_val 0, Turn_done], [5])" by code_simp
  then have "run (a_do example_env) twice_ops (example_abs, [])
      = Some ([Int_val 0, Id_val 1, Id_val 2, Int_val 0, Turn_done], ?a, [5])" by auto
  from example_run [OF this] obtain p where p: "run (pool_do example_env) twice_ops (example_pool, [])
      = Some ([Int_val 0, Id_val 1, Id_val 2, Int_val 0, Turn_done], p, [5])" "pool_rel p ?a" by metis
  have a: "quiet ?a" "map_option ac_worker (a_ctx ?a 7) = Some 0" "a_queues ?a ! 0 = []"
    "map at_arg (a_queues ?a ! 1) = [6]" by code_simp+
  then obtain c where c: "a_ctx ?a 7 = Some c" "ac_worker c = 0" by auto
  have "\<exists>vs p' a'. run (pool_do example_env) [Wake 7, Turn 0, Turn 1, Cancel 7, Wake 7, Turn 0] (p, [5]) = Some (vs, p', [5]) \<and>
      pool_rel p' a' \<and> a_queues a' = a_queues ?a \<and> a_ctx a' = a_ctx ?a"
    by (rule other_worker_stranded [OF p(2) a(1) c(1)]) (use a(3) c(2) in auto)
  with p(1) a(4) show ?thesis by metis
qed

end
