(* ===== verification/PoolReach.thy ===== *)
theory PoolReach
  imports PoolBehaviour
begin

text \<open>
  The thread pool as a state machine: the states it reaches from its initialisation by operations
  and turns, in any order and with any allocations failing, and what is true in all of them.
\<close>

section \<open>Reachable states\<close>

inductive reachable :: "'w env \<Rightarrow> (nat \<Rightarrow> int \<times> u64) \<Rightarrow> mem \<Rightarrow> 'w \<Rightarrow> pool \<times> 'w \<Rightarrow> bool"
  for env pc m s where
  initial: "thread_pool_init env pc True m s = Some (Inr p, s0) \<Longrightarrow> reachable env pc m s (p, s0)"
| step: "reachable env pc m s ps \<Longrightarrow> pool_do env l ps = Some (v, ps') \<Longrightarrow> reachable env pc m s ps'"

lemma reachable_run:
  "reachable env pc m s ps \<Longrightarrow> run (pool_do env) ls ps = Some (vs, ps') \<Longrightarrow> reachable env pc m s ps'"
proof (induction ls arbitrary: ps vs)
  case (Cons l ls)
  then obtain v ps1 us where "pool_do env l ps = Some (v, ps1)" "run (pool_do env) ls ps1 = Some (us, ps')"
    by (auto split: Option.bind_splits)
  with Cons.IH reachable.step [OF Cons.prems(1)] show ?case by blast
qed simp

lemma reachable_abs:
  assumes "reachable env pc m s ps" "no_objects m" "threads_start pc"
  shows "\<exists>a. pool_rel (fst ps) a \<and> idle_all a"
  using assms
proof (induction rule: reachable.induct)
  case (initial p s0)
  with init_pool(2) [OF initial(2,3,1)] idle_fresh show ?case by auto
next
  case (step ps l v ps')
  then obtain a where a: "pool_rel (fst ps) a" "idle_all a" by blast
  then have "state_rel ps (a, snd ps)" by (cases ps) (simp add: state_rel_def)
  from pool_sim.sim_back [OF this step.hyps(2)] obtain as where
    as: "a_do env l (a, snd ps) = Some (v, as)" "state_rel ps' as" by blast
  then have "idle_all (fst as)" using idle_do [OF a(2), of env l "snd ps" v "fst as" "snd as"] by simp
  with as(2) show ?case by (auto simp: state_rel_def rel_prod_sel)
qed

text \<open>A worker between two turns: its place, its state, and its queue.\<close>

definition worker_ok :: "mem \<Rightarrow> nat \<Rightarrow> WorkerThread \<Rightarrow> cell list \<Rightarrow> bool" where
  "worker_ok m i w zs \<longleftrightarrow> worker_idx w = i \<and> state w = WORKER_STATE_IDLE \<and> wq m w zs"

text \<open>
  C11.  Every reachable pool is well formed, whatever allocations failed on the way.  It has 64 idle
  workers numbered by their place; each queue is a list of nodes from head to tail with the length
  in its size field, whose tasks are live, run the wrapper, and carry the ids of their live internal
  tasks; the queues share no object, and every live node, task and internal task is in one; the
  chains of the request table hold each request at most once, in the bucket of its hash, with a
  worker that exists; and no flag of destruction is set.
\<close>

theorem pool_well_formed:
  assumes "no_objects m" "threads_start pc" "reachable env pc m s (p, s')"
  shows "\<exists>xss A. length xss = NUM_WORKERS \<and> length (workers p) = NUM_WORKERS \<and>
    (\<forall>i < NUM_WORKERS. worker_ok (pmem p) i (workers p ! i) (xss ! i)) \<and>
    distinct (map cell_node (concat xss)) \<and> dom (nodes (pmem p)) = cell_node ` set (concat xss) \<and>
    distinct (map cell_task (concat xss)) \<and> dom (tasks (pmem p)) = cell_task ` set (concat xss) \<and>
    distinct (map cell_itask (concat xss)) \<and> dom (itasks (pmem p)) = cell_itask ` set (concat xss) \<and>
    ht (pmem p) (req_hash p) A \<and> (\<forall>c \<in> ran A. ac_worker c < NUM_WORKERS) \<and> \<not> is_destroying p"
proof -
  obtain a where a: "pool_rel p a" "idle_all a" using reachable_abs [OF assms(3,1,2)] by auto
  then obtain xss where r: "rel p a xss {} {} {}" by (auto simp: pool_rel_def)
  note h = heap_invD [OF relD(11) [OF r]] and o = ownsD [OF heap_invD(4) [OF relD(11) [OF r]]]
  have "worker_ok (pmem p) i (workers p ! i) (xss ! i)" if "i < NUM_WORKERS" for i
  proof -
    have "worker_idx (workers p ! i) = i"
      using arg_cong [OF relD(10) [OF r], of "\<lambda>xs. xs ! i"] that h(1) by simp
    moreover have "state (workers p ! i) = WORKER_STATE_IDLE"
      using arg_cong [OF relD(8) [OF r], of "\<lambda>xs. xs ! i"] that h(1) idle_allD(2) [OF a(2) that] by simp
    ultimately show ?thesis using h(3) [OF that] by (simp add: worker_ok_def)
  qed
  moreover have "\<forall>c \<in> ran (a_ctx a). ac_worker c < NUM_WORKERS" using relD(14) [OF r] by (auto simp: ran_def)
  moreover have "\<not> is_destroying p" using relD(6) [OF r] idle_allD(1) [OF a(2)] by simp
  ultimately show ?thesis
    using h(1,2,5-7) o(1-3) relD(13) [OF r]
    by - (rule exI [of _ xss], rule exI [of _ "a_ctx a"], simp)
qed

theorem pool_well_formed_witness:
  "\<exists>xss A. length xss = NUM_WORKERS \<and> length (workers example_after) = NUM_WORKERS \<and>
    dom (nodes (pmem example_after)) = cell_node ` set (concat xss) \<and>
    ht (pmem example_after) (req_hash example_after) A"
proof -
  have "reachable example_env example_threads example_heap [] (example_after, [])"
    by (rule reachable_run [OF reachable.initial [OF example_init] example_after_run])
  from pool_well_formed [OF example_no_objects example_threads_start this] show ?thesis
    by (elim exE conjE) (intro exI conjI; assumption)
qed

end
