(* ===== verification/Logging.thy ===== *)
theory Logging
  imports OstPrelude
begin

text \<open>
  Logging (\<open>src/include/os_transport_thread_pool_internal.h\<close>): the levels with their order, their
  syslog priorities, the filter of the \<open>OST_LOG\<close> macro, the opening of the log on first use
  and the buffer of 1024 bytes a message goes through.  The formatting itself (\<open>vsnprintf\<close>) is the
  C library's: a message is given formatted, and is cut as \<open>vsnprintf\<close> cuts it.
\<close>

section \<open>Levels\<close>

datatype LogLevel = LOG_LEVEL_DEBUG | LOG_LEVEL_INFO | LOG_LEVEL_WARN | LOG_LEVEL_ERROR

text \<open>The values of the enumeration, by which the filter compares.\<close>

primrec level_value :: "LogLevel \<Rightarrow> nat" where
  "level_value LOG_LEVEL_DEBUG = 0"
| "level_value LOG_LEVEL_INFO = 1"
| "level_value LOG_LEVEL_WARN = 2"
| "level_value LOG_LEVEL_ERROR = 3"

lemma level_value_inj: "level_value a = level_value b \<Longrightarrow> a = b"
  by (cases a; cases b) simp_all

instantiation LogLevel :: linorder
begin

definition less_eq_LogLevel :: "LogLevel \<Rightarrow> LogLevel \<Rightarrow> bool" where
  "less_eq_LogLevel a b \<longleftrightarrow> level_value a \<le> level_value b"

definition less_LogLevel :: "LogLevel \<Rightarrow> LogLevel \<Rightarrow> bool" where
  "less_LogLevel a b \<longleftrightarrow> level_value a < level_value b"

instance
  by standard (auto simp: less_eq_LogLevel_def less_LogLevel_def intro: level_value_inj)

end

text \<open>The priorities of \<open>syslog.h\<close>; a smaller number is more severe.\<close>

datatype syslog_priority = LOG_ERR | LOG_WARNING | LOG_INFO | LOG_DEBUG

primrec priority_value :: "syslog_priority \<Rightarrow> nat" where
  "priority_value LOG_ERR = 3"
| "priority_value LOG_WARNING = 4"
| "priority_value LOG_INFO = 6"
| "priority_value LOG_DEBUG = 7"

primrec log_level_to_syslog_priority :: "LogLevel \<Rightarrow> syslog_priority" where
  "log_level_to_syslog_priority LOG_LEVEL_DEBUG = LOG_DEBUG"
| "log_level_to_syslog_priority LOG_LEVEL_INFO = LOG_INFO"
| "log_level_to_syslog_priority LOG_LEVEL_WARN = LOG_WARNING"
| "log_level_to_syslog_priority LOG_LEVEL_ERROR = LOG_ERR"

section \<open>The log\<close>

text \<open>What reaches syslog: the opening with the program's name, and lines.\<close>

datatype log_event =
    Openlog string
  | Line syslog_priority string nat string

record log_state =
  opened :: bool
  log_events :: "log_event list"

definition init_syslog_logger_once :: "log_state \<Rightarrow> log_state" where
  "init_syslog_logger_once s = s\<lparr>log_events := log_events s @ [Openlog ''os_transport'']\<rparr>"

definition log_to_syslog :: "LogLevel \<Rightarrow> string \<Rightarrow> nat \<Rightarrow> string \<Rightarrow> log_state \<Rightarrow> log_state" where
  "log_to_syslog level file line msg s =
     (let s1 = (if opened s then s else (init_syslog_logger_once s)\<lparr>opened := True\<rparr>);
          msg_buf = take 1023 msg
      in s1\<lparr>log_events := log_events s1 @ [Line (log_level_to_syslog_priority level) file line msg_buf]\<rparr>)"

definition OST_LOG :: "LogLevel \<Rightarrow> LogLevel \<Rightarrow> string \<Rightarrow> nat \<Rightarrow> string \<Rightarrow> log_state \<Rightarrow> log_state" where
  "OST_LOG GLOBAL_LOG_LEVEL level file line msg s =
     (if GLOBAL_LOG_LEVEL \<le> level then log_to_syslog level file line msg s else s)"

type_synonym log_call = "LogLevel \<times> string \<times> nat \<times> string"

definition log_all :: "LogLevel \<Rightarrow> log_call list \<Rightarrow> log_state \<Rightarrow> log_state" where
  "log_all global cs s = fold (\<lambda>(level, file, line, msg). OST_LOG global level file line msg) cs s"

section \<open>Properties\<close>

text \<open>The lines a sequence of calls is to write.\<close>

definition lines_of :: "LogLevel \<Rightarrow> log_call list \<Rightarrow> log_event list" where
  "lines_of global cs =
     map (\<lambda>(level, file, line, msg). Line (log_level_to_syslog_priority level) file line (take 1023 msg))
       (filter (\<lambda>(level, _). global \<le> level) cs)"

lemma log_all_opened:
  "opened s \<Longrightarrow> log_all global cs s = s\<lparr>log_events := log_events s @ lines_of global cs\<rparr>"
proof (induction cs arbitrary: s)
  case (Cons c cs)
  obtain level f n msg where c: "c = (level, f, n, msg)" by (cases c)
  let ?s = "OST_LOG global level f n msg s"
  have "opened ?s" using Cons.prems by (simp add: OST_LOG_def log_to_syslog_def Let_def)
  from Cons.IH [OF this] Cons.prems show ?case
    by (simp add: c log_all_def lines_of_def OST_LOG_def log_to_syslog_def Let_def)
qed (simp add: log_all_def lines_of_def)

text \<open>
  C38.  What a program's log consists of.  Any sequence of logging calls writes exactly the messages
  at or above the global level, in their order, each cut to 1023 characters; the log is opened once,
  before the first line, and not at all when nothing is logged.  A higher level is a more severe
  priority, so the threshold separates the severities as it separates the levels.
\<close>

theorem log_lines:
  "log_events (log_all global cs \<lparr>opened = False, log_events = []\<rparr>) =
     (if lines_of global cs = [] then [] else Openlog ''os_transport'' # lines_of global cs) \<and>
   (a < b \<longleftrightarrow> priority_value (log_level_to_syslog_priority b) < priority_value (log_level_to_syslog_priority a))"
proof
  show "a < b \<longleftrightarrow> priority_value (log_level_to_syslog_priority b) < priority_value (log_level_to_syslog_priority a)"
    by (cases a; cases b) (simp_all add: less_LogLevel_def)
  let ?s = "\<lparr>opened = False, log_events = []\<rparr>"
  show "log_events (log_all global cs ?s) =
     (if lines_of global cs = [] then [] else Openlog ''os_transport'' # lines_of global cs)"
  proof (induction cs)
    case (Cons c cs)
    obtain level f n msg where c: "c = (level, f, n, msg)" by (cases c)
    show ?case
    proof (cases "global \<le> level")
      case True
      let ?s1 = "OST_LOG global level f n msg ?s"
      have s1: "opened ?s1" "log_events ?s1 = [Openlog ''os_transport'',
          Line (log_level_to_syslog_priority level) f n (take 1023 msg)]"
        using True by (simp_all add: OST_LOG_def log_to_syslog_def init_syslog_logger_once_def Let_def)
      have "log_all global (c # cs) ?s = log_all global cs ?s1" by (simp add: c log_all_def)
      with log_all_opened [OF s1(1)] s1(2) True show ?thesis by (simp add: c lines_of_def)
    next
      case False
      then have "log_all global (c # cs) ?s = log_all global cs ?s"
        "lines_of global (c # cs) = lines_of global cs"
        by (simp_all add: c log_all_def OST_LOG_def lines_of_def)
      with Cons show ?thesis by simp
    qed
  qed (simp add: log_all_def lines_of_def)
qed

end
