(* ===== verification/Spec2Isabelle.thy ===== *)
theory Spec2Isabelle
  imports SessionProps RequestProps TableContract QueueContract MockQueue PoolIds PoolLimits PoolReach Logging
begin

text \<open>
  A verification library for the C library under \<open>src/\<close>: a transport that cuts a transfer into
  chunks of 2 MiB, posts them to an RDMA library (URMA), and runs one task per chunk on a pool of 64
  worker threads, each task woken by the completion of the chunk before it.

  \<^bold>\<open>The program.\<close>  \<open>src/os_transport_thread_pool.c\<close> is the pool.  Each worker has a
  linked queue of tasks and one pending request id; a chained hash table maps a request id to a
  context with the worker of the request, the number of its tasks that are still to run and a batch
  callback.  Tasks are submitted one by one or as a batch; a wake-up writes the request id to the
  worker of the request, which then takes one task of that request from its queue and runs it.
  \<open>src/os_transport.c\<close> is the transport: \<open>os_transport_send\<close> and \<open>os_transport_recv\<close> cut the
  buffer, build a group of task arguments with a synchronisation object, register the tasks with the
  pool as a batch and post the first chunk (a send) or all receives; \<open>os_transport_wake_up_task\<close> is
  called with each completion and wakes the worker of the request its 64 bits of user data name;
  \<open>wait_and_free_sync\<close> waits for the group and frees everything.  \<open>src/os_transport_urma.c\<close> fills
  the work requests.

  \<^bold>\<open>Conventions.\<close>  Structures are records with the fields of the source, enumerations datatypes,
  machine integers words of their width.  A pointer is a natural number into a heap that has one
  partial map per type of object; NULL is 0.  Undefined behaviour (an access to an object that is not
  live, a double free, a read of memory that was never written, a division by 0) and a loop that does
  not end are both the value \<open>None\<close>; so a theorem that an operation is \<open>Some r\<close> says that it returns
  and touches live objects only.  Loops over linked structures are \<open>partial_function (option)\<close>, loops
  with a counter are structural or have a termination proof; no fuel is used.  Which allocations
  fail is an oracle of the allocator (\<open>malloc_ok\<close>), over which every theorem quantifies, those on
  failures explicitly.  Functions of the application and callbacks are an environment (\<open>env\<close>) that
  maps the application's state on; the post functions of URMA, the CUDA runtime and
  \<open>pthread_create\<close> are parameters.

  \<^bold>\<open>Granularity.\<close>  An API call of the pool is one step, and so is a turn of a worker, that is one
  iteration of the outer loop of \<open>worker_routine\<close>, for all of which the worker holds its mutex.  A
  run is a list of such steps in any order, so the theorems on runs hold for every interleaving of
  calls and turns.  A waiter is a step that says whether \<open>wait_for_task_complete\<close> would return, and
  with what.

  \<^bold>\<open>The thread pool.\<close>
  \<open>OstPrelude\<close> holds machine types, the allocator and linked lists in a heap; \<open>OstMem\<close> the structures
  and typed frees; \<open>TaskQueue\<close> the queue of a worker (\<open>worker_queue_push\<close>, \<open>worker_queue_pop_by_req\<close>,
  \<open>attach_nodes_to_worker\<close>, \<open>cancel_in_worker_queue\<close>, \<open>destroy_worker\<close>) with a refinement lemma and a
  frame for each; \<open>ReqTable\<close> the table of contexts, removal walking a pointer to a pointer as the code
  does; \<open>ThreadPool\<close> the rest of the file, from submission to destruction, statement by statement.
  \<open>PoolSpec\<close> states what a pool promises without its memory: a list of tasks per worker and a map of
  contexts.  \<open>PoolRel\<close> relates the two (\<open>pool_rel\<close>, which also says that the heap holds exactly the
  objects in the queues and the table), \<open>PoolRefine\<close> proves that every operation and turn refines its
  abstract counterpart, error branches included, \<open>PoolLife\<close> the same for initialisation, joining and
  destruction, \<open>PoolRun\<close> lifts it to runs.  \<open>PoolInv\<close> and \<open>PoolFacts\<close> prove invariants of the abstract
  pool: pending counts, ids, joinable workers, definedness.  Properties: \<open>PoolProps\<close> (refinement,
  memory safety and absence of leaks, the exact heap, counts, a batch worked off), \<open>PoolBehaviour\<close>
  (where a submission goes, cancellation, wake-ups), \<open>PoolIds\<close> (the ids of single and batch
  submissions), \<open>PoolLimits\<close> (what a turn runs, what is never run), \<open>PoolReach\<close> (the reachable states as an inductive predicate, and their type
  invariant).  Joining a worker takes at most two turns: one for a pending request, one to exit.

  \<^bold>\<open>The transport.\<close>
  \<open>UserData\<close> is the union of bit-fields that travels with a work request, as a word with field
  access, in the layout of little-endian ABIs (first field in the low bits).  \<open>TransportMem\<close> has
  the heap of the transport, \<open>Chunking\<close> the cutting in 64-bit arithmetic, \<open>UrmaPost\<close> the work requests,
  \<open>Requests\<close> groups, synchronisation objects, arguments, registration, worker functions and waiting,
  \<open>Transport\<close> the API.  \<open>RequestFacts\<close>, \<open>RequestRun\<close>, \<open>TransportRun\<close>, \<open>TransportFacts\<close> and
  \<open>TransportLife\<close> carry the proofs: what each allocation stage leaves behind when a later one
  fails, what a worker function does in a turn, whole sends and receives, the life of the handle.
  Properties: \<open>TransportProps\<close> (the life of a send and of a receive from call to release, failed posts,
  all-or-nothing on every failure), \<open>SessionProps\<close> (initialisation, its failures, handles that have
  been destroyed, a whole session), \<open>RequestProps\<close> (chunks tile the buffer and equal a reference cut,
  the user data, work requests and the words a whole send carries, completions, waiting, small
  transfers, invalid calls, completion queues).

  \<^bold>\<open>Contracts.\<close>  \<open>Contracts\<close> states as locales what a client may rely on: a simulation between step
  functions, with invariants; a dictionary; a queue; a queue taken by key.  The pool interprets
  the first (\<open>PoolRun\<close>, \<open>PoolFacts\<close>, \<open>PoolBehaviour\<close>), the request table the dictionary
  (\<open>TableContract\<close>), a worker's queue the queue by key (\<open>QueueContract\<close>, for fewer than 2 to the 32
  tasks, the range of the size field), the ring of the test build the queue (\<open>MockQueue\<close>, for at most 2 to
  the 31 events, beyond which doubling the capacity wraps).

  \<^bold>\<open>The rest.\<close>  \<open>MockQueue\<close> models the event queue compiled under \<open>TEST_MODE\<close>; \<open>Logging\<close> the levels,
  priorities and filter of \<open>os_transport_thread_pool_internal.h\<close>, in one translation unit.

  \<^bold>\<open>Bounds.\<close>  Theorems that count tasks bound the number of submissions of a run by 2 to the 32 (the
  pending count is an \<open>int\<close>, kept as its 32 bits, of which the code reads whether it is 0) or 2 to the 31
  (where the count is returned as an \<open>int\<close>), those on ids by 2 to the 64; the refinement needs none.

  \<^bold>\<open>Abstractions.\<close>  The locks of a submission are taken one after the other (choosing the worker,
  the push, the context), and the model makes one step of them; callbacks do not call the pool again.
  The pending count is the 32 bits of the C \<open>int\<close>, without its signed overflow.
  \<open>alloc_task_group\<close> and \<open>init_task_sync\<close> lack the checks of their out-pointer and element size, which
  no caller can make fail.  Out-parameters are results: \<open>os_transport_init\<close> gives NULL for a handle
  where the code stores NULL, and also where a missing argument makes it store nothing.
  \<open>pthread_create\<close> is a parameter that gives both its result and the thread id it leaves, since POSIX
  does not say what a failed call leaves.  \<open>log_to_syslog\<close> keeps the text of a line and its place;
  the flags of \<open>openlog\<close>, the layout of the prefix and the priority of a value outside the
  enumeration are left out.  Addresses are never reused, so an access to a released object is always
  \<open>None\<close>.

  \<^bold>\<open>Not modelled.\<close>  Mutexes and condition variables, and with them data races inside a step: the
  unlocked reads of \<open>is_running\<close> and of contexts, and the use of a receive argument after its
  completion was marked.  Log output from the other components, which nothing reads back.  A NULL
  thread pool handle, except where the transport can pass one.  The functions behind
  \<open>task_func\<close>, the callbacks, URMA and CUDA, which are parameters.
\<close>

end
